(* ===== verification/Dag_Prelude.thy ===== *)
theory Dag_Prelude
  imports Main "HOL-Library.Word"
begin

text \<open>
  The prelude of the development: the failures a C++ call can end in, the two shapes of fallible
  computation the other theories use, the generic lemmas on them, on lists, words and finite
  relations, and the development's \<^theory_text>\<open>named_theorems\<close> collections.

  A computation of type \<open>'a res\<close> only reads; one of type \<open>('s, 'a) exec\<close> also changes a state. The
  state is returned on the failing branch too, because a C++ exception leaves behind every effect
  that happened before the throw.
\<close>

section \<open>Failures\<close>

text \<open>
  \<^item> \<open>NullDeref\<close>: a null (or expired and locked) smart pointer is dereferenced;
  \<^item> \<open>OutOfRange\<close>: \<open>operator[]\<close> of a container past its end;
  \<^item> \<open>AssertFailed\<close>: an \<open>assert\<close> fails (debug builds);
  \<^item> \<open>ThrowDAGException\<close>, \<open>ThrowRuntimeError\<close>, \<open>ThrowLogicError\<close>: the exceptions of the program;
  \<^item> \<open>ThrowDeserializerError\<close>, \<open>ThrowWrongTypeError\<close>, \<open>ThrowNonSupportedCallbackType\<close>: those of the YAML
    deserializer; \<open>ThrowSystemError\<close> and \<open>ThrowYamlException\<close> come from Boost and yaml-cpp;
  \<^item> \<open>StdTerminate\<close>: the runtime calls \<open>std::terminate\<close>;
  \<^item> \<open>OutOfFuel\<close>: the bound on the iterations of a loop is used up; it stands for "does not return".
\<close>

datatype cpp_error =
    NullDeref
  | OutOfRange
  | AssertFailed
  | ThrowDAGException
  | ThrowRuntimeError string
  | ThrowLogicError string
  | ThrowDeserializerError string
  | ThrowWrongTypeError string
  | ThrowNonSupportedCallbackType string
  | ThrowSystemError string
  | ThrowYamlException string
  | StdTerminate
  | OutOfFuel

type_synonym 'a res = "cpp_error + 'a"

type_synonym ('s, 'a) exec = "'s \<Rightarrow> 'a res \<times> 's"

type_synonym size_t = "64 word"

section \<open>Composition\<close>

definition rbind :: "'a res \<Rightarrow> ('a \<Rightarrow> 'b res) \<Rightarrow> 'b res" where
  "rbind r k = (case r of Inl e \<Rightarrow> Inl e | Inr a \<Rightarrow> k a)"

primrec rmap :: "('a \<Rightarrow> 'b res) \<Rightarrow> 'a list \<Rightarrow> 'b list res" where
  "rmap f [] = Inr []"
| "rmap f (x # xs) = rbind (f x) (\<lambda>y. rbind (rmap f xs) (\<lambda>ys. Inr (y # ys)))"

definition eret :: "'a \<Rightarrow> ('s, 'a) exec" where
  "eret a s = (Inr a, s)"

definition eraise :: "cpp_error \<Rightarrow> ('s, 'a) exec" where
  "eraise e s = (Inl e, s)"

definition elift :: "'a res \<Rightarrow> ('s, 'a) exec" where
  "elift r s = (r, s)"

definition ebind :: "('s, 'a) exec \<Rightarrow> ('a \<Rightarrow> ('s, 'b) exec) \<Rightarrow> ('s, 'b) exec" where
  "ebind m k s = (case m s of (Inl e, t) \<Rightarrow> (Inl e, t) | (Inr a, t) \<Rightarrow> k a t)"

primrec efor :: "('a \<Rightarrow> ('s, unit) exec) \<Rightarrow> 'a list \<Rightarrow> ('s, unit) exec" where
  "efor f [] = eret ()"
| "efor f (x # xs) = ebind (f x) (\<lambda>_. efor f xs)"

primrec efold :: "('a \<Rightarrow> 'b \<Rightarrow> ('s, 'b) exec) \<Rightarrow> 'a list \<Rightarrow> 'b \<Rightarrow> ('s, 'b) exec" where
  "efold f [] b = eret b"
| "efold f (x # xs) b = ebind (f x b) (efold f xs)"

named_theorems exec_simps \<open>evaluation of the result and state combinators\<close>

lemma rbind_simps [simp, exec_simps]:
  "rbind (Inl e) k = Inl e"
  "rbind (Inr a) k = k a"
  by (simp_all add: rbind_def)

lemma eret_apply [simp, exec_simps]: "eret a s = (Inr a, s)"
  by (simp add: eret_def)

lemma eraise_apply [simp, exec_simps]: "eraise e s = (Inl e, s)"
  by (simp add: eraise_def)

lemma elift_apply [simp, exec_simps]: "elift r s = (r, s)"
  by (simp add: elift_def)

lemma ebind_Inr [exec_simps]: "m s = (Inr a, t) \<Longrightarrow> ebind m k s = k a t"
  by (simp add: ebind_def)

lemma ebind_Inl [exec_simps]: "m s = (Inl e, t) \<Longrightarrow> ebind m k s = (Inl e, t)"
  by (simp add: ebind_def)

lemma ebind_elift [simp, exec_simps]:
  "ebind (elift (Inr a)) k s = k a s"
  "ebind (elift (Inl e)) k s = (Inl e, s)"
  by (simp_all add: ebind_def)

lemma ebind_eq_Inr:
  "ebind m k s = (Inr b, u) \<longleftrightarrow> (\<exists>a t. m s = (Inr a, t) \<and> k a t = (Inr b, u))"
  by (auto simp: ebind_def split: prod.splits sum.splits)

lemma rmap_Inr_all:
  assumes "\<And>x. x \<in> set xs \<Longrightarrow> f x = Inr (g x)"
  shows "rmap f xs = Inr (map g xs)"
  using assms by (induction xs) auto

lemma rmap_total:
  assumes "\<And>x. x \<in> set xs \<Longrightarrow> \<exists>y. f x = Inr y \<and> P y"
  shows "\<exists>ys. rmap f xs = Inr ys \<and> length ys = length xs \<and> list_all P ys"
  using assms
proof (induction xs)
  case Nil
  then show ?case by simp
next
  case (Cons x xs)
  then obtain y ys where "f x = Inr y" "P y" "rmap f xs = Inr ys" "length ys = length xs"
      "list_all P ys"
    by force
  then show ?case by simp
qed

lemma rmap_list_all2:
  assumes "\<And>x. x \<in> set xs \<Longrightarrow> \<exists>y. f x = Inr y \<and> R x y"
  shows "\<exists>ys. rmap f xs = Inr ys \<and> list_all2 R xs ys"
  using assms
proof (induction xs)
  case Nil
  then show ?case by simp
next
  case (Cons x xs)
  then obtain y ys where "f x = Inr y" "R x y" "rmap f xs = Inr ys" "list_all2 R xs ys"
    by force
  then show ?case by simp
qed

text \<open>An invariant that the body of a counted loop keeps holds after the loop.\<close>

lemma efor_rule:
  assumes "I [] s"
    and "\<And>done x rest s. xs = done @ x # rest \<Longrightarrow> I done s \<Longrightarrow>
           \<exists>s'. f x s = (Inr (), s') \<and> I (done @ [x]) s'"
  shows "\<exists>s'. efor f xs s = (Inr (), s') \<and> I xs s'"
proof -
  have "\<exists>s'. efor f ys s = (Inr (), s') \<and> I (zs @ ys) s'" if "xs = zs @ ys" "I zs s" for ys zs s
    using that
  proof (induction ys arbitrary: zs s)
    case Nil
    then show ?case by simp
  next
    case (Cons y ys)
    from assms(2) [OF Cons.prems] obtain s1 where
      s1: "f y s = (Inr (), s1)" "I (zs @ [y]) s1" by blast
    from Cons.prems(1) have "xs = (zs @ [y]) @ ys" by simp
    from Cons.IH [OF this s1(2)] s1(1) show ?case
      by (auto simp: ebind_Inr)
  qed
  from this [of "[]" xs s] assms(1) show ?thesis by simp
qed

lemma efold_rule:
  assumes "I [] b s"
    and "\<And>ys x zs b s. xs = ys @ x # zs \<Longrightarrow> I ys b s \<Longrightarrow>
           \<exists>b' s'. f x b s = (Inr b', s') \<and> I (ys @ [x]) b' s'"
  shows "\<exists>b' s'. efold f xs b s = (Inr b', s') \<and> I xs b' s'"
proof -
  have "\<exists>b' s'. efold f zs b s = (Inr b', s') \<and> I (ys @ zs) b' s'" if "xs = ys @ zs" "I ys b s" for ys zs b s
    using that
  proof (induction zs arbitrary: ys b s)
    case Nil
    then show ?case by simp
  next
    case (Cons z zs)
    from assms(2) [OF Cons.prems] obtain b1 s1 where
      s1: "f z b s = (Inr b1, s1)" "I (ys @ [z]) b1 s1" by blast
    from Cons.prems(1) have "xs = (ys @ [z]) @ zs" by simp
    from Cons.IH [OF this s1(2)] s1(1) show ?case
      by (auto simp: ebind_Inr)
  qed
  from this [of "[]" xs b s] assms(1) show ?thesis by simp
qed

section \<open>Lists\<close>

definition index_of :: "'a list \<Rightarrow> 'a \<Rightarrow> nat" where
  "index_of xs x = length (takeWhile (\<lambda>y. y \<noteq> x) xs)"

lemma index_of_less: "x \<in> set xs \<Longrightarrow> index_of xs x < length xs"
  unfolding index_of_def by (induction xs) auto

lemma nth_index_of [simp]: "x \<in> set xs \<Longrightarrow> xs ! index_of xs x = x"
  unfolding index_of_def by (induction xs) auto

lemma index_of_nth [simp]: "distinct xs \<Longrightarrow> i < length xs \<Longrightarrow> index_of xs (xs ! i) = i"
  by (metis index_of_less nth_eq_iff_index_eq nth_index_of nth_mem)

lemma index_of_inj: "x \<in> set xs \<Longrightarrow> y \<in> set xs \<Longrightarrow> index_of xs x = index_of xs y \<Longrightarrow> x = y"
  by (metis nth_index_of)

lemma index_of_append:
  assumes "x \<in> set xs" "y \<in> set ys" "y \<notin> set xs"
  shows "index_of (xs @ ys) x < index_of (xs @ ys) y"
proof -
  have "takeWhile (\<lambda>z. z \<noteq> x) (xs @ ys) = takeWhile (\<lambda>z. z \<noteq> x) xs" using assms(1) by (simp add: takeWhile_append1)
  then have "index_of (xs @ ys) x < length xs" using index_of_less [OF assms(1)] by (simp add: index_of_def)
  moreover have "\<forall>z \<in> set xs. z \<noteq> y" using assms(3) by blast
  then have "length xs \<le> index_of (xs @ ys) y" by (simp add: index_of_def takeWhile_append2)
  ultimately show ?thesis by linarith
qed

lemma find_distinct_Some:
  assumes "distinct (map f xs)" "x \<in> set xs"
  shows "List.find (\<lambda>y. f y = f x) xs = Some x"
  using assms by (induction xs) (auto simp: rev_image_eqI)

lemma find_None_iff_key: "List.find (\<lambda>y. f y = k) xs = None \<longleftrightarrow> k \<notin> f ` set xs"
  by (auto simp: find_None_iff)

lemma find_snoc:
  "List.find P (xs @ [x]) = (case List.find P xs of None \<Rightarrow> if P x then Some x else None | Some y \<Rightarrow> Some y)"
  by (induction xs) auto

lemma find_cong_set:
  "(\<And>x. x \<in> set xs \<Longrightarrow> P x = Q x) \<Longrightarrow> List.find P xs = List.find Q xs"
  by (induction xs) auto

lemma in_set_list_update_other:
  assumes "i < length xs" "xs ! i \<noteq> y" "z \<noteq> y"
  shows "y \<in> set (xs[i := z]) \<longleftrightarrow> y \<in> set xs"
proof -
  have "xs = take i xs @ xs ! i # drop (Suc i) xs" using assms(1) by (rule id_take_nth_drop)
  then have "set xs = set (take i xs) \<union> {xs ! i} \<union> set (drop (Suc i) xs)"
    by (metis Un_insert_right list.simps(15) set_append sup_bot_right Un_insert_left insert_is_Un Un_assoc)
  moreover have "set (xs[i := z]) = set (take i xs) \<union> {z} \<union> set (drop (Suc i) xs)"
    using assms(1) by (simp add: upd_conv_take_nth_drop)
  ultimately show ?thesis using assms(2,3) by auto
qed

lemma upt_0_split:
  assumes "[0..<n] = ys @ i # zs"
  shows "length ys = i" "i < n"
proof -
  have "length ys < n" using arg_cong [OF assms, of length] by simp
  moreover have "[0..<n] ! length ys = i" using assms by (metis nth_append_length)
  ultimately show "length ys = i" "i < n" by simp_all
qed

lemma replicate_append_update:
  "xs = replicate i c @ y # ys \<Longrightarrow> xs[i := c] = replicate (Suc i) c @ ys"
  by (simp add: list_update_append replicate_app_Cons_same)

text \<open>A list that has every node after all its predecessors.\<close>

definition topological :: "('a \<times> 'a) set \<Rightarrow> 'a list \<Rightarrow> bool" where
  "topological r xs \<longleftrightarrow> (\<forall>i < length xs. \<forall>a. (a, xs ! i) \<in> r \<longrightarrow> a \<in> set (take i xs))"

lemma topological_Nil [simp]: "topological r []"
  by (simp add: topological_def)

lemma topological_snoc:
  "topological r (xs @ [x]) \<longleftrightarrow> topological r xs \<and> (\<forall>a. (a, x) \<in> r \<longrightarrow> a \<in> set xs)"
  by (auto simp: topological_def nth_append less_Suc_eq)

lemma topological_pred_before:
  assumes "topological r xs" "distinct xs" "(a, b) \<in> r" "b \<in> set xs"
  shows "a \<in> set xs" "index_of xs a < index_of xs b"
proof -
  let ?i = "index_of xs b"
  have "?i < length xs" "xs ! ?i = b" using assms(4) by (simp_all add: index_of_less)
  with assms(1,3) have "a \<in> set (take ?i xs)" by (auto simp: topological_def)
  then obtain j where "j < ?i" "j < length xs" "xs ! j = a" by (auto simp: in_set_conv_nth)
  with assms(2) show "a \<in> set xs" "index_of xs a < index_of xs b" by auto
qed

lemma topological_acyclic:
  assumes "topological r xs" "distinct xs" "snd ` r \<subseteq> set xs"
  shows "acyclic r"
proof (rule acyclicI_order [where f = "\<lambda>a. - int (index_of xs a)"])
  show "- int (index_of xs b) < - int (index_of xs a)" if "(a, b) \<in> r" for a b
  proof -
    have "b \<in> set xs" using that assms(3) by force
    with topological_pred_before(2) [OF assms(1,2) that] show ?thesis by simp
  qed
qed

section \<open>Machine words\<close>

text \<open>The counters of the program are \<open>size_t\<close>; below $2^{64}$ they count exactly.\<close>

lemma of_nat_size_t_eq: "m < 2 ^ 64 \<Longrightarrow> n < 2 ^ 64 \<Longrightarrow> (of_nat m :: size_t) = of_nat n \<longleftrightarrow> m = n"
  by (auto simp: word_of_nat_eq_iff take_bit_nat_eq_self)

lemma of_nat_size_t_eq_0:
  "n < 2 ^ 64 \<Longrightarrow> (of_nat n :: size_t) = 0 \<longleftrightarrow> n = 0"
  by (simp add: word_of_nat_eq_0_iff) (auto dest: nat_dvd_not_less)

lemma of_nat_size_t_pos:
  "n < 2 ^ 64 \<Longrightarrow> 0 < (of_nat n :: size_t) \<longleftrightarrow> 0 < n"
  by (metis of_nat_size_t_eq_0 word_gt_0 neq0_conv)

lemma of_nat_Suc_minus_1: "(of_nat (Suc n) :: size_t) - 1 = of_nat n"
  by simp

section \<open>Finite relations\<close>

lemma trancl_image: "(x, y) \<in> r\<^sup>+ \<Longrightarrow> (f x, f y) \<in> (map_prod f f ` r)\<^sup>+"
proof (induction rule: trancl_induct)
  case (base y)
  then show ?case by (intro r_into_trancl) force
next
  case (step y z)
  then have "(f y, f z) \<in> map_prod f f ` r" by force
  with step.IH show ?case by (rule trancl_into_trancl)
qed

lemma acyclic_of_image: "acyclic (map_prod f f ` r) \<Longrightarrow> acyclic r"
  by (auto simp: acyclic_def dest!: trancl_image [where f = f])

text \<open>Renaming the nodes of a graph by a bijection neither makes nor breaks a cycle.\<close>

lemma acyclic_image_iff:
  assumes "r \<subseteq> A \<times> A" "inj_on f A"
  shows "acyclic (map_prod f f ` r) \<longleftrightarrow> acyclic r"
proof
  assume ac: "acyclic r"
  let ?h = "the_inv_into A f"
  have id: "map_prod ?h ?h (map_prod f f p) = p" if "p \<in> r" for p
    using that assms by (cases p) (auto simp: the_inv_into_f_f)
  have "map_prod ?h ?h ` (map_prod f f ` r) = r"
    unfolding image_image by (subst image_cong [OF refl id]) auto
  with ac show "acyclic (map_prod f f ` r)"
    by (intro acyclic_of_image [of ?h]) simp
qed (rule acyclic_of_image)

section \<open>Invariants of step relations\<close>

text \<open>
  The interface of a state machine whose steps depend on external code \<open>e\<close>: if \<open>e\<close> is as documented,
  the initial states satisfy \<open>inv\<close> and every step keeps it. Each state machine of the development
  interprets it.
\<close>

locale step_invariant =
  fixes ok :: "'e \<Rightarrow> bool"
    and init :: "'e \<Rightarrow> 's \<Rightarrow> bool"
    and step :: "'e \<Rightarrow> 's \<Rightarrow> 's \<Rightarrow> bool"
    and inv :: "'e \<Rightarrow> 's \<Rightarrow> bool"
  assumes init_inv: "ok e \<Longrightarrow> init e s \<Longrightarrow> inv e s"
    and step_inv: "ok e \<Longrightarrow> inv e s \<Longrightarrow> step e s t \<Longrightarrow> inv e t"
begin

lemma steps_inv:
  assumes "ok e" "inv e s" "(step e)\<^sup>*\<^sup>* s t"
  shows "inv e t"
  using assms(3,2) by (induction rule: rtranclp_induct) (auto intro: step_inv [OF assms(1)])

lemma reachable_inv:
  assumes "ok e" "init e s" "(step e)\<^sup>*\<^sup>* s t"
  shows "inv e t"
  using steps_inv [OF assms(1) init_inv [OF assms(1,2)] assms(3)] .

end

section \<open>Characters\<close>

text \<open>\<open>std::tolower\<close> in the C locale.\<close>

definition tolower :: "char \<Rightarrow> char" where
  "tolower c = (let n = (of_char c :: nat) in if 65 \<le> n \<and> n \<le> 90 then char_of (n + 32) else c)"

section \<open>Tables that keep their first entry\<close>

text \<open>
  The contract of the tables of the program that refuse a second entry under a key: the insertion says
  whether the key was new, and changes nothing if it was not.
\<close>

locale insert_once =
  fixes inv :: "'s \<Rightarrow> bool"
    and look :: "'s \<Rightarrow> 'k \<Rightarrow> 'e option"
    and key :: "'v \<Rightarrow> 'k"
    and ins :: "'v \<Rightarrow> 's \<Rightarrow> bool \<times> 's"
  assumes ins_inv: "inv s \<Longrightarrow> inv (snd (ins v s))"
    and ins_new: "inv s \<Longrightarrow> fst (ins v s) \<longleftrightarrow> look s (key v) = None"
    and ins_dom: "inv s \<Longrightarrow> look (snd (ins v s)) k = None \<longleftrightarrow> look s k = None \<and> k \<noteq> key v"
    and ins_keep: "inv s \<Longrightarrow> look s k = Some e \<Longrightarrow> look (snd (ins v s)) k = Some e"
begin

lemma ins_again:
  assumes "inv s" "key w = key v"
  shows "\<not> fst (ins w (snd (ins v s))) \<and> look (snd (ins w (snd (ins v s)))) = look (snd (ins v s))"
proof -
  let ?t = "snd (ins v s)"
  have inv: "inv ?t" and "look ?t (key w) \<noteq> None" using assms by (simp_all add: ins_inv ins_dom)
  then have "look (snd (ins w ?t)) k = look ?t k" for k
    using ins_keep [OF inv, of k _ w] ins_dom [OF inv, of w k] by (cases "look ?t k") auto
  with \<open>look ?t (key w) \<noteq> None\<close> show ?thesis by (auto simp: ins_new [OF inv])
qed

lemma fold_ins:
  "inv s \<Longrightarrow> inv (fold (\<lambda>v s. snd (ins v s)) vs s) \<and>
     (\<forall>k. look (fold (\<lambda>v s. snd (ins v s)) vs s) k = None \<longleftrightarrow> look s k = None \<and> k \<notin> key ` set vs) \<and>
     (\<forall>k e. look s k = Some e \<longrightarrow> look (fold (\<lambda>v s. snd (ins v s)) vs s) k = Some e)"
proof (induction vs arbitrary: s)
  case (Cons v vs)
  with Cons.IH [OF ins_inv [OF Cons.prems], of v] show ?case by (auto simp: ins_dom ins_keep)
qed simp

end

end
