(* ===== verification/Uuid.thy ===== *)
theory Uuid
  imports Dag_Prelude
begin

text \<open>
  Class \<open>UUID\<close> (\<open>lib/uuid.cxx\<close>, \<open>include/dag_scheduler/uuid.h\<close>). A \<open>uuid_t\<close> is the 16 bytes of
  libuuid, here one 128-bit word; the null UUID, which a moved-from \<open>UUID\<close> holds, is the word 0.
  libuuid itself is not part of the repository: the three functions of it that compute something
  are the fields of the record \<open>libuuid\<close>, and \<open>libuuid_ok\<close> collects what its manual page promises.
  \<open>uuid_clear\<close>, \<open>uuid_copy\<close> and \<open>uuid_is_null\<close> only set, copy and test the bytes.
\<close>

type_synonym uuid_t = "128 word"

record libuuid =
  uuid_generate :: "nat \<Rightarrow> uuid_t" \<comment> \<open>the n-th value the generator hands out\<close>
  uuid_unparse_lower :: "uuid_t \<Rightarrow> string"
  uuid_parse :: "string \<Rightarrow> uuid_t option" \<comment> \<open>\<open>None\<close> is the status -1\<close>

definition libuuid_ok :: "('z) libuuid_scheme \<Rightarrow> bool" where
  "libuuid_ok L \<longleftrightarrow>
     (\<forall>n. uuid_generate L n \<noteq> 0) \<and>
     (\<forall>u. length (uuid_unparse_lower L u) = 36) \<and>
     (\<forall>u. CHR 0x00 \<notin> set (uuid_unparse_lower L u)) \<and>
     (\<forall>u. uuid_parse L (uuid_unparse_lower L u) = Some u) \<and>
     uuid_parse L [] = None"

section \<open>The operations of the class\<close>

definition c_str :: "string \<Rightarrow> string" where
  "c_str s = takeWhile (\<lambda>c. c \<noteq> CHR 0x00) s"

definition UUID_default :: "('z) libuuid_scheme \<Rightarrow> nat \<Rightarrow> uuid_t" where
  "UUID_default L n = uuid_generate L n"

definition UUID_from_string :: "('z) libuuid_scheme \<Rightarrow> string \<Rightarrow> uuid_t res" where
  "UUID_from_string L user_defined_uuid =
     (case uuid_parse L (c_str user_defined_uuid) of
        None \<Rightarrow> Inl (ThrowRuntimeError (''Failed to parse user defined uuid of '' @ user_defined_uuid))
      | Some u \<Rightarrow> Inr u)"

definition UUID_clear :: "uuid_t \<Rightarrow> uuid_t" where
  "UUID_clear u = 0"

definition UUID_clone :: "uuid_t \<Rightarrow> uuid_t" where
  "UUID_clone u = u"

text \<open>A move returns the new value of \<open>*this\<close> and the value left in the source.\<close>

definition UUID_move :: "uuid_t \<Rightarrow> uuid_t \<times> uuid_t" where
  "UUID_move other = (other, UUID_clear other)"

definition is_initialized :: "uuid_t \<Rightarrow> bool" where
  "is_initialized u \<longleftrightarrow> u \<noteq> 0"

definition as_string :: "('z) libuuid_scheme \<Rightarrow> uuid_t \<Rightarrow> string" where
  "as_string L u = (if is_initialized u then uuid_unparse_lower L u else [])"

definition uuid_eq :: "('z) libuuid_scheme \<Rightarrow> uuid_t \<Rightarrow> uuid_t \<Rightarrow> bool" where
  "uuid_eq L lhs rhs =
     (if \<not> is_initialized lhs \<and> \<not> is_initialized rhs then True
      else if \<not> is_initialized lhs \<or> \<not> is_initialized rhs then False
      else as_string L lhs = as_string L rhs)"

definition uuid_ne :: "('z) libuuid_scheme \<Rightarrow> uuid_t \<Rightarrow> uuid_t \<Rightarrow> bool" where
  "uuid_ne L lhs rhs = (\<not> uuid_eq L lhs rhs)"

text \<open>The private copies; the result is the new value of \<open>*this\<close>.\<close>

definition UUID_copy :: "uuid_t \<Rightarrow> uuid_t" where
  "UUID_copy other = other"

definition UUID_assign :: "uuid_t \<Rightarrow> uuid_t \<Rightarrow> uuid_t" where
  "UUID_assign this rhs = rhs"

section \<open>What identifiers promise their clients\<close>

text \<open>
  The graph, the vertices and the task queue use identifiers through an equality and a printed
  form. The interface: under a correct library, both decide the identity of the underlying value,
  so a search by identifier finds exactly the entry that carries it.
\<close>

locale id_spec =
  fixes ok :: "'l \<Rightarrow> bool"
    and same :: "'l \<Rightarrow> 'u \<Rightarrow> 'u \<Rightarrow> bool"
    and printed :: "'l \<Rightarrow> 'u \<Rightarrow> string"
  assumes same_iff: "ok L \<Longrightarrow> same L u v \<longleftrightarrow> u = v"
    and printed_iff: "ok L \<Longrightarrow> printed L u = printed L v \<longleftrightarrow> u = v"
begin

lemma find_same:
  assumes "ok L" "distinct (map f xs)" "x \<in> set xs"
  shows "List.find (\<lambda>y. same L (f x) (f y)) xs = Some x"
proof -
  have "List.find (\<lambda>y. same L (f x) (f y)) xs = List.find (\<lambda>y. f y = f x) xs"
    using assms(1) by (auto intro!: find_cong_set simp: same_iff)
  with find_distinct_Some [OF assms(2,3)] show ?thesis by simp
qed

lemma find_none:
  assumes "ok L"
  shows "List.find (\<lambda>y. same L k (f y)) xs = None \<longleftrightarrow> k \<notin> f ` set xs"
  using assms by (auto simp: find_None_iff same_iff)

lemma filter_printed:
  assumes "ok L" "distinct (map f xs)" "x \<in> set xs"
  shows "filter (\<lambda>y. printed L (f y) = printed L (f x)) xs = [x]"
  using assms
proof (induction xs)
  case Nil
  then show ?case by simp
next
  case (Cons z zs)
  have none: "filter (\<lambda>y. f y = f z) zs = []"
    using Cons.prems(2) by (auto simp: filter_empty_conv) (metis imageI)
  show ?case
  proof (cases "x = z")
    case True
    with none Cons.prems(1) show ?thesis by (simp add: printed_iff)
  next
    case False
    with Cons.prems have "x \<in> set zs" "f z \<noteq> f x" by auto
    with Cons show ?thesis by (simp add: printed_iff)
  qed
qed

end

lemma unparse_inj:
  "libuuid_ok L \<Longrightarrow> uuid_unparse_lower L u = uuid_unparse_lower L v \<longleftrightarrow> u = v"
  by (metis libuuid_ok_def option.inject)

lemma unparse_nonempty: "libuuid_ok L \<Longrightarrow> uuid_unparse_lower L u \<noteq> []"
  by (metis libuuid_ok_def length_greater_0_conv zero_less_numeral)

lemma as_string_eq_iff: "libuuid_ok L \<Longrightarrow> as_string L u = as_string L v \<longleftrightarrow> u = v"
  using unparse_nonempty [of L u] unparse_nonempty [of L v]
  by (auto simp: as_string_def is_initialized_def unparse_inj)

lemma uuid_eq_iff: "libuuid_ok L \<Longrightarrow> uuid_eq L u v \<longleftrightarrow> u = v"
  by (auto simp: uuid_eq_def is_initialized_def as_string_eq_iff)

lemma uuid_ne_iff: "libuuid_ok L \<Longrightarrow> uuid_ne L u v \<longleftrightarrow> u \<noteq> v"
  by (simp add: uuid_ne_def uuid_eq_iff)

lemma uuid_ne_copy: "libuuid_ok L \<Longrightarrow> \<not> uuid_ne L (UUID_copy u) u \<and> \<not> uuid_ne L (UUID_assign w u) u"
  by (simp add: uuid_ne_iff UUID_copy_def UUID_assign_def)

interpretation uuid: id_spec libuuid_ok uuid_eq as_string
  by unfold_locales (simp_all add: uuid_eq_iff as_string_eq_iff)

lemma c_str_unparse: "libuuid_ok L \<Longrightarrow> c_str (uuid_unparse_lower L u) = uuid_unparse_lower L u"
  by (auto simp: c_str_def libuuid_ok_def takeWhile_eq_all_conv)

lemma UUID_from_string_as_string:
  "libuuid_ok L \<Longrightarrow> u \<noteq> 0 \<Longrightarrow> UUID_from_string L (as_string L u) = Inr u"
  by (simp add: UUID_from_string_def as_string_def is_initialized_def c_str_unparse)
    (simp add: libuuid_ok_def)

lemma UUID_from_string_null:
  "libuuid_ok L \<Longrightarrow>
   UUID_from_string L (as_string L 0) = Inl (ThrowRuntimeError ''Failed to parse user defined uuid of '')"
  by (simp add: UUID_from_string_def as_string_def is_initialized_def c_str_def libuuid_ok_def)

section \<open>An instance\<close>

text \<open>
  The documented format (32 lower-case hexadecimal digits in groups of 8, 4, 4, 4 and 12) meets
  \<open>libuuid_ok\<close>, so the hypothesis can hold; the witnesses of the development use this instance.
\<close>

definition hex_digits :: string where
  "hex_digits = ''0123456789abcdef''"

primrec hex_encode :: "nat \<Rightarrow> nat \<Rightarrow> string" where
  "hex_encode 0 n = []"
| "hex_encode (Suc k) n = hex_digits ! (n mod 16) # hex_encode k (n div 16)"

primrec hex_decode :: "string \<Rightarrow> nat" where
  "hex_decode [] = 0"
| "hex_decode (c # cs) = index_of hex_digits c + 16 * hex_decode cs"

definition group_digits :: "string \<Rightarrow> string" where
  "group_digits h = take 8 h @ ''-'' @ take 4 (drop 8 h) @ ''-'' @ take 4 (drop 12 h) @ ''-'' @
     take 4 (drop 16 h) @ ''-'' @ drop 20 h"

definition sample_unparse :: "uuid_t \<Rightarrow> string" where
  "sample_unparse u = group_digits (rev (hex_encode 32 (unat u)))"

definition sample_parse :: "string \<Rightarrow> uuid_t option" where
  "sample_parse s = (if length s = 36
     then Some (of_nat (hex_decode (rev (filter (\<lambda>c. c \<noteq> CHR ''-'') s)))) else None)"

definition sample_libuuid :: libuuid where
  "sample_libuuid = \<lparr>uuid_generate = (\<lambda>n. if (of_nat (Suc n) :: uuid_t) = 0 then 1 else of_nat (Suc n)),
     uuid_unparse_lower = sample_unparse, uuid_parse = sample_parse\<rparr>"

lemma length_hex_encode [simp]: "length (hex_encode k n) = k"
  by (induction k arbitrary: n) auto

lemma hex_digit_props:
  assumes "i < 16"
  shows "index_of hex_digits (hex_digits ! i) = i" "hex_digits ! i \<noteq> CHR ''-''"
    "hex_digits ! i \<noteq> CHR 0x00"
proof -
  have "\<forall>j \<in> set [0..<16]. index_of hex_digits (hex_digits ! j) = j \<and> hex_digits ! j \<noteq> CHR ''-''
      \<and> hex_digits ! j \<noteq> CHR 0x00"
    by code_simp
  with assms show "index_of hex_digits (hex_digits ! i) = i" "hex_digits ! i \<noteq> CHR ''-''"
    "hex_digits ! i \<noteq> CHR 0x00"
    by (simp_all only: set_upt atLeastLessThan_iff Ball_def) auto
qed

lemma hex_decode_encode: "hex_decode (hex_encode k n) = n mod 16 ^ k"
proof (induction k arbitrary: n)
  case 0
  then show ?case by simp
next
  case (Suc k)
  have "n mod 16 + 16 * (n div 16 mod 16 ^ k) = n mod (16 * 16 ^ k)"
    by (metis add.commute mod_mult2_eq)
  then show ?case by (simp add: Suc.IH hex_digit_props)
qed

lemma set_hex_encode: "c \<in> set (hex_encode k n) \<Longrightarrow> c \<noteq> CHR ''-'' \<and> c \<noteq> CHR 0x00"
  by (induction k arbitrary: n) (auto simp: hex_digit_props)

lemma filter_group_digits:
  assumes "\<forall>c \<in> set h. c \<noteq> CHR ''-''"
  shows "filter (\<lambda>c. c \<noteq> CHR ''-'') (group_digits h) = h"
proof -
  have all: "filter (\<lambda>c. c \<noteq> CHR ''-'') xs = xs" if "set xs \<subseteq> set h" for xs
    using that assms by (auto simp: filter_id_conv)
  have sub: "set (take n (drop m h)) \<subseteq> set h" "set (take n h) \<subseteq> set h" "set (drop m h) \<subseteq> set h"
    for n m
    by (meson set_take_subset set_drop_subset subset_trans)+
  have "h = take 8 h @ take 4 (drop 8 h) @ take 4 (drop 12 h) @ take 4 (drop 16 h) @ drop 20 h"
    using append_take_drop_id [of 8 h] append_take_drop_id [of 4 "drop 8 h"]
      append_take_drop_id [of 4 "drop 12 h"] append_take_drop_id [of 4 "drop 16 h"]
    by (simp add: add.commute)
  then show ?thesis
    by (simp add: group_digits_def all [OF sub(1)] all [OF sub(2)] all [OF sub(3)])
qed

lemma sample_parse_unparse: "sample_parse (sample_unparse u) = Some u"
proof -
  let ?h = "rev (hex_encode 32 (unat u))"
  have "filter (\<lambda>c. c \<noteq> CHR ''-'') (group_digits ?h) = ?h"
    by (rule filter_group_digits) (use set_hex_encode in auto)
  moreover have "unat u mod 16 ^ 32 = unat u"
    using unsigned_less [of u] by (intro mod_less) simp
  moreover have "length (group_digits ?h) = 36"
    by (simp add: group_digits_def)
  ultimately show ?thesis
    by (simp add: sample_parse_def sample_unparse_def hex_decode_encode del: filter.simps)
qed

lemma set_group_digits: "set (group_digits h) \<subseteq> insert (CHR ''-'') (set h)"
  by (auto simp: group_digits_def dest: in_set_takeD in_set_dropD)

lemma sample_libuuid_ok: "libuuid_ok (libuuid.extend sample_libuuid z)"
proof -
  have "length (sample_unparse u) = 36" for u
    by (simp add: sample_unparse_def group_digits_def)
  moreover have "CHR 0x00 \<notin> set (sample_unparse u)" for u
    using set_group_digits [of "rev (hex_encode 32 (unat u))"] set_hex_encode
    by (fastforce simp: sample_unparse_def)
  moreover have "sample_parse [] = None"
    by (simp add: sample_parse_def)
  ultimately show ?thesis
    by (auto simp: libuuid_ok_def sample_libuuid_def sample_parse_unparse libuuid.defs)
qed

end
