(* ===== verification/Task_Stage.thy ===== *)
theory Task_Stage
  imports Uuid
begin

text \<open>
  Stages of a task: class \<open>TaskStage\<close> (\<open>lib/task_stage.cxx\<close>), the stand-alone class \<open>BaseTaskStage\<close>
  (\<open>lib/base_task_stage.cxx\<close>) and the shipped subclass \<open>PrintStage\<close>
  (\<open>stages_lib/lib/print_stage.cxx\<close>).

  \<open>TaskStage\<close> is abstract. A stage object carries its dynamic class: \<open>PrintStage\<close>, whose virtual
  methods are in the repository, or a class of the user, whose virtual \<open>clone\<close> is the field
  \<open>user_stage_clone\<close> of the record \<open>env\<close>. That record extends \<open>libuuid\<close> and holds everything the
  program calls and does not define: rapidjson's writer and equality, the virtual \<open>clone\<close> of a
  user's callback plugin, whether the build defines \<open>NDEBUG\<close>, which removes every \<open>assert\<close>, and the
  value an uninitialised flag happens to have.
\<close>

datatype stage_class = PrintStage | UserStage nat

record TaskStage =
  s_class :: stage_class
  s_label :: string
  s_uuid :: uuid_t
  s_running :: bool

text \<open>JSON documents: the value kinds of \<open>rapidjson::Document\<close>; a fresh document is null.\<close>

datatype json =
    JNull
  | JBool bool
  | JNumber int
  | JString string
  | JArray "json list"
  | JObject "(string \<times> json) list"

record env = libuuid +
  user_stage_clone :: "TaskStage \<Rightarrow> TaskStage res"
  user_plugin_clone :: "nat \<Rightarrow> nat"
  json_write :: "json \<Rightarrow> string"
  json_equal :: "json \<Rightarrow> json \<Rightarrow> bool"
  ndebug :: bool
  uninit_flag :: bool \<comment> \<open>what an uninitialised flag reads as\<close>

text \<open>\<open>assert(b)\<close>: aborts a debug build, vanishes from a release build.\<close>

definition cpp_assert :: "('z) env_scheme \<Rightarrow> bool \<Rightarrow> unit res" where
  "cpp_assert E b = (if \<not> ndebug E \<and> \<not> b then Inl AssertFailed else Inr ())"

lemma cpp_assert_True [simp]: "cpp_assert E True = Inr ()"
  by (simp add: cpp_assert_def)

section \<open>TaskStage\<close>

definition TaskStage_label :: "stage_class \<Rightarrow> bool \<Rightarrow> ('z) libuuid_scheme \<Rightarrow> nat \<Rightarrow> string \<Rightarrow> TaskStage" where
  "TaskStage_label c running L n label =
     \<lparr>s_class = c, s_label = label, s_uuid = UUID_default L n, s_running = running\<rparr>"

definition TaskStage_default :: "stage_class \<Rightarrow> bool \<Rightarrow> ('z) libuuid_scheme \<Rightarrow> nat \<Rightarrow> TaskStage" where
  "TaskStage_default c running L n =
     (let t = TaskStage_label c running L n '''' in t\<lparr>s_label := as_string L (s_uuid t)\<rparr>)"

definition TaskStage_label_uuid ::
    "stage_class \<Rightarrow> bool \<Rightarrow> ('z) libuuid_scheme \<Rightarrow> string \<Rightarrow> uuid_t \<Rightarrow> TaskStage res" where
  "TaskStage_label_uuid c running L label uuid =
     rbind (UUID_from_string L (as_string L uuid)) (\<lambda>u.
       Inr \<lparr>s_class = c, s_label = label, s_uuid = u, s_running = running\<rparr>)"

text \<open>
  The two moves take label and identifier over; both first require that the source is not running.
  The flag \<open>is_running\<close> is the value of the virtual call on the source.
\<close>

definition TaskStage_move :: "('z) env_scheme \<Rightarrow> bool \<Rightarrow> TaskStage \<Rightarrow> TaskStage \<Rightarrow> (TaskStage \<times> uuid_t) res" where
  "TaskStage_move E other_is_running this other =
     (let (u, left) = UUID_move (s_uuid other);
          this' = this\<lparr>s_label := s_label other, s_uuid := u\<rparr>
      in rbind (cpp_assert E (\<not> other_is_running)) (\<lambda>_. Inr (this', left)))"

definition TaskStage_move_assign ::
    "('z) env_scheme \<Rightarrow> bool \<Rightarrow> TaskStage \<Rightarrow> TaskStage \<Rightarrow> (TaskStage \<times> uuid_t) res" where
  "TaskStage_move_assign E other_is_running this other =
     rbind (cpp_assert E (\<not> other_is_running)) (\<lambda>_.
       let (u, left) = UUID_move (s_uuid other)
       in Inr (this\<lparr>s_label := s_label other, s_uuid := u\<rparr>, left))"

definition TaskStage_eq :: "('z) libuuid_scheme \<Rightarrow> TaskStage \<Rightarrow> TaskStage \<Rightarrow> bool" where
  "TaskStage_eq L lhs rhs = uuid_eq L (s_uuid lhs) (s_uuid rhs)"

definition TaskStage_print :: "('z) libuuid_scheme \<Rightarrow> TaskStage \<Rightarrow> string" where
  "TaskStage_print L t =
     ''label = '' @ s_label t @
     (if s_label t \<noteq> as_string L (s_uuid t) then '' uuid = '' @ as_string L (s_uuid t) else [])"

section \<open>PrintStage\<close>

text \<open>
  The constructors do not initialise the flag \<open>running_\<close> (an \<open>std::atomic_bool\<close> member, C++17), so
  its value after construction is an argument.
\<close>

definition PrintStage_label :: "bool \<Rightarrow> ('z) libuuid_scheme \<Rightarrow> nat \<Rightarrow> string \<Rightarrow> TaskStage" where
  "PrintStage_label garbage L n label = TaskStage_label PrintStage garbage L n label"

definition PrintStage_default :: "bool \<Rightarrow> ('z) libuuid_scheme \<Rightarrow> nat \<Rightarrow> TaskStage" where
  "PrintStage_default garbage L n =
     (let t = PrintStage_label garbage L n '''' in t\<lparr>s_label := as_string L (s_uuid t)\<rparr>)"

definition PrintStage_label_uuid ::
    "bool \<Rightarrow> ('z) libuuid_scheme \<Rightarrow> string \<Rightarrow> uuid_t \<Rightarrow> TaskStage res" where
  "PrintStage_label_uuid garbage L label uuid = TaskStage_label_uuid PrintStage garbage L label uuid"

definition PrintStage_is_running :: "TaskStage \<Rightarrow> bool" where
  "PrintStage_is_running t = s_running t"

definition PrintStage_move ::
    "('z) env_scheme \<Rightarrow> bool \<Rightarrow> nat \<Rightarrow> TaskStage \<Rightarrow> (TaskStage \<times> uuid_t) res" where
  "PrintStage_move E garbage n other =
     (let this = TaskStage_default PrintStage garbage E n
      in rbind (cpp_assert E (\<not> PrintStage_is_running other)) (\<lambda>_.
           let (u, left) = UUID_move (s_uuid other)
           in Inr (this\<lparr>s_label := s_label other, s_uuid := u\<rparr>, left)))"

definition PrintStage_move_assign ::
    "('z) env_scheme \<Rightarrow> TaskStage \<Rightarrow> TaskStage \<Rightarrow> (TaskStage \<times> uuid_t) res" where
  "PrintStage_move_assign E this other =
     rbind (cpp_assert E (\<not> PrintStage_is_running other)) (\<lambda>_.
       let (u, left) = UUID_move (s_uuid other)
       in Inr (this\<lparr>s_label := s_label other, s_uuid := u\<rparr>, left))"

text \<open>\<open>run\<close> raises the flag, prints and lowers the flag: the result, the printed text, the stage.\<close>

definition PrintStage_run :: "TaskStage \<Rightarrow> bool \<times> string \<times> TaskStage" where
  "PrintStage_run t =
     (let t1 = t\<lparr>s_running := True\<rparr>;
          out = ''Print Stage is running...'' @ [CHR 0x0A];
          t2 = t1\<lparr>s_running := False\<rparr>
      in (True, out, t2))"

definition PrintStage_end :: "TaskStage \<Rightarrow> bool" where
  "PrintStage_end t = True"

definition PrintStage_cleanup :: "TaskStage \<Rightarrow> TaskStage" where
  "PrintStage_cleanup t = t"

definition PrintStage_clone :: "('z) env_scheme \<Rightarrow> TaskStage \<Rightarrow> TaskStage res" where
  "PrintStage_clone E t = PrintStage_label_uuid (uninit_flag E) E (s_label t) (s_uuid t)"

definition PrintStage_eq :: "('z) libuuid_scheme \<Rightarrow> TaskStage \<Rightarrow> TaskStage \<Rightarrow> bool" where
  "PrintStage_eq L lhs rhs = uuid_eq L (s_uuid lhs) (s_uuid rhs)"

definition PrintStage_print :: "('z) libuuid_scheme \<Rightarrow> TaskStage \<Rightarrow> string" where
  "PrintStage_print L t =
     ''label = '' @ s_label t @
     (if s_label t \<noteq> as_string L (s_uuid t) then '' uuid = '' @ as_string L (s_uuid t) else [])"

definition PrintStage_make_stage :: "bool \<Rightarrow> ('z) libuuid_scheme \<Rightarrow> nat \<Rightarrow> string \<Rightarrow> TaskStage" where
  "PrintStage_make_stage garbage L n name = PrintStage_label garbage L n name"

section \<open>BaseTaskStage\<close>

record BaseTaskStage =
  b_label :: string
  b_uuid :: uuid_t

definition BaseTaskStage_label :: "('z) libuuid_scheme \<Rightarrow> nat \<Rightarrow> string \<Rightarrow> BaseTaskStage" where
  "BaseTaskStage_label L n label = \<lparr>b_label = label, b_uuid = UUID_default L n\<rparr>"

definition BaseTaskStage_default :: "('z) libuuid_scheme \<Rightarrow> nat \<Rightarrow> BaseTaskStage" where
  "BaseTaskStage_default L n =
     (let t = BaseTaskStage_label L n '''' in t\<lparr>b_label := as_string L (b_uuid t)\<rparr>)"

definition BaseTaskStage_run :: "BaseTaskStage \<Rightarrow> bool" where
  "BaseTaskStage_run t = True"

definition BaseTaskStage_is_running :: "BaseTaskStage \<Rightarrow> bool" where
  "BaseTaskStage_is_running t = False"

definition BaseTaskStage_end :: "BaseTaskStage \<Rightarrow> bool" where
  "BaseTaskStage_end t = False"

definition BaseTaskStage_cleanup :: "BaseTaskStage \<Rightarrow> BaseTaskStage" where
  "BaseTaskStage_cleanup t = t"

definition BaseTaskStage_move :: "('z) env_scheme \<Rightarrow> BaseTaskStage \<Rightarrow> (BaseTaskStage \<times> uuid_t) res" where
  "BaseTaskStage_move E other =
     (let (u, left) = UUID_move (b_uuid other);
          this' = \<lparr>b_label = b_label other, b_uuid = u\<rparr>
      in rbind (cpp_assert E (\<not> BaseTaskStage_is_running other)) (\<lambda>_. Inr (this', left)))"

definition BaseTaskStage_move_assign ::
    "('z) env_scheme \<Rightarrow> BaseTaskStage \<Rightarrow> BaseTaskStage \<Rightarrow> (BaseTaskStage \<times> uuid_t) res" where
  "BaseTaskStage_move_assign E this other =
     rbind (cpp_assert E (\<not> BaseTaskStage_is_running other)) (\<lambda>_.
       let (u, left) = UUID_move (b_uuid other)
       in Inr (this\<lparr>b_label := b_label other, b_uuid := u\<rparr>, left))"

definition BaseTaskStage_eq :: "('z) libuuid_scheme \<Rightarrow> BaseTaskStage \<Rightarrow> BaseTaskStage \<Rightarrow> bool" where
  "BaseTaskStage_eq L lhs rhs = uuid_eq L (b_uuid lhs) (b_uuid rhs)"

definition BaseTaskStage_print :: "('z) libuuid_scheme \<Rightarrow> BaseTaskStage \<Rightarrow> string" where
  "BaseTaskStage_print L t =
     ''label = '' @ b_label t @
     (if b_label t \<noteq> as_string L (b_uuid t) then '' uuid = '' @ as_string L (b_uuid t) else [])"

section \<open>Cloning through the virtual call\<close>

definition stage_clone :: "('z) env_scheme \<Rightarrow> TaskStage \<Rightarrow> TaskStage res" where
  "stage_clone E t = (case s_class t of PrintStage \<Rightarrow> PrintStage_clone E t | UserStage _ \<Rightarrow> user_stage_clone E t)"

text \<open>
  A stage can be cloned unless it is a moved-from \<open>PrintStage\<close>. What the program needs of the
  external code is \<open>env_ok\<close>: libuuid is correct, and the \<open>clone\<close> of a user's stage returns a stage
  that can be cloned again.
\<close>

definition stage_ok :: "TaskStage \<Rightarrow> bool" where
  "stage_ok t \<longleftrightarrow> (s_class t = PrintStage \<longrightarrow> s_uuid t \<noteq> 0)"

definition env_ok :: "('z) env_scheme \<Rightarrow> bool" where
  "env_ok E \<longleftrightarrow> libuuid_ok E \<and> (\<forall>t. \<exists>t'. user_stage_clone E t = Inr t' \<and> stage_ok t')"

lemma env_ok_libuuid [dest]: "env_ok E \<Longrightarrow> libuuid_ok E"
  by (simp add: env_ok_def)

lemma PrintStage_clone_ok:
  assumes "libuuid_ok E" "s_uuid t \<noteq> 0" "s_class t = PrintStage"
  shows "PrintStage_clone E t = Inr (t\<lparr>s_running := uninit_flag E\<rparr>)"
  using assms
  by (simp add: PrintStage_clone_def PrintStage_label_uuid_def TaskStage_label_uuid_def
      UUID_from_string_as_string)

lemma stage_clone_ok:
  assumes "env_ok E" "stage_ok t"
  shows "\<exists>t'. stage_clone E t = Inr t' \<and> stage_ok t'"
proof (cases "s_class t")
  case PrintStage
  with assms have "stage_clone E t = Inr (t\<lparr>s_running := uninit_flag E\<rparr>)"
    by (auto simp: stage_clone_def stage_ok_def PrintStage_clone_ok)
  with assms(2) show ?thesis by (simp add: stage_ok_def)
next
  case (UserStage k)
  with assms(1) show ?thesis by (auto simp: stage_clone_def env_ok_def)
qed

section \<open>An instance of the external code\<close>

definition sample_env :: "bool \<Rightarrow> env" where
  "sample_env nd = libuuid.extend sample_libuuid
     (env.fields (\<lambda>t. Inr (t\<lparr>s_class := UserStage 0\<rparr>)) id (\<lambda>_. ''null'') (=) nd False)"

lemma sample_env_ok: "env_ok (sample_env nd)"
proof -
  have "libuuid_ok (sample_env nd)"
    unfolding sample_env_def by (rule sample_libuuid_ok)
  then show ?thesis
    by (auto simp: env_ok_def sample_env_def stage_ok_def env.defs libuuid.defs sample_libuuid_def)
qed

lemma ndebug_sample_env [simp]: "ndebug (sample_env nd) = nd"
  by (simp add: sample_env_def env.defs libuuid.defs)

end
