(* ===== verification/Tasks.thy ===== *)
theory Tasks
  imports Task_Stage
begin

text \<open>
  Class \<open>Task\<close> (\<open>lib/task.cxx\<close>) and \<open>TaskCallbackPlugin\<close> (\<open>lib/task_callback_plugin.cxx\<close>). A task
  owns its stages, two optional completion callbacks, an identifier and two optional JSON documents.
  A \<open>std::function\<close> callback is known by a number only; calling it is an event. The stages' virtual
  methods act on a world of any type \<open>'w\<close>, which also holds the atomic flag \<open>kill_\<close> as another
  thread may have left it.
\<close>

datatype plugin = BasePlugin | UserPlugin nat

record Task =
  t_iterating :: bool
  t_kill :: bool
  t_stages :: "TaskStage list"
  t_label :: string
  t_callback :: "nat option"
  t_plugin :: "plugin option"
  t_uuid :: uuid_t
  t_json_config :: "json option"
  t_json_inputs :: "json option"

section \<open>Construction\<close>

definition set_json_config :: "json \<Rightarrow> Task \<Rightarrow> Task" where
  "set_json_config j t =
     (let t1 = (case t_json_config t of Some _ \<Rightarrow> t\<lparr>t_json_config := None\<rparr> | None \<Rightarrow> t)
      in t1\<lparr>t_json_config := Some j\<rparr>)"

definition set_json_initial_inputs :: "json \<Rightarrow> Task \<Rightarrow> Task" where
  "set_json_initial_inputs j t =
     (let t1 = (case t_json_inputs t of Some _ \<Rightarrow> t\<lparr>t_json_inputs := None\<rparr> | None \<Rightarrow> t)
      in t1\<lparr>t_json_inputs := Some j\<rparr>)"

text \<open>The members before a constructor's body runs: both flags down, a fresh identifier.\<close>

definition task_members ::
    "('z) libuuid_scheme \<Rightarrow> nat \<Rightarrow> TaskStage list \<Rightarrow> string \<Rightarrow> nat option \<Rightarrow> plugin option \<Rightarrow> Task" where
  "task_members L n stages label cb pl =
     \<lparr>t_iterating = False, t_kill = False, t_stages = stages, t_label = label, t_callback = cb,
      t_plugin = pl, t_uuid = UUID_default L n, t_json_config = None, t_json_inputs = None\<rparr>"

definition Task_default :: "('z) libuuid_scheme \<Rightarrow> nat \<Rightarrow> Task" where
  "Task_default L n =
     (let t = task_members L n [] '''' None None;
          t = t\<lparr>t_label := as_string L (t_uuid t)\<rparr>
      in set_json_initial_inputs JNull (set_json_config JNull t))"

definition Task_label :: "('z) libuuid_scheme \<Rightarrow> nat \<Rightarrow> TaskStage list \<Rightarrow> string \<Rightarrow> Task" where
  "Task_label L n stages label =
     set_json_initial_inputs JNull (set_json_config JNull (task_members L n stages label None None))"

definition Task_stages :: "('z) libuuid_scheme \<Rightarrow> nat \<Rightarrow> TaskStage list \<Rightarrow> Task" where
  "Task_stages L n stages =
     (let t = Task_label L n stages '''';
          t = t\<lparr>t_label := as_string L (t_uuid t)\<rparr>
      in set_json_initial_inputs JNull (set_json_config JNull t))"

definition Task_inputs :: "('z) libuuid_scheme \<Rightarrow> nat \<Rightarrow> TaskStage list \<Rightarrow> json \<Rightarrow> Task" where
  "Task_inputs L n stages inputs =
     (let t = Task_label L n stages '''';
          t = t\<lparr>t_label := as_string L (t_uuid t)\<rparr>
      in set_json_initial_inputs inputs (set_json_config JNull t))"

definition Task_label_inputs :: "('z) libuuid_scheme \<Rightarrow> nat \<Rightarrow> TaskStage list \<Rightarrow> string \<Rightarrow> json \<Rightarrow> Task" where
  "Task_label_inputs L n stages label inputs =
     set_json_initial_inputs inputs (set_json_config JNull (task_members L n stages label None None))"

definition Task_callback :: "('z) libuuid_scheme \<Rightarrow> nat \<Rightarrow> TaskStage list \<Rightarrow> string \<Rightarrow> nat option \<Rightarrow> Task" where
  "Task_callback L n stages label cb =
     set_json_initial_inputs JNull (set_json_config JNull (task_members L n stages label cb None))"

definition Task_callback_inputs ::
    "('z) libuuid_scheme \<Rightarrow> nat \<Rightarrow> TaskStage list \<Rightarrow> string \<Rightarrow> nat option \<Rightarrow> json \<Rightarrow> Task" where
  "Task_callback_inputs L n stages label cb inputs =
     set_json_initial_inputs inputs (set_json_config JNull (task_members L n stages label cb None))"

definition Task_plugin :: "('z) libuuid_scheme \<Rightarrow> nat \<Rightarrow> TaskStage list \<Rightarrow> string \<Rightarrow> plugin option \<Rightarrow> Task" where
  "Task_plugin L n stages label pl =
     set_json_initial_inputs JNull (set_json_config JNull (task_members L n stages label None pl))"

definition Task_plugin_inputs ::
    "('z) libuuid_scheme \<Rightarrow> nat \<Rightarrow> TaskStage list \<Rightarrow> string \<Rightarrow> plugin option \<Rightarrow> json \<Rightarrow> Task" where
  "Task_plugin_inputs L n stages label pl inputs =
     set_json_initial_inputs inputs (set_json_config JNull (task_members L n stages label None pl))"

definition Task_config :: "('z) libuuid_scheme \<Rightarrow> nat \<Rightarrow> TaskStage list \<Rightarrow> json \<Rightarrow> json \<Rightarrow> Task" where
  "Task_config L n stages config inputs =
     set_json_initial_inputs inputs (set_json_config config (task_members L n stages '''' None None))"

definition Task_label_config ::
    "('z) libuuid_scheme \<Rightarrow> nat \<Rightarrow> TaskStage list \<Rightarrow> string \<Rightarrow> json \<Rightarrow> json \<Rightarrow> Task" where
  "Task_label_config L n stages label config inputs =
     set_json_initial_inputs inputs (set_json_config config (task_members L n stages label None None))"

definition Task_callback_config ::
    "('z) libuuid_scheme \<Rightarrow> nat \<Rightarrow> TaskStage list \<Rightarrow> string \<Rightarrow> nat option \<Rightarrow> json \<Rightarrow> json \<Rightarrow> Task" where
  "Task_callback_config L n stages label cb config inputs =
     set_json_initial_inputs inputs (set_json_config config (task_members L n stages label cb None))"

definition Task_plugin_config ::
    "('z) libuuid_scheme \<Rightarrow> nat \<Rightarrow> TaskStage list \<Rightarrow> string \<Rightarrow> plugin option \<Rightarrow> json \<Rightarrow> json \<Rightarrow> Task" where
  "Task_plugin_config L n stages label pl config inputs =
     set_json_initial_inputs inputs (set_json_config config (task_members L n stages label None pl))"

definition update_uuid :: "('z) libuuid_scheme \<Rightarrow> uuid_t \<Rightarrow> Task \<Rightarrow> Task res" where
  "update_uuid L uuid t = rbind (UUID_from_string L (as_string L uuid)) (\<lambda>u. Inr (t\<lparr>t_uuid := u\<rparr>))"

lemma set_json_simps [simp]:
  "set_json_config j t = t\<lparr>t_json_config := Some j\<rparr>"
  "set_json_initial_inputs j t = t\<lparr>t_json_inputs := Some j\<rparr>"
  by (simp_all add: set_json_config_def set_json_initial_inputs_def split: option.splits)

section \<open>Moving, cloning, comparing, printing\<close>

definition Task_move :: "('z) env_scheme \<Rightarrow> Task \<Rightarrow> Task res" where
  "Task_move E other =
     (let this = \<lparr>t_iterating = False, t_kill = False, t_stages = t_stages other,
                  t_label = t_label other, t_callback = None, t_plugin = None,
                  t_uuid = UUID_clone (t_uuid other), t_json_config = t_json_config other,
                  t_json_inputs = t_json_inputs other\<rparr>
      in rbind (cpp_assert E (\<not> t_iterating other)) (\<lambda>_. Inr this))"

definition Task_move_assign :: "('z) env_scheme \<Rightarrow> Task \<Rightarrow> Task \<Rightarrow> Task res" where
  "Task_move_assign E this other =
     rbind (cpp_assert E (\<not> t_iterating other)) (\<lambda>_.
       Inr (this\<lparr>t_iterating := False, t_kill := False, t_stages := t_stages other,
                 t_label := t_label other, t_uuid := UUID_clone (t_uuid other),
                 t_json_config := t_json_config other, t_json_inputs := t_json_inputs other\<rparr>))"

definition plugin_clone :: "('z) env_scheme \<Rightarrow> plugin \<Rightarrow> plugin" where
  "plugin_clone E p = (case p of BasePlugin \<Rightarrow> BasePlugin | UserPlugin k \<Rightarrow> UserPlugin (user_plugin_clone E k))"

definition copy_document :: "json option \<Rightarrow> json" where
  "copy_document d = (case d of None \<Rightarrow> JNull | Some j \<Rightarrow> j)"

definition Task_clone :: "('z) env_scheme \<Rightarrow> Task \<Rightarrow> Task res" where
  "Task_clone E t =
     rbind (rmap (stage_clone E) (t_stages t)) (\<lambda>cloned_stages.
       let json_config = copy_document (t_json_config t);
           json_initial_inputs = copy_document (t_json_inputs t);
           task_ptr = (case t_plugin t of
               Some p \<Rightarrow> Task_plugin_config E 0 cloned_stages (t_label t) (Some (plugin_clone E p))
                 json_config json_initial_inputs
             | None \<Rightarrow> Task_callback_config E 0 cloned_stages (t_label t) (t_callback t)
                 json_config json_initial_inputs)
       in update_uuid E (t_uuid t) task_ptr)"

definition Task_eq :: "('z) libuuid_scheme \<Rightarrow> Task \<Rightarrow> Task \<Rightarrow> bool" where
  "Task_eq L lhs rhs = uuid_eq L (t_uuid lhs) (t_uuid rhs)"

text \<open>\<open>json_config\<close> dereferences the pointer to the document.\<close>

definition Task_json_config :: "Task \<Rightarrow> json res" where
  "Task_json_config t = (case t_json_config t of None \<Rightarrow> Inl NullDeref | Some j \<Rightarrow> Inr j)"

text \<open>
  \<open>json_config_str\<close> writes into a string argument, which it leaves alone when there is no document.
\<close>

definition document_str :: "('z) env_scheme \<Rightarrow> json option \<Rightarrow> string \<Rightarrow> string" where
  "document_str E d out_str =
     (case d of None \<Rightarrow> out_str
      | Some j \<Rightarrow> (let s = c_str (json_write E j) in if s = ''null'' then ''{}'' else s))"

definition Task_json_config_str :: "('z) env_scheme \<Rightarrow> Task \<Rightarrow> string \<Rightarrow> string" where
  "Task_json_config_str E t out_str = document_str E (t_json_config t) out_str"

definition Task_json_initial_inputs_str :: "('z) env_scheme \<Rightarrow> Task \<Rightarrow> string \<Rightarrow> string" where
  "Task_json_initial_inputs_str E t out_str = document_str E (t_json_inputs t) out_str"

definition Task_print :: "('z) env_scheme \<Rightarrow> Task \<Rightarrow> string" where
  "Task_print E t =
     ''label = '' @ t_label t @
     (if t_label t \<noteq> as_string E (t_uuid t) then '' uuid = '' @ as_string E (t_uuid t) else []) @
     concat (map (\<lambda>s. TaskStage_print E s @ '' '') (t_stages t)) @
     ''configuration = '' @ Task_json_config_str E t [] @
     ''initial_json_inputs = '' @ Task_json_config_str E t []"

text \<open>The overload for \<open>std::stringstream\<close>, which the log messages use.\<close>

definition Task_print_ss :: "('z) env_scheme \<Rightarrow> Task \<Rightarrow> string" where
  "Task_print_ss E t =
     ''label = '' @ t_label t @
     (if t_label t \<noteq> as_string E (t_uuid t) then '' uuid = '' @ as_string E (t_uuid t) else []) @
     concat (map (\<lambda>s. TaskStage_print E s @ '' '') (t_stages t)) @
     ''configuration:'' @ Task_json_config_str E t [] @
     ''initial_json_inputs = '' @ Task_json_config_str E t []"

section \<open>Running the stages, killing, completing\<close>

record 'w stage_vt =
  vt_cleanup :: "TaskStage \<Rightarrow> 'w \<Rightarrow> TaskStage \<times> 'w"
  vt_end :: "TaskStage \<Rightarrow> 'w \<Rightarrow> bool \<times> TaskStage \<times> 'w"
  vt_kill_load :: "'w \<Rightarrow> bool"

type_synonym 'w next_stage = "TaskStage \<Rightarrow> 'w \<Rightarrow> bool \<times> TaskStage \<times> 'w"

text \<open>
  The lambda handed to \<open>std::all_of\<close>: run, clean up, and go on only if the stage ran, its \<open>end\<close> said
  so (called only if it ran) and the task was not killed (asked only if both hold).
\<close>

definition stage_body :: "'w next_stage \<Rightarrow> 'w stage_vt \<Rightarrow> 'w next_stage" where
  "stage_body next_stage vt st w =
     (let (ran, st1, w1) = next_stage st w;
          (st2, w2) = vt_cleanup vt st1 w1
      in if ran
         then (let (ended, st3, w3) = vt_end vt st2 w2
               in (ended \<and> \<not> vt_kill_load vt w3, st3, w3))
         else (False, st2, w2))"

fun all_of_stages ::
    "'w next_stage \<Rightarrow> 'w stage_vt \<Rightarrow> TaskStage list \<Rightarrow> 'w \<Rightarrow> bool \<times> TaskStage list \<times> 'w" where
  "all_of_stages next_stage vt [] w = (True, [], w)"
| "all_of_stages next_stage vt (st # sts) w =
     (let (ret, st1, w1) = stage_body next_stage vt st w
      in if ret then (let (ok, sts1, w2) = all_of_stages next_stage vt sts w1 in (ok, st1 # sts1, w2))
         else (False, st1 # sts, w1))"

definition iterate_stages :: "'w next_stage \<Rightarrow> 'w stage_vt \<Rightarrow> Task \<Rightarrow> 'w \<Rightarrow> bool \<times> Task \<times> 'w" where
  "iterate_stages next_stage vt t w =
     (if \<not> t_iterating t
      then (let t1 = t\<lparr>t_iterating := True\<rparr>;
                (ran_all, sts, w1) = all_of_stages next_stage vt (t_stages t1) w
            in (ran_all, t1\<lparr>t_stages := sts, t_iterating := False\<rparr>, w1))
      else (False, t, w))"

definition Task_kill :: "Task \<Rightarrow> bool \<times> Task" where
  "Task_kill t = (let t1 = t\<lparr>t_kill := True\<rparr> in (t_kill t1, t1))"

definition callback_is_set :: "Task \<Rightarrow> bool" where
  "callback_is_set t \<longleftrightarrow> t_callback t \<noteq> None"

definition callback_plugin_is_set :: "Task \<Rightarrow> bool" where
  "callback_plugin_is_set t \<longleftrightarrow> t_plugin t \<noteq> None"

datatype completion = CallbackCalled nat bool | PluginCompleted plugin bool

definition Task_complete :: "bool \<Rightarrow> Task \<Rightarrow> completion list" where
  "Task_complete status t =
     (if callback_is_set t then [CallbackCalled (the (t_callback t)) status] else []) @
     (if callback_plugin_is_set t then [PluginCompleted (the (t_plugin t)) status] else [])"

section \<open>Lemmas\<close>

definition task_ok :: "Task \<Rightarrow> bool" where
  "task_ok t \<longleftrightarrow> t_uuid t \<noteq> 0 \<and> list_all stage_ok (t_stages t)"

lemmas task_ctor_defs =
  Task_default_def Task_label_def Task_stages_def Task_inputs_def Task_label_inputs_def
  Task_callback_def Task_callback_inputs_def Task_plugin_def Task_plugin_inputs_def Task_config_def
  Task_label_config_def Task_callback_config_def Task_plugin_config_def task_members_def

text \<open>
  What a clone shares with its original. A \<open>PrintStage\<close> keeps everything but its flag; of a stage of a user's
  class, whose virtual \<open>clone\<close> is documented to return ``a cloned stage'' and nothing more, the relation says only
  that it has one in its place (\<open>cloned_stage\<close> below pins it to what that class returns). A task keeps identifier, label, both documents and whatever it
  does on completion (a task has a callback or a plugin, not both).
\<close>

definition same_stage :: "TaskStage \<Rightarrow> TaskStage \<Rightarrow> bool" where
  "same_stage x y \<longleftrightarrow> (s_class x = PrintStage \<longrightarrow> y = x\<lparr>s_running := s_running y\<rparr>)"

definition same_task :: "Task \<Rightarrow> Task \<Rightarrow> bool" where
  "same_task t t' \<longleftrightarrow> t_uuid t' = t_uuid t \<and> t_label t' = t_label t \<and> list_all2 same_stage (t_stages t) (t_stages t') \<and>
     copy_document (t_json_config t') = copy_document (t_json_config t) \<and>
     copy_document (t_json_inputs t') = copy_document (t_json_inputs t) \<and>
     (case t_plugin t of
        None \<Rightarrow> t_plugin t' = None \<and> t_callback t' = t_callback t
      | Some BasePlugin \<Rightarrow> t_plugin t' = Some BasePlugin
      | Some (UserPlugin _) \<Rightarrow> \<exists>k. t_plugin t' = Some (UserPlugin k))"

lemma same_stage_refl [simp]: "same_stage x x"
  by (simp add: same_stage_def)

lemma same_stageD:
  assumes "same_stage x y" "s_class x = PrintStage"
  shows "s_class y = PrintStage" "s_label y = s_label x" "s_uuid y = s_uuid x"
  using assms by (cases x; cases y; simp add: same_stage_def)+

lemma same_stage_trans: "same_stage x y \<Longrightarrow> same_stage y z \<Longrightarrow> same_stage x z"
  unfolding same_stage_def by (cases x; cases y; cases z) auto

lemma same_task_refl [simp]: "same_task t t"
  by (simp add: same_task_def list_all2_refl split: option.split plugin.split)

lemma same_stages_trans:
  "list_all2 same_stage xs ys \<Longrightarrow> list_all2 same_stage ys zs \<Longrightarrow> list_all2 same_stage xs zs"
  using same_stage_trans by (rule list_all2_trans)

lemma same_task_trans: "same_task t u \<Longrightarrow> same_task u v \<Longrightarrow> same_task t v"
  unfolding same_task_def
  by (auto dest: same_stages_trans split: option.splits plugin.splits)

lemma stage_clone_same:
  assumes "env_ok E" "stage_ok x"
  shows "\<exists>y. stage_clone E x = Inr y \<and> same_stage x y \<and> stage_ok y"
proof (cases "s_class x")
  case PrintStage
  with assms have "stage_clone E x = Inr (x\<lparr>s_running := uninit_flag E\<rparr>)"
    by (auto simp: stage_clone_def stage_ok_def PrintStage_clone_ok)
  with assms(2) show ?thesis by (simp add: stage_ok_def same_stage_def)
qed (use stage_clone_ok [OF assms] in \<open>simp add: same_stage_def\<close>)

lemma rmap_stage_clone_ok:
  assumes "env_ok E" "list_all stage_ok sts"
  shows "\<exists>sts'. rmap (stage_clone E) sts = Inr sts' \<and> list_all2 same_stage sts sts' \<and> list_all stage_ok sts'"
proof -
  have "\<exists>sts'. rmap (stage_clone E) sts = Inr sts' \<and> list_all2 (\<lambda>x y. same_stage x y \<and> stage_ok y) sts sts'"
    using assms(2) stage_clone_same [OF assms(1)] by (intro rmap_list_all2) (auto simp: list_all_iff)
  moreover have "list_all2 (\<lambda>x y. same_stage x y \<and> stage_ok y) sts sts' \<Longrightarrow> list_all2 same_stage sts sts' \<and> list_all stage_ok sts'" for sts'
    by (induction rule: list_all2_induct) simp_all
  ultimately show ?thesis by blast
qed

text \<open>Exactly what cloning a stage gives, and cloning a task.\<close>

definition cloned_stage :: "('z) env_scheme \<Rightarrow> TaskStage \<Rightarrow> TaskStage \<Rightarrow> bool" where
  "cloned_stage E x y \<longleftrightarrow> (case s_class x of
     PrintStage \<Rightarrow> y = x\<lparr>s_running := uninit_flag E\<rparr> | UserStage _ \<Rightarrow> user_stage_clone E x = Inr y)"

lemma stage_clone_cloned:
  assumes "env_ok E" "stage_ok x"
  shows "\<exists>y. stage_clone E x = Inr y \<and> cloned_stage E x y \<and> stage_ok y"
proof (cases "s_class x")
  case PrintStage
  with assms have "stage_clone E x = Inr (x\<lparr>s_running := uninit_flag E\<rparr>)"
    by (auto simp: stage_clone_def stage_ok_def PrintStage_clone_ok)
  with assms(2) PrintStage show ?thesis by (simp add: stage_ok_def cloned_stage_def)
next
  case (UserStage k)
  with stage_clone_ok [OF assms] show ?thesis by (auto simp: cloned_stage_def stage_clone_def)
qed

lemma Task_clone_exact:
  assumes "env_ok E" "task_ok t"
  shows "\<exists>t'. Task_clone E t = Inr t' \<and> task_ok t' \<and> t_uuid t' = t_uuid t \<and> t_label t' = t_label t \<and>
    list_all2 (cloned_stage E) (t_stages t) (t_stages t') \<and>
    t_plugin t' = map_option (plugin_clone E) (t_plugin t) \<and>
    t_callback t' = (if t_plugin t = None then t_callback t else None) \<and>
    t_json_config t' = Some (copy_document (t_json_config t)) \<and>
    t_json_inputs t' = Some (copy_document (t_json_inputs t)) \<and> \<not> t_iterating t' \<and> \<not> t_kill t'"
proof -
  have "\<exists>sts. rmap (stage_clone E) (t_stages t) = Inr sts \<and> list_all2 (\<lambda>x y. cloned_stage E x y \<and> stage_ok y) (t_stages t) sts"
    using assms stage_clone_cloned by (intro rmap_list_all2) (auto simp: task_ok_def list_all_iff)
  then obtain sts where sts: "rmap (stage_clone E) (t_stages t) = Inr sts"
    and all: "list_all2 (\<lambda>x y. cloned_stage E x y \<and> stage_ok y) (t_stages t) sts" by blast
  have split: "list_all2 (\<lambda>x y. cloned_stage E x y \<and> stage_ok y) xs ys \<Longrightarrow> list_all2 (cloned_stage E) xs ys \<and> list_all stage_ok ys" for xs ys
    by (induction rule: list_all2_induct) simp_all
  from assms have "UUID_from_string E (as_string E (t_uuid t)) = Inr (t_uuid t)"
    by (auto simp: task_ok_def UUID_from_string_as_string)
  with sts split [OF all] assms(2) show ?thesis
    by (cases "t_plugin t")
      (simp_all add: Task_clone_def update_uuid_def task_ctor_defs task_ok_def set_json_config_def set_json_initial_inputs_def)
qed

lemma Task_clone_ok:
  assumes "env_ok E" "task_ok t"
  obtains t' where "Task_clone E t = Inr t'" "task_ok t'" "t_uuid t' = t_uuid t"
    "t_label t' = t_label t" "\<not> t_iterating t'" "\<not> t_kill t'"
    "same_task t t'"
    "t_json_config t' = Some (copy_document (t_json_config t))"
    "t_json_inputs t' = Some (copy_document (t_json_inputs t))"
proof -
  from assms obtain sts where sts: "rmap (stage_clone E) (t_stages t) = Inr sts"
    "list_all2 same_stage (t_stages t) sts" "list_all stage_ok sts"
    using rmap_stage_clone_ok by (auto simp: task_ok_def)
  from assms have "UUID_from_string E (as_string E (t_uuid t)) = Inr (t_uuid t)"
    by (auto simp: task_ok_def UUID_from_string_as_string)
  with sts assms(2) that show ?thesis
    by (cases "t_plugin t")
      (auto simp: Task_clone_def update_uuid_def task_ctor_defs task_ok_def same_task_def copy_document_def plugin_clone_def
        set_json_config_def set_json_initial_inputs_def split: plugin.split option.split)
qed

lemma Task_clone_null_uuid:
  assumes "env_ok E" "t_uuid t = 0" "list_all stage_ok (t_stages t)"
  shows "\<exists>msg. Task_clone E t = Inl (ThrowRuntimeError msg)"
  using rmap_stage_clone_ok [OF assms(1,3)] assms(1,2) UUID_from_string_null [of E]
  by (auto simp: Task_clone_def update_uuid_def)

text \<open>
  A world that only records what happens to stages whose behaviour is fixed: \<open>r\<close> says which stages
  run, \<open>e\<close> which ones end well, \<open>k\<close> when the kill flag is up.
\<close>

datatype stage_event = StageRan TaskStage | StageCleaned TaskStage | StageEnded TaskStage

definition log_next :: "(TaskStage \<Rightarrow> bool) \<Rightarrow> stage_event list next_stage" where
  "log_next r st w = (r st, st, w @ [StageRan st])"

definition log_vt :: "(TaskStage \<Rightarrow> bool) \<Rightarrow> (stage_event list \<Rightarrow> bool) \<Rightarrow> stage_event list stage_vt" where
  "log_vt e k = \<lparr>vt_cleanup = (\<lambda>st w. (st, w @ [StageCleaned st])),
     vt_end = (\<lambda>st w. (e st, st, w @ [StageEnded st])), vt_kill_load = k\<rparr>"

definition stage_events :: "(TaskStage \<Rightarrow> bool) \<Rightarrow> TaskStage \<Rightarrow> stage_event list" where
  "stage_events r st = [StageRan st, StageCleaned st] @ (if r st then [StageEnded st] else [])"

lemma stage_body_log:
  "stage_body (log_next r) (log_vt e k) st w =
     (r st \<and> e st \<and> \<not> k (w @ stage_events r st), st, w @ stage_events r st)"
  by (simp add: stage_body_def log_next_def log_vt_def stage_events_def)

lemma all_of_stages_log:
  "all_of_stages (log_next r) (log_vt e (\<lambda>_. False)) sts w =
     (list_all (\<lambda>st. r st \<and> e st) sts, sts,
      w @ concat (map (stage_events r)
            (takeWhile (\<lambda>st. r st \<and> e st) sts @
             (case dropWhile (\<lambda>st. r st \<and> e st) sts of [] \<Rightarrow> [] | st # _ \<Rightarrow> [st]))))"
  by (induction sts arbitrary: w) (auto simp: stage_body_log)

lemma all_of_stages_killed:
  "all_of_stages (log_next r) (log_vt e (\<lambda>_. True)) (st # sts) w =
     (False, st # sts, w @ stage_events r st)"
  by (simp add: stage_body_log)

end
