(* ===== verification/Dag_Vertex.thy ===== *)
theory Dag_Vertex
  imports Tasks
begin

text \<open>
  Classes \<open>DAGEdge\<close> (\<open>lib/dag_edge.cxx\<close>) and \<open>DAGVertex\<close> (\<open>lib/dag_vertex.cxx\<close>), and the store they live
  in. Vertices of a graph are owned by \<open>std::shared_ptr\<close>s and pointed to by the \<open>std::weak_ptr\<close> of
  each edge, and the operations mutate them through these pointers, so the model has an explicit
  store: a map from addresses to cells, a cell being a vertex and its number of owners. Addresses
  are never reused. A weak pointer is an optional address; it is expired when it is empty or when
  its address is not in the store any more. Temporary owners (\<open>lock()\<close>, by-value parameters) come and
  go within one operation and are not counted.

  The store also counts the identifiers drawn from \<open>uuid_generate\<close>. A draw that the program
  overwrites before anything can read it (the default member initialiser of an object that is being
  moved into) is not counted.
\<close>

type_synonym addr = nat

datatype edge_status = edge_initialized | edge_traversed | edge_non_traverable

datatype vertex_status = INITIALIZED | SCHEDULED | RUNNING | PASSED | FAILED | INVALID

record DAGEdge =
  e_uuid :: uuid_t
  e_status :: edge_status
  e_connection :: "addr option"

record DAGVertex =
  v_uuid :: uuid_t
  v_status :: vertex_status
  v_label :: string
  v_edges :: "DAGEdge list"
  v_in :: size_t
  v_task :: "Task option"

record cell =
  use_count :: nat
  obj :: DAGVertex

record store =
  cells :: "addr \<Rightarrow> cell option"
  brk :: addr
  draws :: nat

section \<open>The store\<close>

definition vert :: "store \<Rightarrow> addr \<Rightarrow> DAGVertex option" where
  "vert s a = map_option obj (cells s a)"

definition expired :: "store \<Rightarrow> addr option \<Rightarrow> bool" where
  "expired s w = (case w of None \<Rightarrow> True | Some a \<Rightarrow> cells s a = None)"

definition lock :: "store \<Rightarrow> addr option \<Rightarrow> addr option" where
  "lock s w = (if expired s w then None else w)"

definition upd_vertex :: "addr \<Rightarrow> (DAGVertex \<Rightarrow> DAGVertex) \<Rightarrow> store \<Rightarrow> store" where
  "upd_vertex a f s = s\<lparr>cells := (cells s)(a := map_option (\<lambda>c. c\<lparr>obj := f (obj c)\<rparr>) (cells s a))\<rparr>"

definition make_shared :: "DAGVertex \<Rightarrow> store \<Rightarrow> addr \<times> store" where
  "make_shared v s = (brk s, s\<lparr>cells := (cells s)(brk s \<mapsto> \<lparr>use_count = 1, obj = v\<rparr>), brk := Suc (brk s)\<rparr>)"

definition retain :: "addr \<Rightarrow> store \<Rightarrow> store" where
  "retain a s = s\<lparr>cells := (cells s)(a := map_option (\<lambda>c. c\<lparr>use_count := Suc (use_count c)\<rparr>) (cells s a))\<rparr>"

text \<open>
  Dropping an owner. The last one destroys the vertex; \<open>~DAGVertex\<close> clears its edges, and \<open>~DAGEdge\<close>
  only resets its pointer, so no counter of another vertex changes.
\<close>

definition release :: "addr \<Rightarrow> store \<Rightarrow> store" where
  "release a s = s\<lparr>cells := (cells s)(a :=
     (case cells s a of None \<Rightarrow> None
      | Some c \<Rightarrow> if use_count c \<le> 1 then None else Some (c\<lparr>use_count := use_count c - 1\<rparr>)))\<rparr>"

text \<open>
  Leaving a scope, normally or by an exception, destroys every vertex allocated since the scope was
  entered that only its local variables owned.
\<close>

definition free_from :: "addr \<Rightarrow> store \<Rightarrow> store" where
  "free_from n s = s\<lparr>cells := (\<lambda>a. if a < n then cells s a else None)\<rparr>"

definition draw_uuid :: "('z) libuuid_scheme \<Rightarrow> store \<Rightarrow> uuid_t \<times> store" where
  "draw_uuid L s = (UUID_default L (draws s), s\<lparr>draws := Suc (draws s)\<rparr>)"

section \<open>The counter of incoming edges\<close>

definition has_incomming_edges :: "DAGVertex \<Rightarrow> bool" where
  "has_incomming_edges v \<longleftrightarrow> v_in v > 0"

definition incomming_edge_count :: "DAGVertex \<Rightarrow> size_t" where
  "incomming_edge_count v = v_in v"

definition add_incomming_edge :: "DAGVertex \<Rightarrow> DAGVertex" where
  "add_incomming_edge v = v\<lparr>v_in := v_in v + 1\<rparr>"

definition sub_incomming_edge :: "DAGVertex \<Rightarrow> DAGVertex" where
  "sub_incomming_edge v = v\<lparr>v_in := v_in v - 1\<rparr>"

definition clear_edges :: "DAGVertex \<Rightarrow> DAGVertex" where
  "clear_edges v = v\<lparr>v_edges := []\<rparr>"

definition reset_incomming_edge_count :: "DAGVertex \<Rightarrow> DAGVertex" where
  "reset_incomming_edge_count v = v\<lparr>v_in := 0\<rparr>"

definition edge_count :: "DAGVertex \<Rightarrow> nat" where
  "edge_count v = length (v_edges v)"

section \<open>DAGVertex: construction, moving, cloning, comparing\<close>

definition DAGVertex_label_task_uuid :: "string \<Rightarrow> Task option \<Rightarrow> uuid_t \<Rightarrow> DAGVertex" where
  "DAGVertex_label_task_uuid label task uuid =
     \<lparr>v_uuid = uuid, v_status = INITIALIZED, v_label = label, v_edges = [], v_in = 0, v_task = task\<rparr>"

definition DAGVertex_label_task ::
    "('z) libuuid_scheme \<Rightarrow> string \<Rightarrow> Task option \<Rightarrow> store \<Rightarrow> DAGVertex \<times> store" where
  "DAGVertex_label_task L label task s =
     (let (u, s1) = draw_uuid L s in (DAGVertex_label_task_uuid label task u, s1))"

definition DAGVertex_label :: "('z) libuuid_scheme \<Rightarrow> string \<Rightarrow> store \<Rightarrow> DAGVertex \<times> store" where
  "DAGVertex_label L label s = DAGVertex_label_task L label None s"

definition DAGVertex_default :: "('z) libuuid_scheme \<Rightarrow> store \<Rightarrow> DAGVertex \<times> store" where
  "DAGVertex_default L s =
     (let (u, s1) = draw_uuid L s in (DAGVertex_label_task_uuid (as_string L u) None u, s1))"

text \<open>A move returns the new value of \<open>*this\<close> and what is left in the source.\<close>

definition DAGVertex_move :: "DAGVertex \<Rightarrow> DAGVertex \<times> DAGVertex" where
  "DAGVertex_move other =
     (let (u, left) = UUID_move (v_uuid other)
      in (\<lparr>v_uuid = u, v_status = v_status other, v_label = v_label other, v_edges = v_edges other,
           v_in = v_in other, v_task = v_task other\<rparr>,
          \<lparr>v_uuid = left, v_status = INVALID, v_label = '''', v_edges = [], v_in = 0, v_task = None\<rparr>))"

definition DAGVertex_clone :: "('z) env_scheme \<Rightarrow> DAGVertex \<Rightarrow> DAGVertex res" where
  "DAGVertex_clone E other =
     (let v = \<lparr>v_uuid = UUID_clone (v_uuid other), v_status = v_status other,
               v_label = v_label other, v_edges = [], v_in = 0, v_task = None\<rparr>
      in case v_task other of
           None \<Rightarrow> Inr (reset_incomming_edge_count v)
         | Some t \<Rightarrow> rbind (Task_clone E t) (\<lambda>t'.
             Inr (reset_incomming_edge_count (v\<lparr>v_task := Some t'\<rparr>))))"

text \<open>Copy assignment keeps the edges of \<open>*this\<close>, and its task when the source has none.\<close>

definition DAGVertex_assign :: "('z) env_scheme \<Rightarrow> DAGVertex \<Rightarrow> DAGVertex \<Rightarrow> DAGVertex res" where
  "DAGVertex_assign E this rhs =
     (let v = this\<lparr>v_uuid := UUID_clone (v_uuid rhs), v_status := v_status rhs, v_label := v_label rhs\<rparr>
      in case v_task rhs of
           None \<Rightarrow> Inr (reset_incomming_edge_count v)
         | Some t \<Rightarrow> rbind (Task_clone E t) (\<lambda>t'.
             Inr (reset_incomming_edge_count (v\<lparr>v_task := Some t'\<rparr>))))"

definition vertex_eq :: "('z) libuuid_scheme \<Rightarrow> DAGVertex \<Rightarrow> DAGVertex \<Rightarrow> bool" where
  "vertex_eq L lhs rhs =
     (if v_status lhs = v_status rhs
      then as_string L (v_uuid lhs) = as_string L (v_uuid rhs) \<and> v_label lhs = v_label rhs \<and>
           edge_count lhs = edge_count rhs \<and> incomming_edge_count lhs = incomming_edge_count rhs
      else if v_status lhs = INVALID \<and> v_status rhs = INVALID then True
      else False)"

definition vertex_ne :: "('z) libuuid_scheme \<Rightarrow> DAGVertex \<Rightarrow> DAGVertex \<Rightarrow> bool" where
  "vertex_ne L lhs rhs = (\<not> vertex_eq L lhs rhs)"

definition vertex_current_status :: "DAGVertex \<Rightarrow> vertex_status" where
  "vertex_current_status v = v_status v"

definition vertex_status_string :: "vertex_status \<Rightarrow> string" where
  "vertex_status_string st = (case st of
      INITIALIZED \<Rightarrow> ''initialized'' | SCHEDULED \<Rightarrow> ''scheduled'' | RUNNING \<Rightarrow> ''running''
    | PASSED \<Rightarrow> ''passed'' | FAILED \<Rightarrow> ''failed'' | INVALID \<Rightarrow> ''invalid'')"

definition get_edge_at :: "('z) env_scheme \<Rightarrow> DAGVertex \<Rightarrow> nat \<Rightarrow> DAGEdge res" where
  "get_edge_at E v i =
     rbind (cpp_assert E (i < length (v_edges v))) (\<lambda>_.
       if i < length (v_edges v) then Inr (v_edges v ! i) else Inl OutOfRange)"

section \<open>DAGEdge\<close>

definition DAGEdge_default :: "('z) libuuid_scheme \<Rightarrow> store \<Rightarrow> DAGEdge \<times> store" where
  "DAGEdge_default L s =
     (let (u, s1) = draw_uuid L s
      in (\<lparr>e_uuid = u, e_status = edge_initialized, e_connection = None\<rparr>, s1))"

definition DAGEdge_move :: "DAGEdge \<Rightarrow> DAGEdge \<times> DAGEdge" where
  "DAGEdge_move other =
     (let (u, left) = UUID_move (e_uuid other)
      in (\<lparr>e_uuid = u, e_status = e_status other, e_connection = e_connection other\<rparr>,
          \<lparr>e_uuid = left, e_status = edge_non_traverable, e_connection = None\<rparr>))"

definition DAGEdge_clone :: "DAGEdge \<Rightarrow> DAGEdge" where
  "DAGEdge_clone other =
     \<lparr>e_uuid = UUID_clone (e_uuid other), e_status = e_status other, e_connection = None\<rparr>"

definition DAGEdge_assign :: "DAGEdge \<Rightarrow> DAGEdge \<Rightarrow> DAGEdge" where
  "DAGEdge_assign this rhs =
     this\<lparr>e_uuid := UUID_clone (e_uuid rhs), e_status := e_status rhs, e_connection := None\<rparr>"

text \<open>Redirecting an edge moves one unit of the counter from the old target to the new one.\<close>

definition connect_to :: "addr option \<Rightarrow> DAGEdge \<Rightarrow> store \<Rightarrow> (bool \<times> DAGEdge) \<times> store" where
  "connect_to v e s =
     (let (ret, s1) = (case lock s (e_connection e) of
             None \<Rightarrow> (True, s)
           | Some a \<Rightarrow> (False, upd_vertex a sub_incomming_edge s));
          e1 = e\<lparr>e_connection := v\<rparr>;
          s2 = (case lock s1 (e_connection e1) of
             None \<Rightarrow> s1
           | Some a \<Rightarrow> upd_vertex a add_incomming_edge s1)
      in ((ret, e1), s2))"

definition is_a_connection_to :: "('z) libuuid_scheme \<Rightarrow> store \<Rightarrow> DAGEdge \<Rightarrow> DAGVertex \<Rightarrow> bool" where
  "is_a_connection_to L s e v =
     (case lock s (e_connection e) of
        None \<Rightarrow> False
      | Some a \<Rightarrow> (case vert s a of None \<Rightarrow> False | Some w \<Rightarrow> vertex_eq L v w))"

definition edge_current_status :: "DAGEdge \<Rightarrow> edge_status" where
  "edge_current_status e = e_status e"

text \<open>The destructor: what is left of the edge.\<close>

definition DAGEdge_destroy :: "DAGEdge \<Rightarrow> DAGEdge" where
  "DAGEdge_destroy e = e\<lparr>e_status := edge_non_traverable, e_connection := None\<rparr>"

definition edge_status_string :: "edge_status \<Rightarrow> string" where
  "edge_status_string st = (case st of edge_initialized \<Rightarrow> ''initialized''
    | edge_traversed \<Rightarrow> ''traversed'' | edge_non_traverable \<Rightarrow> ''non_traverable'')"

text \<open>
  Two connected edges are compared by the numbers of owners of their targets. These numbers include the
  pointers of the comparison itself: \<open>lhs_connection\<close>, \<open>rhs_connection\<close> and the two pointers that \<open>lock\<close>
  returns, of which the first lives until both were counted. (If the right side is counted first, the
  two numbers change by the same amount.)
\<close>

definition owners :: "store \<Rightarrow> addr \<Rightarrow> nat" where
  "owners s a = (case cells s a of None \<Rightarrow> 0 | Some c \<Rightarrow> use_count c)"

definition edge_eq :: "('z) libuuid_scheme \<Rightarrow> store \<Rightarrow> DAGEdge \<Rightarrow> DAGEdge \<Rightarrow> bool" where
  "edge_eq L s lhs rhs =
     (as_string L (e_uuid lhs) = as_string L (e_uuid rhs) \<and> e_status lhs = e_status rhs \<and>
      (case (lock s (e_connection lhs), lock s (e_connection rhs)) of
         (Some a, Some b) \<Rightarrow>
           (let held = (\<lambda>x. (if x = a then 1 else 0) + (if x = b then 1 else 0))
            in owners s a + held a + 1 = owners s b + held b + (if b = a then 2 else 1))
       | (None, None) \<Rightarrow> True
       | _ \<Rightarrow> False))"

definition edge_ne :: "('z) libuuid_scheme \<Rightarrow> store \<Rightarrow> DAGEdge \<Rightarrow> DAGEdge \<Rightarrow> bool" where
  "edge_ne L s lhs rhs = (\<not> edge_eq L s lhs rhs)"

lemma edge_eq_same_target:
  assumes "lock s (e_connection lhs) = Some a" "lock s (e_connection rhs) = Some a"
  shows "\<not> edge_eq L s lhs rhs"
  using assms by (simp add: edge_eq_def)

lemma edge_eq_other_target:
  assumes "lock s (e_connection lhs) = Some a" "lock s (e_connection rhs) = Some b" "a \<noteq> b"
  shows "edge_eq L s lhs rhs \<longleftrightarrow>
    as_string L (e_uuid lhs) = as_string L (e_uuid rhs) \<and> e_status lhs = e_status rhs \<and> owners s a = owners s b"
  using assms by (auto simp: edge_eq_def)

lemma edge_eq_unconnected:
  assumes "lock s (e_connection lhs) = None" "lock s (e_connection rhs) = None"
  shows "edge_eq L s lhs rhs \<longleftrightarrow> as_string L (e_uuid lhs) = as_string L (e_uuid rhs) \<and> e_status lhs = e_status rhs"
  using assms by (simp add: edge_eq_def)

section \<open>Connections between vertices\<close>

text \<open>The visitor passed to \<open>visit_all_edges\<close> is applied to the edges in order.\<close>

definition visit_all_edges :: "(DAGEdge \<Rightarrow> 's \<Rightarrow> 's) \<Rightarrow> DAGVertex \<Rightarrow> 's \<Rightarrow> 's" where
  "visit_all_edges cb v = fold cb (v_edges v)"

definition contains_connection_to :: "('z) libuuid_scheme \<Rightarrow> store \<Rightarrow> DAGVertex \<Rightarrow> DAGVertex \<Rightarrow> bool" where
  "contains_connection_to L s v other = list_ex (\<lambda>e. is_a_connection_to L s e other) (v_edges v)"

text \<open>
  \<open>this->connect(other)\<close> for the vertex at address \<open>a\<close> and the shared pointer \<open>b\<close>; \<open>a\<close> and \<open>b\<close> may be
  the same vertex.
\<close>

definition vertex_connect :: "('z) env_scheme \<Rightarrow> addr \<Rightarrow> addr option \<Rightarrow> (store, bool) exec" where
  "vertex_connect E a b s =
     (case (vert s a, lock s b) of
        (Some va, Some b') \<Rightarrow>
          (if \<not> contains_connection_to E s va (the (vert s b'))
           then (let (e, s1) = DAGEdge_default E s;
                     ((_, e1), s2) = connect_to (Some b') e s1;
                     s3 = upd_vertex a (\<lambda>v. v\<lparr>v_edges := v_edges v @ [e1]\<rparr>) s2;
                     es = v_edges (the (vert s3 a))
                 in (rbind (cpp_assert E (es \<noteq> [])) (\<lambda>_.
                     rbind (cpp_assert E (is_a_connection_to E s3 (last es) (the (vert s3 b')))) (\<lambda>_.
                     Inr True)), s3))
           else (Inr False, s))
      | _ \<Rightarrow> (Inl NullDeref, s))"

record DAGVertex_connection =
  c_edge :: DAGEdge
  c_vertex :: DAGVertex

definition DAGVertex_connection_new ::
    "('z) env_scheme \<Rightarrow> DAGEdge \<Rightarrow> DAGVertex \<Rightarrow> DAGVertex_connection res" where
  "DAGVertex_connection_new E edge vertex =
     rbind (DAGVertex_clone E vertex) (\<lambda>v. Inr \<lparr>c_edge = DAGEdge_clone edge, c_vertex = v\<rparr>)"

definition clone_connection :: "('z) env_scheme \<Rightarrow> store \<Rightarrow> DAGEdge \<Rightarrow> DAGVertex_connection res" where
  "clone_connection E s e =
     (let e_clone = DAGEdge_clone e
      in case lock s (e_connection e) of
           None \<Rightarrow> Inl NullDeref
         | Some a \<Rightarrow>
             rbind (DAGVertex_clone E (the (vert s a))) (\<lambda>v_clone.
             rbind (DAGVertex_connection_new E e_clone v_clone) (\<lambda>c.
               let c1 = c\<lparr>c_vertex := reset_incomming_edge_count (c_vertex c)\<rparr>
               in rbind (cpp_assert E (incomming_edge_count (c_vertex c1) = 0)) (\<lambda>_. Inr c1))))"

definition clone_all_connections ::
    "('z) env_scheme \<Rightarrow> DAGVertex \<Rightarrow> store \<Rightarrow> DAGVertex_connection list res" where
  "clone_all_connections E v s = rmap (clone_connection E s) (v_edges v)"

text \<open>
  \<open>this->restablish_connections(connections)\<close>: a new shared vertex per connection. The loop hands the
  owners back to the caller.
\<close>

primrec restablish_connections ::
    "('z) env_scheme \<Rightarrow> addr \<Rightarrow> DAGVertex_connection list \<Rightarrow> (store, addr list) exec" where
  "restablish_connections E a [] = eret []"
| "restablish_connections E a (c # cs) =
     ebind (elift (DAGVertex_clone E (c_vertex c))) (\<lambda>vertex.
     ebind (elift (DAGVertex_clone E vertex)) (\<lambda>vertex_clone.
     ebind (\<lambda>s. let (other, s1) = make_shared vertex_clone s;
                    tmp_edge = DAGEdge_clone (DAGEdge_clone (c_edge c));
                    ((_, tmp_edge1), s2) = connect_to (Some other) tmp_edge s1;
                    s3 = upd_vertex a (\<lambda>v. v\<lparr>v_edges := v_edges v @ [tmp_edge1]\<rparr>) s2
                in (Inr other, s3)) (\<lambda>other.
     ebind (restablish_connections E a cs) (\<lambda>rest. eret (other # rest)))))"

section \<open>Lemmas on the store\<close>

lemma vert_upd_vertex [simp]:
  "vert (upd_vertex a f s) b = (if b = a then map_option f (vert s a) else vert s b)"
  by (auto simp: vert_def upd_vertex_def option.map_comp comp_def)

lemma cells_upd_vertex_None [simp]: "cells (upd_vertex a f s) b = None \<longleftrightarrow> cells s b = None"
  by (auto simp: upd_vertex_def)

lemma cells_upd_vertex_neq [simp]: "b \<noteq> a \<Longrightarrow> cells (upd_vertex a f s) b = cells s b"
  by (auto simp: upd_vertex_def)

lemma brk_upd_vertex [simp]: "brk (upd_vertex a f s) = brk s"
  by (simp add: upd_vertex_def)

lemma cells_None_iff_vert: "cells s a = None \<longleftrightarrow> vert s a = None"
  by (simp add: vert_def)

lemma cells_Some_vert: "vert s a = Some v \<Longrightarrow> \<exists>c. cells s a = Some c \<and> obj c = v"
  by (auto simp: vert_def)

lemma vert_upd_fields [simp]:
  "vert (s\<lparr>draws := n\<rparr>) a = vert s a"
  "vert (s\<lparr>brk := m\<rparr>) a = vert s a"
  by (simp_all add: vert_def)

lemma lock_simps [simp]:
  "lock s None = None"
  "lock s (Some a) = (if vert s a = None then None else Some a)"
  by (simp_all add: lock_def expired_def cells_None_iff_vert)

lemma expired_simps [simp]:
  "expired s None"
  "expired s (Some a) \<longleftrightarrow> vert s a = None"
  by (simp_all add: expired_def cells_None_iff_vert)

lemma lock_eq_Some: "lock s w = Some a \<longleftrightarrow> w = Some a \<and> vert s a \<noteq> None"
  by (cases w) auto

lemma lock_upd_vertex [simp]: "lock (upd_vertex a f s) w = lock s w"
  by (cases w) auto

lemma lock_draws [simp]: "lock (s\<lparr>draws := n\<rparr>) w = lock s w"
  by (cases w) auto

lemma vert_free_from [simp]: "vert (free_from n s) a = (if a < n then vert s a else None)"
  by (simp add: vert_def free_from_def)

lemma vertex_eq_refl [simp]: "vertex_eq L v v"
  by (simp add: vertex_eq_def)

lemma vertex_eq_uuid: "libuuid_ok L \<Longrightarrow> vertex_eq L v w \<Longrightarrow> v_uuid v = v_uuid w"
  by (auto simp: vertex_eq_def as_string_eq_iff split: if_splits)

lemma DAGEdge_destroy_unconnected: "\<not> is_a_connection_to L s (DAGEdge_destroy e) v"
  by (simp add: is_a_connection_to_def DAGEdge_destroy_def lock_def)

lemma visit_all_edges_contains:
  "visit_all_edges (\<lambda>e found. found \<or> is_a_connection_to L s e w) v False \<longleftrightarrow> contains_connection_to L s v w"
proof -
  have "fold (\<lambda>e found. found \<or> P e) es b \<longleftrightarrow> b \<or> list_ex P es" for P and es :: "DAGEdge list" and b
    by (induction es arbitrary: b) auto
  then show ?thesis by (simp add: visit_all_edges_def contains_connection_to_def)
qed

section \<open>Lemmas on cloning a vertex\<close>

definition vertex_ok :: "DAGVertex \<Rightarrow> bool" where
  "vertex_ok v = (case v_task v of None \<Rightarrow> True | Some t \<Rightarrow> task_ok t)"

text \<open>What a clone of a vertex shares with it: everything but the edges and the counter.\<close>

definition same_vertex :: "DAGVertex \<Rightarrow> DAGVertex \<Rightarrow> bool" where
  "same_vertex v w \<longleftrightarrow> v_uuid w = v_uuid v \<and> v_status w = v_status v \<and> v_label w = v_label v \<and>
     rel_option same_task (v_task v) (v_task w)"

lemma rel_option_same_task [simp]: "rel_option same_task z z"
  by (cases z) simp_all

lemma same_vertex_refl [simp]: "same_vertex v v"
  by (simp add: same_vertex_def)

lemma same_vertex_trans: "same_vertex u v \<Longrightarrow> same_vertex v w \<Longrightarrow> same_vertex u w"
  by (cases "v_task u"; cases "v_task v"; cases "v_task w") (auto simp: same_vertex_def intro: same_task_trans)

lemma same_vertex_uuid: "same_vertex v w \<Longrightarrow> v_uuid w = v_uuid v"
  by (simp add: same_vertex_def)

lemma DAGVertex_clone_ok:
  assumes "env_ok E" "vertex_ok v"
  obtains w where "DAGVertex_clone E v = Inr w" "vertex_ok w" "same_vertex v w" "v_edges w = []" "v_in w = 0"
proof (cases "v_task v")
  case None
  then show ?thesis
    by (intro that [of "v\<lparr>v_edges := [], v_in := 0\<rparr>"]) (auto simp: DAGVertex_clone_def UUID_clone_def reset_incomming_edge_count_def
        vertex_ok_def same_vertex_def)
next
  case (Some t)
  with assms obtain t' where "Task_clone E t = Inr t'" "task_ok t'" "same_task t t'"
    by (auto simp: vertex_ok_def elim: Task_clone_ok [of E t])
  with Some show ?thesis
    by (intro that [of "v\<lparr>v_edges := [], v_in := 0, v_task := Some t'\<rparr>"]) (auto simp: DAGVertex_clone_def UUID_clone_def reset_incomming_edge_count_def
        vertex_ok_def same_vertex_def)
qed

text \<open>A cloned task is neither iterating nor killed.\<close>

lemma DAGVertex_clone_idle: "DAGVertex_clone E v = Inr w \<Longrightarrow> v_task w = Some t \<Longrightarrow> \<not> t_iterating t \<and> \<not> t_kill t"
  by (auto simp: DAGVertex_clone_def reset_incomming_edge_count_def Task_clone_def update_uuid_def task_ctor_defs
      rbind_def set_json_config_def set_json_initial_inputs_def Let_def split: option.splits sum.splits)

end
