(* ===== verification/Graph_Inv.thy ===== *)
theory Graph_Inv
  imports Dag_Vertex
begin

text \<open>
  The invariant of a graph in the store. A graph is the list of addresses that a \<open>DAG\<close> owns; its
  arcs are read off the edges of its vertices. \<open>wf_graph\<close> says that the vertices are alive and carry
  distinct identifiers, that every edge ends in the graph and no two edges of a vertex have the same
  end, and that every counter of incoming edges is exact. The number of vertices is below
  $2^{64}$, the range of \<open>size_t\<close>, as the length of any \<open>std::vector\<close> is.

  The theory ends with the basic mutation, \<open>DAGVertex::connect\<close> between two vertices of a graph.
\<close>

section \<open>The graph a store holds\<close>

definition succs :: "store \<Rightarrow> addr \<Rightarrow> addr option list" where
  "succs s a = (case vert s a of None \<Rightarrow> [] | Some v \<Rightarrow> map e_connection (v_edges v))"

definition arcs :: "store \<Rightarrow> addr list \<Rightarrow> (addr \<times> addr) set" where
  "arcs s g = {(a, b). a \<in> set g \<and> Some b \<in> set (succs s a)}"

definition preds :: "store \<Rightarrow> addr list \<Rightarrow> addr \<Rightarrow> addr set" where
  "preds s g b = {a \<in> set g. Some b \<in> set (succs s a)}"

definition uuid_of :: "store \<Rightarrow> addr \<Rightarrow> uuid_t" where
  "uuid_of s a = v_uuid (the (vert s a))"

definition wf_vertex :: "store \<Rightarrow> addr list \<Rightarrow> addr \<Rightarrow> bool" where
  "wf_vertex s g a = (case vert s a of
      None \<Rightarrow> False
    | Some v \<Rightarrow> vertex_ok v \<and> distinct (succs s a) \<and> set (succs s a) \<subseteq> Some ` set g \<and>
        v_in v = of_nat (card (preds s g a)))"

definition wf_graph :: "store \<Rightarrow> addr list \<Rightarrow> bool" where
  "wf_graph s g \<longleftrightarrow> distinct g \<and> length g < 2 ^ 64 \<and> distinct (map (uuid_of s) g) \<and> (\<forall>a \<in> set g. wf_vertex s g a)"

text \<open>Every address in use was handed out by the allocator.\<close>

definition wf_store :: "store \<Rightarrow> bool" where
  "wf_store s \<longleftrightarrow> (\<forall>a. vert s a \<noteq> None \<longrightarrow> a < brk s)"

named_theorems wf_dests \<open>what the invariant gives\<close>

lemma wf_graph_distinct [wf_dests]: "wf_graph s g \<Longrightarrow> distinct g"
  by (simp add: wf_graph_def)

lemma wf_graph_length [wf_dests]: "wf_graph s g \<Longrightarrow> length g < 2 ^ 64"
  by (simp add: wf_graph_def)

lemma wf_graph_uuids [wf_dests]: "wf_graph s g \<Longrightarrow> distinct (map (uuid_of s) g)"
  by (simp add: wf_graph_def)

lemma wf_graphE:
  assumes "wf_graph s g" "a \<in> set g"
  obtains v where "vert s a = Some v" "vertex_ok v" "distinct (succs s a)"
    "set (succs s a) \<subseteq> Some ` set g" "v_in v = of_nat (card (preds s g a))"
  using assms by (auto simp: wf_graph_def wf_vertex_def split: option.splits)

lemma wf_graph_alive: "wf_graph s g \<Longrightarrow> a \<in> set g \<Longrightarrow> \<exists>v. vert s a = Some v"
  by (auto elim: wf_graphE)

lemma wf_graph_nth:
  assumes "wf_graph s g" "i < length g"
  obtains v where "vert s (g ! i) = Some v" "vertex_ok v"
  using wf_graphE [OF assms(1) nth_mem [OF assms(2)]] by metis

lemma wf_graph_succ_in: "wf_graph s g \<Longrightarrow> a \<in> set g \<Longrightarrow> w \<in> set (succs s a) \<Longrightarrow> \<exists>b \<in> set g. w = Some b"
  by (auto elim!: wf_graphE)

lemma wf_graph_uuid_inj:
  "wf_graph s g \<Longrightarrow> a \<in> set g \<Longrightarrow> b \<in> set g \<Longrightarrow> uuid_of s a = uuid_of s b \<longleftrightarrow> a = b"
  by (auto simp: wf_graph_def distinct_map dest: inj_onD)

lemma arcs_in_graph: "wf_graph s g \<Longrightarrow> arcs s g \<subseteq> set g \<times> set g"
  by (auto simp: arcs_def dest: wf_graph_succ_in)

lemma finite_arcs: "wf_graph s g \<Longrightarrow> finite (arcs s g)"
  by (rule finite_subset [OF arcs_in_graph]) auto

lemma preds_arcs: "preds s g b = {a. (a, b) \<in> arcs s g}"
  by (auto simp: preds_def arcs_def)

lemma finite_preds [simp]: "finite (preds s g b)"
  by (simp add: preds_def)

lemma card_preds_less: "wf_graph s g \<Longrightarrow> card (preds s g b) < 2 ^ 64"
proof -
  assume wf: "wf_graph s g"
  have "card (preds s g b) \<le> card (set g)"
    by (rule card_mono) (auto simp: preds_def)
  also have "\<dots> \<le> length g" by (rule card_length)
  finally show ?thesis using wf_graph_length [OF wf] by simp
qed

lemma has_incomming_iff:
  assumes "wf_graph s g" "a \<in> set g" "vert s a = Some v"
  shows "has_incomming_edges v \<longleftrightarrow> preds s g a \<noteq> {}"
proof -
  from assms have "v_in v = of_nat (card (preds s g a))" by (auto elim: wf_graphE)
  with card_preds_less [OF assms(1), of a] show ?thesis
    by (simp add: has_incomming_edges_def of_nat_size_t_pos card_gt_0_iff)
qed

section \<open>Changes that only rewire\<close>

text \<open>
  Most operations change nothing but edges and counters, and those only inside one set of vertices.
\<close>

definition strip :: "cell \<Rightarrow> cell" where
  "strip c = c\<lparr>obj := (obj c)\<lparr>v_edges := [], v_in := 0\<rparr>\<rparr>"

definition rewires :: "addr set \<Rightarrow> store \<Rightarrow> store \<Rightarrow> bool" where
  "rewires A s s' \<longleftrightarrow> brk s' = brk s \<and> (\<forall>c. c \<notin> A \<longrightarrow> cells s' c = cells s c) \<and>
     (\<forall>c. map_option strip (cells s' c) = map_option strip (cells s c))"

lemma rewires_refl [simp]: "rewires A s s"
  by (simp add: rewires_def)

lemma rewires_trans: "rewires A s t \<Longrightarrow> rewires A t u \<Longrightarrow> rewires A s u"
  by (simp add: rewires_def)

lemma rewires_mono: "rewires A s t \<Longrightarrow> A \<subseteq> B \<Longrightarrow> rewires B s t"
  by (auto simp: rewires_def)

lemma rewires_brk: "rewires A s t \<Longrightarrow> brk t = brk s"
  by (simp add: rewires_def)

lemma rewires_cells: "rewires A s t \<Longrightarrow> c \<notin> A \<Longrightarrow> cells t c = cells s c"
  by (simp add: rewires_def)

lemma rewires_vert_out: "rewires A s t \<Longrightarrow> c \<notin> A \<Longrightarrow> vert t c = vert s c"
  by (simp add: rewires_def vert_def)

lemma strip_eq_iff:
  "strip c = strip d \<longleftrightarrow> use_count c = use_count d \<and>
     (obj c)\<lparr>v_edges := [], v_in := 0\<rparr> = (obj d)\<lparr>v_edges := [], v_in := 0\<rparr>"
  by (cases c; cases d) (auto simp: strip_def)

lemma rewires_vert:
  assumes "rewires A s t" "vert s c = Some v"
  obtains w where "vert t c = Some w"
    "w\<lparr>v_edges := [], v_in := 0\<rparr> = v\<lparr>v_edges := [], v_in := 0\<rparr>"
    "owners t c = owners s c"
proof -
  from assms(2) obtain x where x: "cells s c = Some x" "obj x = v" by (auto simp: vert_def)
  from assms(1) have "map_option strip (cells t c) = map_option strip (cells s c)"
    by (simp add: rewires_def)
  with x obtain y where "cells t c = Some y" "strip y = strip x" by (cases "cells t c") auto
  with x show ?thesis by (intro that [of "obj y"]) (auto simp: vert_def strip_eq_iff owners_def)
qed

lemma rewires_None: "rewires A s t \<Longrightarrow> vert t c = None \<longleftrightarrow> vert s c = None"
  by (metis (no_types, lifting) rewires_def cells_None_iff_vert option.map_disc_iff)

lemma strip_vertex_eqD:
  assumes "w\<lparr>v_edges := [], v_in := 0\<rparr> = v\<lparr>v_edges := [], v_in := 0\<rparr>"
  shows "v_uuid w = v_uuid v" "v_label w = v_label v" "v_status w = v_status v" "v_task w = v_task v"
    "same_vertex v w" "vertex_ok w = vertex_ok v"
  using assms by (cases v; cases w; simp add: same_vertex_def vertex_ok_def)+

lemma rewires_uuid: "rewires A s t \<Longrightarrow> uuid_of t c = uuid_of s c"
proof (cases "vert s c")
  case None
  assume "rewires A s t"
  with None have "vert t c = None" by (simp add: rewires_None [of A s t])
  with None show ?thesis by (simp add: uuid_of_def)
next
  case (Some v)
  assume "rewires A s t"
  then obtain w where "vert t c = Some w" "w\<lparr>v_edges := [], v_in := 0\<rparr> = v\<lparr>v_edges := [], v_in := 0\<rparr>"
    using Some by (rule rewires_vert)
  with Some strip_vertex_eqD(1) [OF this(2)] show ?thesis by (simp add: uuid_of_def)
qed

lemma rewires_wf_store: "rewires A s t \<Longrightarrow> wf_store s \<Longrightarrow> wf_store t"
  by (auto simp: wf_store_def rewires_brk) (metis option.exhaust rewires_None)

lemma rewires_upd_vertex:
  assumes "a \<in> A" "\<And>v. (f v)\<lparr>v_edges := [], v_in := 0\<rparr> = v\<lparr>v_edges := [], v_in := 0\<rparr>"
  shows "rewires A s (upd_vertex a f s)"
  using assms by (auto simp: rewires_def upd_vertex_def strip_def [abs_def] option.map_comp comp_def)

lemma rewires_draws: "rewires A s (s\<lparr>draws := n\<rparr>)"
  by (simp add: rewires_def)

section \<open>Adding one arc\<close>

text \<open>The store after \<open>a->connect(b)\<close> made an edge: a fresh edge on \<open>a\<close>, one more on \<open>b\<close>'s counter.\<close>

definition link :: "('z) libuuid_scheme \<Rightarrow> addr \<Rightarrow> addr \<Rightarrow> store \<Rightarrow> store" where
  "link L a b s =
     upd_vertex a (\<lambda>v. v\<lparr>v_edges := v_edges v @
         [\<lparr>e_uuid = UUID_default L (draws s), e_status = edge_initialized, e_connection = Some b\<rparr>]\<rparr>)
       (upd_vertex b add_incomming_edge (s\<lparr>draws := Suc (draws s)\<rparr>))"

lemma rewires_link: "a \<in> A \<Longrightarrow> b \<in> A \<Longrightarrow> rewires A s (link L a b s)"
  unfolding link_def
  by (rule rewires_trans [OF rewires_trans [OF rewires_draws]]; rule rewires_upd_vertex)
    (simp_all add: add_incomming_edge_def)

lemma succs_link:
  assumes "vert s a \<noteq> None"
  shows "succs (link L a b s) c = (if c = a then succs s a @ [Some b] else succs s c)"
  using assms by (auto simp: succs_def link_def add_incomming_edge_def split: option.splits)

lemma v_in_link:
  "map_option v_in (vert (link L a b s) c) =
     map_option (\<lambda>v. v_in v + (if c = b then 1 else 0)) (vert s c)"
  by (auto simp: link_def add_incomming_edge_def option.map_comp comp_def)

lemma vertex_connect_link:
  assumes "vert s a = Some va" "vert s b = Some vb" "\<not> contains_connection_to E s va vb"
  shows "vertex_connect E a (Some b) s = (Inr True, link E a b s)"
proof -
  let ?s3 = "link E a b s"
  have "\<exists>w. vert ?s3 b = Some w"
    using assms by (auto simp: link_def)
  then have "is_a_connection_to E ?s3 \<lparr>e_uuid = UUID_default E (draws s), e_status = edge_initialized,
      e_connection = Some b\<rparr> (the (vert ?s3 b))"
    by (auto simp: is_a_connection_to_def)
  moreover have "\<exists>es. v_edges (the (vert ?s3 a)) = es @ [\<lparr>e_uuid = UUID_default E (draws s),
      e_status = edge_initialized, e_connection = Some b\<rparr>]"
    using assms by (auto simp: link_def)
  moreover have "vertex_connect E a (Some b) s =
      (let es = v_edges (the (vert ?s3 a))
       in (rbind (cpp_assert E (es \<noteq> [])) (\<lambda>_.
           rbind (cpp_assert E (is_a_connection_to E ?s3 (last es) (the (vert ?s3 b)))) (\<lambda>_.
           Inr True)), ?s3))"
    using assms
    by (simp add: vertex_connect_def DAGEdge_default_def draw_uuid_def connect_to_def Let_def
        link_def del: vert_upd_vertex)
  ultimately show ?thesis by auto
qed

lemma contains_connection_iff:
  assumes "libuuid_ok L" "wf_graph s g" "a \<in> set g" "b \<in> set g" "vert s a = Some va" "vert s b = Some vb"
  shows "contains_connection_to L s va vb \<longleftrightarrow> Some b \<in> set (succs s a)"
proof
  assume "contains_connection_to L s va vb"
  then obtain e c w where e: "e \<in> set (v_edges va)" "e_connection e = Some c" "vert s c = Some w"
      "vertex_eq L vb w"
    by (auto simp: contains_connection_to_def list_ex_iff is_a_connection_to_def lock_eq_Some
        split: option.splits)
  then have sc: "Some c \<in> set (succs s a)"
    using assms(5) by (force simp: succs_def)
  then have "c \<in> set g" using assms(2,3) wf_graph_succ_in by fastforce
  moreover have "uuid_of s c = uuid_of s b"
    using vertex_eq_uuid [OF assms(1) e(4)] e(3) assms(6) by (simp add: uuid_of_def)
  ultimately have "c = b" using assms(2,4) wf_graph_uuid_inj by blast
  with sc show "Some b \<in> set (succs s a)" by simp
next
  assume "Some b \<in> set (succs s a)"
  then obtain e where "e \<in> set (v_edges va)" "e_connection e = Some b"
    using assms(5) by (auto simp: succs_def)
  then show "contains_connection_to L s va vb"
    using assms(6) unfolding contains_connection_to_def list_ex_iff is_a_connection_to_def
    by (intro bexI [of _ e]) auto
qed

lemma arcs_link:
  assumes "vert s a \<noteq> None" "a \<in> set g"
  shows "arcs (link L a b s) g = insert (a, b) (arcs s g)"
  using assms by (auto simp: arcs_def succs_link split: if_splits)

lemma wf_graph_link:
  assumes wf: "wf_graph s g" and ab: "a \<in> set g" "b \<in> set g" and new: "Some b \<notin> set (succs s a)"
  shows "wf_graph (link L a b s) g"
proof -
  let ?t = "link L a b s"
  have rw: "rewires (set g) s ?t" using ab by (rule rewires_link)
  have alive: "vert s a \<noteq> None" using wf ab wf_graph_alive by blast
  have pr: "preds ?t g c = (if c = b then insert a (preds s g b) else preds s g c)" for c
    using ab alive by (auto simp: preds_def succs_link)
  have "wf_vertex ?t g c" if c: "c \<in> set g" for c
  proof -
    from wf c obtain v where v: "vert s c = Some v" "vertex_ok v" "distinct (succs s c)"
      "set (succs s c) \<subseteq> Some ` set g" "v_in v = of_nat (card (preds s g c))"
      by (rule wf_graphE)
    from rw v(1) obtain w where w: "vert ?t c = Some w"
      "w\<lparr>v_edges := [], v_in := 0\<rparr> = v\<lparr>v_edges := [], v_in := 0\<rparr>"
      by (rule rewires_vert)
    have "a \<notin> preds s g b" using new by (simp add: preds_def)
    then have "v_in w = of_nat (card (preds ?t g c))"
      using v_in_link [of L a b s c] v(1,5) w(1) by (auto simp: pr)
    moreover have "vertex_ok w" using strip_vertex_eqD(6) [OF w(2)] v(2) by simp
    ultimately show ?thesis
      using v(3,4) w(1) new ab alive by (auto simp: wf_vertex_def succs_link)
  qed
  with wf rw show ?thesis
    by (simp add: wf_graph_def rewires_uuid [OF rw] cong: map_cong)
qed

text \<open>\<open>DAGVertex::connect\<close> inside a well-formed graph, on both of its branches.\<close>

lemma vertex_connect_old:
  assumes "libuuid_ok E" "wf_graph s g" "a \<in> set g" "b \<in> set g" "(a, b) \<in> arcs s g"
  shows "vertex_connect E a (Some b) s = (Inr False, s)"
proof -
  from assms obtain va vb where "vert s a = Some va" "vert s b = Some vb"
    by (meson wf_graph_alive)
  with assms contains_connection_iff [OF assms(1-4)] show ?thesis
    by (auto simp: vertex_connect_def arcs_def)
qed

lemma vertex_connect_new:
  assumes "libuuid_ok E" "wf_graph s g" "a \<in> set g" "b \<in> set g" "(a, b) \<notin> arcs s g"
  shows "vertex_connect E a (Some b) s = (Inr True, link E a b s)"
proof -
  from assms obtain va vb where ab: "vert s a = Some va" "vert s b = Some vb"
    by (meson wf_graph_alive)
  with assms(3,5) contains_connection_iff [OF assms(1-4) ab]
  have "\<not> contains_connection_to E s va vb" by (auto simp: arcs_def)
  with ab show ?thesis by (rule vertex_connect_link)
qed

lemma vertex_connect_graph:
  assumes "libuuid_ok E" "wf_graph s g" "a \<in> set g" "b \<in> set g"
  obtains s' r where "vertex_connect E a (Some b) s = (Inr r, s')" "wf_graph s' g"
    "arcs s' g = insert (a, b) (arcs s g)" "rewires (set g) s s'" "r \<longleftrightarrow> (a, b) \<notin> arcs s g"
proof (cases "(a, b) \<in> arcs s g")
  case True
  with assms vertex_connect_old [OF assms True] show ?thesis
    by (intro that [of False s]) auto
next
  case False
  then have "Some b \<notin> set (succs s a)" using assms(3) by (simp add: arcs_def)
  with False assms vertex_connect_new [OF assms False] show ?thesis
    by (intro that [of True "link E a b s"])
      (auto simp: wf_graph_link rewires_link arcs_link dest: wf_graph_alive)
qed

end
