(* ===== verification/Dag.thy ===== *)
theory Dag
  imports Graph_Inv
begin

text \<open>
  Class \<open>DAG\<close> (\<open>lib/dag.cxx\<close>), first part: construction and moving, lookup, insertion, counting and
  copying. A \<open>DAG\<close> owns its vertices; \<open>graph_\<close> is the list of their addresses in the order of
  insertion. The document \<open>json_config_\<close> is a \<open>unique_ptr\<close>, empty after the graph was moved from.
  Connecting vertices needs the topological sort and is in theory \<open>Dag_Ops\<close>.
\<close>

record DAG =
  graph_of :: "addr list"
  title_of :: string
  config_of :: "json option"

definition elem_at :: "'a list \<Rightarrow> nat \<Rightarrow> 'a res" where
  "elem_at xs i = (if i < length xs then Inr (xs ! i) else Inl OutOfRange)"

section \<open>Construction and moving\<close>

definition DAG_title_config :: "string \<Rightarrow> json \<Rightarrow> DAG" where
  "DAG_title_config title j = \<lparr>graph_of = [], title_of = title, config_of = Some j\<rparr>"

definition DAG_title :: "string \<Rightarrow> DAG" where
  "DAG_title title = \<lparr>graph_of = [], title_of = title, config_of = Some JNull\<rparr>"

definition DAG_default :: DAG where
  "DAG_default = DAG_title ''''"

definition DAG_config :: "json \<Rightarrow> DAG" where
  "DAG_config j = \<lparr>graph_of = [], title_of = '''', config_of = Some j\<rparr>"

definition DAG_move :: "DAG \<Rightarrow> DAG \<times> DAG" where
  "DAG_move other =
     (\<lparr>graph_of = graph_of other, title_of = title_of other, config_of = config_of other\<rparr>,
      other\<lparr>graph_of := [], config_of := None\<rparr>)"

text \<open>Move assignment drops the vertices \<open>*this\<close> owned before.\<close>

definition DAG_move_assign :: "DAG \<Rightarrow> DAG \<Rightarrow> store \<Rightarrow> (DAG \<times> DAG) \<times> store" where
  "DAG_move_assign this other s =
     (let s1 = fold release (graph_of this) s
      in ((\<lparr>graph_of = graph_of other, title_of = title_of other, config_of = config_of other\<rparr>,
           other\<lparr>graph_of := [], config_of := None\<rparr>), s1))"

section \<open>Lookup\<close>

definition find_vertex_by_uuid :: "('z) libuuid_scheme \<Rightarrow> DAG \<Rightarrow> uuid_t \<Rightarrow> store \<Rightarrow> addr option" where
  "find_vertex_by_uuid L d u s = List.find (\<lambda>a. uuid_eq L u (uuid_of s a)) (graph_of d)"

definition find_vertex :: "('z) libuuid_scheme \<Rightarrow> DAG \<Rightarrow> DAGVertex \<Rightarrow> store \<Rightarrow> addr option" where
  "find_vertex L d v s = find_vertex_by_uuid L d (v_uuid v) s"

definition find_all_verticies_with_label :: "DAG \<Rightarrow> string \<Rightarrow> store \<Rightarrow> addr list" where
  "find_all_verticies_with_label d l s = filter (\<lambda>a. v_label (the (vert s a)) = l) (graph_of d)"

definition contains_vertex :: "('z) libuuid_scheme \<Rightarrow> DAG \<Rightarrow> DAGVertex \<Rightarrow> store \<Rightarrow> bool" where
  "contains_vertex L d v s = (if \<not> expired s (find_vertex L d v s) then True else False)"

definition contains_vertex_by_uuid :: "('z) libuuid_scheme \<Rightarrow> DAG \<Rightarrow> uuid_t \<Rightarrow> store \<Rightarrow> bool" where
  "contains_vertex_by_uuid L d u s = (if \<not> expired s (find_vertex_by_uuid L d u s) then True else False)"

definition contains_vertex_by_label :: "DAG \<Rightarrow> string \<Rightarrow> store \<Rightarrow> bool" where
  "contains_vertex_by_label d l s = (if find_all_verticies_with_label d l s \<noteq> [] then True else False)"

definition get_vertex_at :: "('z) env_scheme \<Rightarrow> DAG \<Rightarrow> nat \<Rightarrow> addr res" where
  "get_vertex_at E d i = rbind (cpp_assert E (i < length (graph_of d))) (\<lambda>_. elem_at (graph_of d) i)"

definition vertex_count :: "DAG \<Rightarrow> nat" where
  "vertex_count d = length (graph_of d)"

text \<open>The visitor passed to \<open>linear_traversal\<close> is applied to the vertices in order.\<close>

definition linear_traversal :: "(addr \<Rightarrow> 's \<Rightarrow> 's) \<Rightarrow> DAG \<Rightarrow> 's \<Rightarrow> 's" where
  "linear_traversal cb d = fold cb (graph_of d)"

definition DAG_edge_count :: "DAG \<Rightarrow> store \<Rightarrow> size_t" where
  "DAG_edge_count d s =
     linear_traversal (\<lambda>a ret. ret + of_nat (edge_count (the (vert s a)))) d 0"

section \<open>Insertion\<close>

text \<open>
  \<open>add_vertex(std::move(v))\<close>: the verdict, the graph, and what is left in \<open>v\<close>: a moved-from vertex if it
  was inserted, \<open>v\<close> itself if a vertex with its identifier was there already.
\<close>

definition add_vertex ::
    "('z) libuuid_scheme \<Rightarrow> DAG \<Rightarrow> DAGVertex \<Rightarrow> store \<Rightarrow> (bool \<times> DAG \<times> DAGVertex) \<times> store" where
  "add_vertex L d v s =
     (if \<not> contains_vertex L d v s
      then (let (moved, left) = DAGVertex_move v;
                (graph_vertex, s1) = make_shared moved s
            in ((True, d\<lparr>graph_of := graph_of d @ [graph_vertex]\<rparr>, left), s1))
      else ((False, d, v), s))"

definition DAG_reset :: "DAG \<Rightarrow> store \<Rightarrow> DAG \<times> store" where
  "DAG_reset d s = (d\<lparr>graph_of := []\<rparr>, fold release (graph_of d) s)"

section \<open>The configuration document\<close>

definition DAG_json_config :: "DAG \<Rightarrow> json res" where
  "DAG_json_config d = (case config_of d of None \<Rightarrow> Inl NullDeref | Some j \<Rightarrow> Inr j)"

definition DAG_json_config_str :: "('z) env_scheme \<Rightarrow> DAG \<Rightarrow> string \<Rightarrow> string" where
  "DAG_json_config_str E d out_str = document_str E (config_of d) out_str"

definition override_initial_input_for_vertex_task ::
    "('z) libuuid_scheme \<Rightarrow> DAG \<Rightarrow> uuid_t \<Rightarrow> json \<Rightarrow> store \<Rightarrow> unit res" where
  "override_initial_input_for_vertex_task L d vertex_uuid initial_input s =
     (case lock s (find_vertex_by_uuid L d vertex_uuid s) of
        None \<Rightarrow> Inl NullDeref
      | Some a \<Rightarrow>
          (case v_task (the (vert s a)) of
             None \<Rightarrow> Inr ()
           | Some t \<Rightarrow>
               rbind (UUID_from_string L (as_string L (t_uuid t))) (\<lambda>_.
               Inl (ThrowLogicError ''override_initial_input_for_vertex_task not implemented.''))))"

section \<open>Copying\<close>

definition clone_connections :: "('z) env_scheme \<Rightarrow> DAG \<Rightarrow> addr \<Rightarrow> addr \<Rightarrow> (store, unit) exec" where
  "clone_connections E d from to =
     ebind (\<lambda>s. (cpp_assert E (uuid_eq E (uuid_of s from) (uuid_of s to)), s)) (\<lambda>_.
     ebind (\<lambda>s. (clone_all_connections E (the (vert s from)) s, s)) (\<lambda>from_connections.
     efor (\<lambda>connection.
        ebind (\<lambda>s. (Inr (find_vertex E d (c_vertex connection) s), s)) (\<lambda>find.
        ebind (\<lambda>s. (cpp_assert E (\<not> expired s find), s)) (\<lambda>_.
        ebind (vertex_connect E to find) (\<lambda>_.
        eret ())))) from_connections))"

primrec copy_vertices :: "('z) env_scheme \<Rightarrow> addr list \<Rightarrow> DAG \<Rightarrow> store \<Rightarrow> (unit res \<times> DAG) \<times> store" where
  "copy_vertices E [] d s = ((Inr (), d), s)"
| "copy_vertices E (a # as) d s =
     (case DAGVertex_clone E (the (vert s a)) of
        Inl e \<Rightarrow> ((Inl e, d), s)
      | Inr tmp \<Rightarrow> (let ((_, d1, _), s1) = add_vertex E d tmp s in copy_vertices E as d1 s1))"

definition copy_edges :: "('z) env_scheme \<Rightarrow> DAG \<Rightarrow> DAG \<Rightarrow> (store, unit) exec" where
  "copy_edges E other d =
     efor (\<lambda>i. ebind (elift (elem_at (graph_of other) i)) (\<lambda>from.
               ebind (elift (elem_at (graph_of d) i)) (\<lambda>to.
               clone_connections E d from to))) [0..<length (graph_of d)]"

text \<open>
  The copy constructor. When it fails, unwinding destroys the vertices it had made.
\<close>

definition DAG_copy :: "('z) env_scheme \<Rightarrow> DAG \<Rightarrow> (store, DAG) exec" where
  "DAG_copy E other s =
     (let d0 = \<lparr>graph_of = [], title_of = '''', config_of = Some JNull\<rparr>;
          ((r, d1), s1) = copy_vertices E (graph_of other) d0 s
      in case ebind (elift r) (\<lambda>_.
              ebind (copy_edges E other d1) (\<lambda>_.
              ebind (elift (DAG_json_config other)) (\<lambda>j.
              eret (d1\<lparr>title_of := title_of other, config_of := Some j\<rparr>)))) s1 of
           (Inr d2, s2) \<Rightarrow> (Inr d2, s2)
         | (Inl e, s2) \<Rightarrow> (Inl e, free_from (brk s) s2))"

definition DAG_clone :: "('z) env_scheme \<Rightarrow> DAG \<Rightarrow> (store, DAG) exec" where
  "DAG_clone E this = DAG_copy E this"

text \<open>
  Copy assignment appends the vertices of the right-hand side to those \<open>*this\<close> has, and then pairs
  the positions of the two vectors; \<open>*this\<close> is changed even if it fails.
\<close>

definition DAG_assign :: "('z) env_scheme \<Rightarrow> DAG \<Rightarrow> DAG \<Rightarrow> store \<Rightarrow> (unit res \<times> DAG) \<times> store" where
  "DAG_assign E this rhs s =
     (let ((r, d1), s1) = copy_vertices E (graph_of rhs) this s
      in case ebind (elift r) (\<lambda>_. copy_edges E rhs d1) s1 of
           (Inl e, s2) \<Rightarrow> ((Inl e, d1), s2)
         | (Inr _, s2) \<Rightarrow>
             (case (config_of d1, config_of rhs) of
                (Some _, Some j) \<Rightarrow> ((Inr (), d1\<lparr>title_of := title_of rhs, config_of := Some j\<rparr>), s2)
              | _ \<Rightarrow> ((Inl NullDeref, d1\<lparr>title_of := title_of rhs\<rparr>), s2)))"

section \<open>Comparing\<close>

fun compare_vertices :: "('z) libuuid_scheme \<Rightarrow> store \<Rightarrow> addr list \<Rightarrow> addr list \<Rightarrow> nat \<Rightarrow> bool \<Rightarrow> bool res" where
  "compare_vertices L s [] rhs index ret = Inr ret"
| "compare_vertices L s (v # vs) rhs index ret =
     rbind (elem_at rhs index) (\<lambda>o'.
       let ret1 = (ret \<and> vertex_eq L (the (vert s v)) (the (vert s o')));
           ret2 = (ret1 \<and> owners s v = owners s o')
       in if \<not> ret2 then Inr ret2 else compare_vertices L s vs rhs (Suc index) ret2)"

text \<open>
  Both operands are cloned and the clones sorted by label, but the comparison then reads the
  operands themselves, so only the failures of cloning are left of the first half.
\<close>

definition DAG_eq :: "('z) env_scheme \<Rightarrow> DAG \<Rightarrow> DAG \<Rightarrow> (store, bool) exec" where
  "DAG_eq E lhs rhs s =
     (let n = brk s;
          (r, s') = ebind (DAG_clone E lhs) (\<lambda>_.
            ebind (DAG_clone E rhs) (\<lambda>_.
            ebind (\<lambda>s. (compare_vertices E s (graph_of lhs) (graph_of rhs) 0
                          (length (graph_of lhs) = length (graph_of rhs)), s)) (\<lambda>ret.
            ebind (\<lambda>s. (Inr (ret \<and> vertex_count lhs = vertex_count rhs \<and>
                             DAG_edge_count lhs s = DAG_edge_count rhs s), s)) (\<lambda>ret.
            ebind (elift (DAG_json_config lhs)) (\<lambda>jl.
            ebind (elift (DAG_json_config rhs)) (\<lambda>jr.
            eret (ret \<and> json_equal E jl jr))))))) s
      in (r, free_from n s'))"

definition DAG_ne :: "('z) env_scheme \<Rightarrow> DAG \<Rightarrow> DAG \<Rightarrow> (store, bool) exec" where
  "DAG_ne E lhs rhs = ebind (DAG_eq E lhs rhs) (\<lambda>ret. eret (\<not> ret))"

end
