(* ===== verification/Dag_Clone.thy ===== *)
theory Dag_Clone
  imports Dag
begin

text \<open>
  Lookup, insertion and the copy constructor of a graph that satisfies the invariant. The copy has
  its vertices at fresh addresses, in the order of the original, and its arcs are the image of the
  original arcs under the bijection of positions; nothing of the original changes.
\<close>

section \<open>Congruence\<close>

lemma succs_cong: "vert t a = vert s a \<Longrightarrow> succs t a = succs s a"
  by (simp add: succs_def)

lemma wf_graph_cong:
  assumes "\<And>a. a \<in> set g \<Longrightarrow> vert t a = vert s a"
  shows "wf_graph t g = wf_graph s g" "arcs t g = arcs s g"
proof -
  have suc: "succs t a = succs s a" if "a \<in> set g" for a
    using assms that by (intro succs_cong) simp
  then show "arcs t g = arcs s g" by (auto simp: arcs_def)
  have "preds t g a = preds s g a" for a
    using suc by (auto simp: preds_def)
  then have "wf_vertex t g a = wf_vertex s g a" if "a \<in> set g" for a
    using that assms suc by (simp add: wf_vertex_def split: option.split)
  moreover have "map (uuid_of t) g = map (uuid_of s) g"
    using assms by (simp add: uuid_of_def)
  ultimately show "wf_graph t g = wf_graph s g"
    unfolding wf_graph_def by metis
qed

section \<open>Lookup and insertion\<close>

lemma find_vertex_in:
  assumes "libuuid_ok L" "wf_graph s (graph_of d)" "a \<in> set (graph_of d)" "v_uuid v = uuid_of s a"
  shows "find_vertex L d v s = Some a"
  unfolding find_vertex_def find_vertex_by_uuid_def assms(4)
  by (rule uuid.find_same) (use assms wf_graph_uuids in auto)

lemma find_vertex_None:
  assumes "libuuid_ok L"
  shows "find_vertex L d v s = None \<longleftrightarrow> v_uuid v \<notin> uuid_of s ` set (graph_of d)"
  unfolding find_vertex_def find_vertex_by_uuid_def using assms by (rule uuid.find_none)

lemma find_vertex_Some:
  assumes "libuuid_ok L" "find_vertex L d v s = Some a"
  shows "a \<in> set (graph_of d)" "uuid_of s a = v_uuid v"
  using assms
  by (auto simp: find_vertex_def find_vertex_by_uuid_def find_Some_iff uuid_eq_iff)

lemma contains_vertex_iff:
  assumes "libuuid_ok L" "\<forall>a \<in> set (graph_of d). vert s a \<noteq> None"
  shows "contains_vertex L d v s \<longleftrightarrow> v_uuid v \<in> uuid_of s ` set (graph_of d)"
proof (cases "find_vertex L d v s")
  case None
  with find_vertex_None [OF assms(1), of d v s] show ?thesis
    by (simp add: contains_vertex_def)
next
  case (Some a)
  with find_vertex_Some [OF assms(1) Some] assms(2) show ?thesis
    by (force simp: contains_vertex_def)
qed

lemma DAGVertex_move_pair: "DAGVertex_move v = (v, snd (DAGVertex_move v))"
  by (simp add: DAGVertex_move_def UUID_move_def)

lemma add_vertex_new:
  assumes "libuuid_ok L" "\<forall>a \<in> set (graph_of d). vert s a \<noteq> None"
    and "v_uuid v \<notin> uuid_of s ` set (graph_of d)"
  shows "add_vertex L d v s =
    ((True, d\<lparr>graph_of := graph_of d @ [brk s]\<rparr>, snd (DAGVertex_move v)),
     s\<lparr>cells := (cells s)(brk s \<mapsto> \<lparr>use_count = 1, obj = v\<rparr>), brk := Suc (brk s)\<rparr>)"
  using assms contains_vertex_iff [OF assms(1,2), of v]
  by (subst add_vertex_def, subst DAGVertex_move_pair) (simp add: make_shared_def)

lemma add_vertex_old:
  assumes "libuuid_ok L" "\<forall>a \<in> set (graph_of d). vert s a \<noteq> None"
    and "v_uuid v \<in> uuid_of s ` set (graph_of d)"
  shows "add_vertex L d v s = ((False, d, v), s)"
  using assms contains_vertex_iff [OF assms(1,2), of v] by (simp add: add_vertex_def)

section \<open>The copies of the vertices\<close>

definition clone_of :: "('z) env_scheme \<Rightarrow> store \<Rightarrow> addr \<Rightarrow> DAGVertex" where
  "clone_of E s a = projr (DAGVertex_clone E (the (vert s a)))"

definition clone_cells :: "('z) env_scheme \<Rightarrow> store \<Rightarrow> addr list \<Rightarrow> store" where
  "clone_cells E s as = s\<lparr>cells := (\<lambda>c. if brk s \<le> c \<and> c < brk s + length as
       then Some \<lparr>use_count = 1, obj = clone_of E s (as ! (c - brk s))\<rparr> else cells s c),
     brk := brk s + length as\<rparr>"

lemma clone_of_props:
  assumes "env_ok E" "vert s a = Some v" "vertex_ok v"
  shows "DAGVertex_clone E v = Inr (clone_of E s a)" "vertex_ok (clone_of E s a)"
    "same_vertex v (clone_of E s a)" "v_edges (clone_of E s a) = []" "v_in (clone_of E s a) = 0"
  using assms by (auto simp: clone_of_def elim!: DAGVertex_clone_ok)

lemma vert_clone_cells:
  "vert (clone_cells E s as) c = (if brk s \<le> c \<and> c < brk s + length as
     then Some (clone_of E s (as ! (c - brk s))) else vert s c)"
  by (simp add: clone_cells_def vert_def)

lemma brk_clone_cells [simp]: "brk (clone_cells E s as) = brk s + length as"
  by (simp add: clone_cells_def)

lemma wf_store_clone_cells:
  assumes "wf_store s"
  shows "wf_store (clone_cells E s as)"
  unfolding wf_store_def
proof (intro allI impI)
  fix a
  assume a: "vert (clone_cells E s as) a \<noteq> None"
  show "a < brk (clone_cells E s as)"
  proof (rule ccontr)
    assume "\<not> a < brk (clone_cells E s as)"
    with a have "vert s a \<noteq> None" "\<not> a < brk s" by (auto simp: vert_clone_cells split: if_splits)
    with assms show False by (simp add: wf_store_def)
  qed
qed

lemma wf_store_less: "wf_store s \<Longrightarrow> vert s a = Some v \<Longrightarrow> a < brk s"
  by (auto simp: wf_store_def)

lemma copy_vertices_ok:
  assumes "env_ok E" "wf_store s"
    and "\<forall>a \<in> set as. \<exists>v. vert s a = Some v \<and> vertex_ok v"
    and "\<forall>a \<in> set (graph_of d). vert s a \<noteq> None"
    and "distinct (map (uuid_of s) as)" "uuid_of s ` set as \<inter> uuid_of s ` set (graph_of d) = {}"
  shows "copy_vertices E as d s =
    ((Inr (), d\<lparr>graph_of := graph_of d @ [brk s..<brk s + length as]\<rparr>), clone_cells E s as)"
  using assms
proof (induction as arbitrary: d s)
  case Nil
  then show ?case by (auto simp: clone_cells_def intro!: store.equality DAG.equality ext)
next
  case (Cons a as)
  from Cons.prems(3) obtain v where v: "vert s a = Some v" "vertex_ok v" by auto
  let ?w = "clone_of E s a"
  note w = clone_of_props [OF Cons.prems(1) v]
  have wu: "v_uuid ?w = uuid_of s a" using w(3) v(1) by (simp add: same_vertex_def uuid_of_def)
  let ?s1 = "s\<lparr>cells := (cells s)(brk s \<mapsto> \<lparr>use_count = 1, obj = ?w\<rparr>), brk := Suc (brk s)\<rparr>"
  let ?d1 = "d\<lparr>graph_of := graph_of d @ [brk s]\<rparr>"
  have old: "vert ?s1 c = vert s c" if "vert s c \<noteq> None" for c
    using that Cons.prems(2) by (auto simp: vert_def wf_store_def)
  then have olduuid: "uuid_of ?s1 c = uuid_of s c" if "vert s c \<noteq> None" for c
    using that by (simp add: uuid_of_def)
  have new: "vert ?s1 (brk s) = Some ?w" by (simp add: vert_def)
  have add: "add_vertex E d ?w s = ((True, ?d1, snd (DAGVertex_move ?w)), ?s1)"
  proof (rule add_vertex_new)
    show "libuuid_ok E" using Cons.prems(1) by blast
    show "v_uuid ?w \<notin> uuid_of s ` set (graph_of d)" using Cons.prems(6) wu by auto
  qed (rule Cons.prems(4))
  have alive: "\<forall>c \<in> set as. vert s c \<noteq> None" using Cons.prems(3) by force
  have "copy_vertices E as ?d1 ?s1 =
      ((Inr (), ?d1\<lparr>graph_of := graph_of ?d1 @ [brk ?s1..<brk ?s1 + length as]\<rparr>), clone_cells E ?s1 as)"
  proof (rule Cons.IH)
    show "wf_store ?s1" using Cons.prems(2) by (auto simp: wf_store_def vert_def less_Suc_eq)
    show "\<forall>c \<in> set as. \<exists>v. vert ?s1 c = Some v \<and> vertex_ok v"
      using Cons.prems(3) alive old by auto
    show "\<forall>c \<in> set (graph_of ?d1). vert ?s1 c \<noteq> None"
      using Cons.prems(4) old new by auto
    have mp: "map (uuid_of ?s1) as = map (uuid_of s) as"
      using alive olduuid by simp
    show "distinct (map (uuid_of ?s1) as)" unfolding mp using Cons.prems(5) by simp
    have "uuid_of ?s1 ` set as = uuid_of s ` set as"
      by (metis mp set_map)
    moreover have "uuid_of ?s1 ` set (graph_of d) = uuid_of s ` set (graph_of d)"
      using Cons.prems(4) olduuid by (intro image_cong) auto
    moreover have "uuid_of ?s1 (brk s) = uuid_of s a" using new wu by (simp add: uuid_of_def)
    ultimately show "uuid_of ?s1 ` set as \<inter> uuid_of ?s1 ` set (graph_of ?d1) = {}"
      using Cons.prems(5,6) by auto
  qed (use Cons.prems in auto)
  moreover have "clone_cells E ?s1 as = clone_cells E s (a # as)"
  proof -
    have "clone_of E ?s1 (as ! i) = clone_of E s (as ! i)" if "i < length as" for i
      using that alive old by (simp add: clone_of_def)
    then have "cells (clone_cells E ?s1 as) c = cells (clone_cells E s (a # as)) c" for c
      by (cases "c = brk s") (auto simp: clone_cells_def nth_Cons')
    then show ?thesis
      by (intro store.equality ext) (auto simp: clone_cells_def)
  qed
  moreover have "[brk s..<brk s + length (a # as)] = brk s # [Suc (brk s)..<Suc (brk s) + length as]"
    by (simp add: upt_conv_Cons del: upt_Suc)
  ultimately show ?case
    using v(1) w(1) add by (simp del: upt_Suc)
qed

section \<open>The copies of the edges\<close>

lemma clone_connection_ok:
  assumes "env_ok E" "e_connection e = Some b" "vert s b = Some w" "vertex_ok w"
  shows "\<exists>c. clone_connection E s e = Inr c \<and> v_uuid (c_vertex c) = uuid_of s b"
proof -
  from assms(1,4) obtain w1 where w1: "DAGVertex_clone E w = Inr w1" "vertex_ok w1" "same_vertex w w1"
    by (rule DAGVertex_clone_ok)
  from assms(1) w1(2) obtain w2 where w2: "DAGVertex_clone E w1 = Inr w2" "same_vertex w1 w2"
    by (rule DAGVertex_clone_ok)
  have "v_uuid w2 = v_uuid w" using w1(3) w2(2) by (simp add: same_vertex_def)
  with assms w1 w2 show ?thesis
    by (simp add: clone_connection_def DAGVertex_connection_new_def reset_incomming_edge_count_def
        incomming_edge_count_def uuid_of_def)
qed

lemma clone_all_connections_ok:
  assumes "env_ok E" "wf_graph s g" "a \<in> set g" "vert s a = Some v"
  shows "\<exists>cs. clone_all_connections E v s = Inr cs \<and>
    (v_uuid \<circ> c_vertex) ` set cs = {uuid_of s b | b. (a, b) \<in> arcs s g}"
proof -
  have "\<exists>c. clone_connection E s e = Inr c \<and> v_uuid (c_vertex c) = uuid_of s (the (e_connection e))"
    if "e \<in> set (v_edges v)" for e
  proof -
    from that assms(4) have "e_connection e \<in> set (succs s a)" by (simp add: succs_def)
    with assms(2,3) obtain b where b: "b \<in> set g" "e_connection e = Some b"
      using wf_graph_succ_in by blast
    from assms(2) b(1) obtain w where "vert s b = Some w" "vertex_ok w" by (rule wf_graphE)
    with assms(1) b(2) clone_connection_ok [of E e b s w] show ?thesis by simp
  qed
  then obtain cs where cs: "rmap (clone_connection E s) (v_edges v) = Inr cs"
    "list_all2 (\<lambda>e c. v_uuid (c_vertex c) = uuid_of s (the (e_connection e))) (v_edges v) cs"
    using rmap_list_all2 [of "v_edges v" "clone_connection E s"
        "\<lambda>e c. v_uuid (c_vertex c) = uuid_of s (the (e_connection e))"] by auto
  from cs(2) have "map (v_uuid \<circ> c_vertex) cs = map (\<lambda>e. uuid_of s (the (e_connection e))) (v_edges v)"
    by (induction rule: list_all2_induct) auto
  then have "(v_uuid \<circ> c_vertex) ` set cs = (\<lambda>e. uuid_of s (the (e_connection e))) ` set (v_edges v)"
    by (metis set_map)
  also have "\<dots> = {uuid_of s b | b. (a, b) \<in> arcs s g}"
  proof -
    have "\<exists>b. e_connection e = Some b" if "e \<in> set (v_edges v)" for e
      using that assms wf_graph_succ_in [of s g a "e_connection e"] by (auto simp: succs_def)
    then show ?thesis
      using assms(3,4) by (force simp: arcs_def succs_def)
  qed
  finally show ?thesis using cs(1) by (simp add: clone_all_connections_def)
qed

lemma clone_connections_ok:
  assumes env: "env_ok E" and wf: "wf_graph s g" "wf_graph s (graph_of d)"
    and ft: "from \<in> set g" "to \<in> set (graph_of d)" "uuid_of s from = uuid_of s to"
    and phi: "\<And>b. b \<in> set g \<Longrightarrow> f b \<in> set (graph_of d) \<and> uuid_of s (f b) = uuid_of s b"
  shows "\<exists>s'. clone_connections E d from to s = (Inr (), s') \<and> wf_graph s' (graph_of d) \<and>
    rewires (set (graph_of d)) s s' \<and>
    arcs s' (graph_of d) = arcs s (graph_of d) \<union> {(to, f b) | b. (from, b) \<in> arcs s g}"
proof -
  let ?g = "graph_of d"
  from wf(1) ft(1) obtain v where v: "vert s from = Some v" using wf_graph_alive by blast
  from clone_all_connections_ok [OF env wf(1) ft(1) v] obtain cs where
    cs: "clone_all_connections E v s = Inr cs"
      "(v_uuid \<circ> c_vertex) ` set cs = {uuid_of s b | b. (from, b) \<in> arcs s g}" by blast
  define new where "new xs = {(to, x) | x. x \<in> set ?g \<and> uuid_of s x \<in> (v_uuid \<circ> c_vertex) ` set xs}"
    for xs :: "DAGVertex_connection list"
  let ?body = "\<lambda>connection.
        ebind (\<lambda>s. (Inr (find_vertex E d (c_vertex connection) s), s)) (\<lambda>find.
        ebind (\<lambda>s. (cpp_assert E (\<not> expired s find), s)) (\<lambda>_.
        ebind (vertex_connect E to find) (\<lambda>_. eret ())))"
  let ?I = "\<lambda>xs t. wf_graph t ?g \<and> rewires (set ?g) s t \<and> arcs t ?g = arcs s ?g \<union> new xs"
  have step: "\<exists>t'. ?body c t = (Inr (), t') \<and> ?I (xs @ [c]) t'"
    if split: "cs = xs @ c # ys" and I: "?I xs t" for xs c ys t
  proof -
    from I have wft: "wf_graph t ?g" and rw: "rewires (set ?g) s t" and ar: "arcs t ?g = arcs s ?g \<union> new xs"
      by blast+
    have "v_uuid (c_vertex c) \<in> (v_uuid \<circ> c_vertex) ` set cs" using split by simp
    with cs(2) obtain b where b: "(from, b) \<in> arcs s g" "v_uuid (c_vertex c) = uuid_of s b" by auto
    then have "b \<in> set g" using arcs_in_graph [OF wf(1)] by auto
    with phi have fb: "f b \<in> set ?g" "uuid_of s (f b) = uuid_of s b" by auto
    have find: "find_vertex E d (c_vertex c) t = Some (f b)"
      by (rule find_vertex_in) (use env wft fb b rewires_uuid [OF rw] in auto)
    have alive: "vert t (f b) \<noteq> None" using wft fb(1) wf_graph_alive by blast
    obtain t' r where t': "vertex_connect E to (Some (f b)) t = (Inr r, t')" "wf_graph t' ?g"
      "arcs t' ?g = insert (to, f b) (arcs t ?g)" "rewires (set ?g) t t'"
      by (rule vertex_connect_graph [OF _ wft ft(2) fb(1)]) (use env in auto)
    have "new (xs @ [c]) = insert (to, f b) (new xs)"
      using fb b(2) wf_graph_uuid_inj [OF wf(2) _ fb(1)] by (auto simp: new_def)
    with t' ar rw have "?I (xs @ [c]) t'" by (auto intro: rewires_trans)
    moreover have "?body c t = (Inr (), t')"
      using find alive t'(1) by (simp add: ebind_def)
    ultimately show ?thesis by blast
  qed
  have "\<exists>t. efor ?body cs s = (Inr (), t) \<and> ?I cs t"
    by (rule efor_rule [where I = ?I]) (use wf(2) step in \<open>auto simp: new_def\<close>)
  then obtain t where t: "efor ?body cs s = (Inr (), t)" "?I cs t" by blast
  have "new cs = {(to, f b) | b. (from, b) \<in> arcs s g}"
  proof -
    have "(\<exists>b. x = f b \<and> (from, b) \<in> arcs s g) \<longleftrightarrow> x \<in> set ?g \<and> (\<exists>b. uuid_of s x = uuid_of s b \<and> (from, b) \<in> arcs s g)" for x
    proof
      assume "\<exists>b. x = f b \<and> (from, b) \<in> arcs s g"
      then show "x \<in> set ?g \<and> (\<exists>b. uuid_of s x = uuid_of s b \<and> (from, b) \<in> arcs s g)"
        using arcs_in_graph [OF wf(1)] phi by blast
    next
      assume x: "x \<in> set ?g \<and> (\<exists>b. uuid_of s x = uuid_of s b \<and> (from, b) \<in> arcs s g)"
      then obtain b where b: "uuid_of s x = uuid_of s b" "(from, b) \<in> arcs s g" by blast
      then have "b \<in> set g" using arcs_in_graph [OF wf(1)] by auto
      with phi b x wf_graph_uuid_inj [OF wf(2), of x "f b"] have "x = f b" by auto
      with b show "\<exists>b. x = f b \<and> (from, b) \<in> arcs s g" by blast
    qed
    then show ?thesis unfolding new_def cs(2) by blast
  qed
  moreover have "clone_connections E d from to s = (Inr (), t)"
    using env ft(3) v cs(1) t(1) by (simp add: clone_connections_def ebind_def uuid_eq_iff env_ok_libuuid)
  ultimately show ?thesis using t(2) by auto
qed

section \<open>The copy constructor\<close>

definition copy_addr :: "store \<Rightarrow> addr list \<Rightarrow> addr \<Rightarrow> addr" where
  "copy_addr s g a = brk s + index_of g a"

lemma copy_addr_nth [simp]: "distinct g \<Longrightarrow> i < length g \<Longrightarrow> copy_addr s g (g ! i) = brk s + i"
  by (simp add: copy_addr_def)

lemma copy_addr_less: "a \<in> set g \<Longrightarrow> copy_addr s g a < brk s + length g"
  by (simp add: copy_addr_def index_of_less)

lemma inj_on_copy_addr: "inj_on (copy_addr s g) (set g)"
  by (auto simp: inj_on_def copy_addr_def dest: index_of_inj)

lemma set_copy_addr:
  assumes "distinct g"
  shows "set [brk s..<brk s + length g] = copy_addr s g ` set g"
proof
  show "copy_addr s g ` set g \<subseteq> set [brk s..<brk s + length g]"
    by (auto simp: copy_addr_def index_of_less)
  show "set [brk s..<brk s + length g] \<subseteq> copy_addr s g ` set g"
  proof
    fix x assume "x \<in> set [brk s..<brk s + length g]"
    then have "x = copy_addr s g (g ! (x - brk s))" "x - brk s < length g" using assms by auto
    then show "x \<in> copy_addr s g ` set g" by (metis imageI nth_mem)
  qed
qed

text \<open>Store \<open>t\<close> and graph \<open>d'\<close> hold a copy of the graph \<open>d\<close> of store \<open>s\<close>, made after \<open>s\<close>.\<close>

definition copied :: "store \<Rightarrow> DAG \<Rightarrow> store \<Rightarrow> DAG \<Rightarrow> bool" where
  "copied s d t d' \<longleftrightarrow>
     graph_of d' = [brk s..<brk s + length (graph_of d)] \<and> title_of d' = title_of d \<and>
     config_of d' = config_of d \<and> brk t = brk s + length (graph_of d) \<and>
     wf_store t \<and> wf_graph t (graph_of d') \<and>
     arcs t (graph_of d') = map_prod (copy_addr s (graph_of d)) (copy_addr s (graph_of d)) ` arcs s (graph_of d) \<and>
     (\<forall>c < brk s. cells t c = cells s c) \<and>
     (\<forall>i < length (graph_of d). \<exists>v w. vert s (graph_of d ! i) = Some v \<and> vert t (brk s + i) = Some w \<and>
        same_vertex v w \<and> owners t (brk s + i) = 1)"

lemma copiedD:
  assumes "copied s d t d'"
  shows "graph_of d' = [brk s..<brk s + length (graph_of d)]" "title_of d' = title_of d"
    "config_of d' = config_of d" "brk t = brk s + length (graph_of d)"
    "wf_store t" "wf_graph t (graph_of d')"
    "arcs t (graph_of d') = map_prod (copy_addr s (graph_of d)) (copy_addr s (graph_of d)) ` arcs s (graph_of d)"
    "\<And>c. c < brk s \<Longrightarrow> cells t c = cells s c"
  using assms unfolding copied_def by blast+

lemma uuid_of_clone_cells:
  assumes "env_ok E" "wf_graph s g" "i < length g"
  shows "uuid_of (clone_cells E s g) (brk s + i) = uuid_of s (g ! i)"
proof -
  obtain v where v: "vert s (g ! i) = Some v" "vertex_ok v" by (rule wf_graph_nth [OF assms(2,3)])
  then show ?thesis
    using clone_of_props(3) [OF assms(1) v] assms(3)
    by (simp add: uuid_of_def vert_clone_cells same_vertex_def)
qed

lemma wf_graph_clone_cells:
  assumes "env_ok E" "wf_store s" "wf_graph s g"
  shows "wf_graph (clone_cells E s g) [brk s..<brk s + length g]"
    "arcs (clone_cells E s g) [brk s..<brk s + length g] = {}"
proof -
  let ?t = "clone_cells E s g" and ?g = "[brk s..<brk s + length g]"
  have v: "\<exists>w. vert ?t (brk s + i) = Some w \<and> vertex_ok w \<and> v_edges w = [] \<and> v_in w = 0"
    if "i < length g" for i
  proof -
    obtain v where v: "vert s (g ! i) = Some v" "vertex_ok v" by (rule wf_graph_nth [OF assms(3) \<open>i < length g\<close>])
    with clone_of_props [OF assms(1) v] that show ?thesis by (simp add: vert_clone_cells)
  qed
  have all: "\<exists>w. vert ?t c = Some w \<and> vertex_ok w \<and> v_edges w = [] \<and> v_in w = 0" if "c \<in> set ?g" for c
    using v [of "c - brk s"] that by auto
  have suc: "succs ?t c = []" if "c \<in> set ?g" for c
    using all [OF that] by (auto simp: succs_def)
  then show arcs: "arcs ?t ?g = {}" by (auto simp: arcs_def)
  have "wf_vertex ?t ?g c" if "c \<in> set ?g" for c
    using all [OF that] suc [OF that] arcs by (auto simp: wf_vertex_def preds_arcs)
  moreover have "map (uuid_of ?t) ?g = map (uuid_of s) g"
    using uuid_of_clone_cells [OF assms(1,3)] by (intro nth_equalityI) auto
  then have "distinct (map (uuid_of ?t) ?g)"
    using wf_graph_uuids [OF assms(3)] by (simp del: map_eq_conv)
  ultimately show "wf_graph ?t ?g"
    using wf_graph_length [OF assms(3)] by (simp add: wf_graph_def del: upt_Suc)
qed

lemma wf_graph_old_cells:
  assumes "wf_store s" "wf_graph s g" "\<And>c. c < brk s \<Longrightarrow> cells t c = cells s c"
  shows "wf_graph t g" "arcs t g = arcs s g" "\<And>a. a \<in> set g \<Longrightarrow> vert t a = vert s a"
proof -
  have eq: "vert t a = vert s a" if a: "a \<in> set g" for a
  proof -
    from wf_graph_alive [OF assms(2) a] assms(1) have "a < brk s" by (auto simp: wf_store_def)
    with assms(3) show ?thesis by (simp add: vert_def)
  qed
  with assms(2) show "wf_graph t g" "arcs t g = arcs s g"
    by (simp_all add: wf_graph_cong [of g t s])
  show "\<And>a. a \<in> set g \<Longrightarrow> vert t a = vert s a" by (rule eq)
qed

lemma copy_edges_ok:
  fixes s1 :: store
  assumes env: "env_ok E" and wf: "wf_graph s1 (graph_of other)" "wf_graph s1 (graph_of d)"
    and len: "length (graph_of d) = length (graph_of other)"
    and disj: "set (graph_of other) \<inter> set (graph_of d) = {}"
    and none: "arcs s1 (graph_of d) = {}"
    and uu: "\<And>i. i < length (graph_of d) \<Longrightarrow> uuid_of s1 (graph_of d ! i) = uuid_of s1 (graph_of other ! i)"
  defines "f \<equiv> (\<lambda>a. graph_of d ! index_of (graph_of other) a)"
  shows "\<exists>t. copy_edges E other d s1 = (Inr (), t) \<and> wf_graph t (graph_of d) \<and>
    rewires (set (graph_of d)) s1 t \<and> arcs t (graph_of d) = map_prod f f ` arcs s1 (graph_of other)"
proof -
  let ?g = "graph_of d" and ?o = "graph_of other"
  have dist: "distinct ?o" using wf(1) by (rule wf_graph_distinct)
  define upto where "upto xs = {(f a, f b) | a b. (a, b) \<in> arcs s1 ?o \<and> index_of ?o a \<in> set xs}" for xs
  let ?body = "\<lambda>i. ebind (elift (elem_at ?o i)) (\<lambda>from. ebind (elift (elem_at ?g i)) (\<lambda>to.
      clone_connections E d from to))"
  let ?I = "\<lambda>xs t. wf_graph t ?g \<and> rewires (set ?g) s1 t \<and> arcs t ?g = upto xs"
  have step: "\<exists>t'. ?body i t = (Inr (), t') \<and> ?I (xs @ [i]) t'"
    if split: "[0..<length ?g] = xs @ i # ys" and I: "?I xs t" for xs i ys t
  proof -
    from I have wft: "wf_graph t ?g" and rw: "rewires (set ?g) s1 t" and ar: "arcs t ?g = upto xs"
      by blast+
    have "i \<in> set [0..<length ?g]" unfolding split by simp
    then have i: "i < length ?g" "i < length ?o" using len by auto
    have same: "vert t a = vert s1 a" if "a \<in> set ?o" for a
      using that disj by (intro rewires_vert_out [OF rw]) auto
    have wfo: "wf_graph t ?o" and aro: "arcs t ?o = arcs s1 ?o"
      using wf(1) wf_graph_cong [of ?o t s1] same by auto
    have "\<exists>t'. clone_connections E d (?o ! i) (?g ! i) t = (Inr (), t') \<and> wf_graph t' ?g \<and>
      rewires (set ?g) t t' \<and> arcs t' ?g = arcs t ?g \<union> {(?g ! i, f b) | b. (?o ! i, b) \<in> arcs t ?o}"
    proof (rule clone_connections_ok [OF env wfo wft])
      show "uuid_of t (?o ! i) = uuid_of t (?g ! i)"
        using uu [OF i(1)] by (simp add: rewires_uuid [OF rw])
      show "f b \<in> set ?g \<and> uuid_of t (f b) = uuid_of t b" if b: "b \<in> set ?o" for b
      proof -
        have "index_of ?o b < length ?g" using b len by (simp add: index_of_less)
        with uu [OF this] b show ?thesis by (simp add: f_def rewires_uuid [OF rw])
      qed
    qed (use i in auto)
    moreover have "index_of ?o a = i \<longleftrightarrow> a = ?o ! i" if "(a, b) \<in> arcs s1 ?o" for a b
      using that arcs_in_graph [OF wf(1)] i dist by auto
    then have "(a, b) \<in> arcs s1 ?o \<and> index_of ?o a \<in> set (xs @ [i]) \<longleftrightarrow>
        (a, b) \<in> arcs s1 ?o \<and> index_of ?o a \<in> set xs \<or> (a, b) \<in> arcs s1 ?o \<and> a = ?o ! i" for a b
      by auto
    then have "upto (xs @ [i]) = upto xs \<union> {(f (?o ! i), f b) | b. (?o ! i, b) \<in> arcs s1 ?o}"
      unfolding upto_def by blast
    then have "upto (xs @ [i]) = upto xs \<union> {(?g ! i, f b) | b. (?o ! i, b) \<in> arcs s1 ?o}"
      using i dist by (simp add: f_def)
    ultimately show ?thesis
      using i ar rw aro by (auto simp: elem_at_def intro: rewires_trans)
  qed
  have "\<exists>t. efor ?body [0..<length ?g] s1 = (Inr (), t) \<and> ?I [0..<length ?g] t"
    by (rule efor_rule [where I = ?I]) (use wf(2) none step in \<open>auto simp: upto_def\<close>)
  moreover have "upto [0..<length ?g] = map_prod f f ` arcs s1 ?o"
    using arcs_in_graph [OF wf(1)] len by (force simp: upto_def index_of_less)
  ultimately show ?thesis by (simp add: copy_edges_def)
qed

lemma DAG_copy_ok:
  assumes env: "env_ok E" and st: "wf_store s" and wf: "wf_graph s (graph_of d)"
    and cfg: "config_of d = Some j"
  shows "\<exists>d' t. DAG_copy E d s = (Inr d', t) \<and> copied s d t d'"
proof -
  let ?g = "graph_of d" and ?n = "brk s"
  let ?g' = "[?n..<?n + length ?g]" and ?s1 = "clone_cells E s ?g"
  let ?d0 = "\<lparr>graph_of = [], title_of = '''', config_of = Some JNull\<rparr>"
  let ?d1 = "?d0\<lparr>graph_of := ?g'\<rparr>"
  have cv: "copy_vertices E ?g ?d0 s = ((Inr (), ?d1), ?s1)"
    using copy_vertices_ok [OF env st, of ?g ?d0] wf wf_graph_uuids by (fastforce elim: wf_graphE)
  have oldc: "cells ?s1 c = cells s c" if "c < ?n" for c
    using that by (simp add: clone_cells_def)
  note old = wf_graph_old_cells [OF st wf oldc]
  have less: "a < ?n" if "a \<in> set ?g" for a
    using wf_graph_alive [OF wf that] st by (auto simp: wf_store_def)
  have "\<exists>t. copy_edges E d ?d1 ?s1 = (Inr (), t) \<and> wf_graph t (graph_of ?d1) \<and>
    rewires (set (graph_of ?d1)) ?s1 t \<and>
    arcs t (graph_of ?d1) = map_prod (\<lambda>a. graph_of ?d1 ! index_of ?g a) (\<lambda>a. graph_of ?d1 ! index_of ?g a) ` arcs ?s1 ?g"
  proof (rule copy_edges_ok [OF env])
    show "uuid_of ?s1 (graph_of ?d1 ! i) = uuid_of ?s1 (?g ! i)" if "i < length (graph_of ?d1)" for i
      using that uuid_of_clone_cells [OF env wf] old(3) by (simp add: uuid_of_def)
  qed (use old wf_graph_clone_cells [OF env st wf] less in force)+
  then obtain t where t: "copy_edges E d ?d1 ?s1 = (Inr (), t)" "wf_graph t ?g'"
    "rewires (set ?g') ?s1 t" "arcs t ?g' = map_prod (\<lambda>a. ?g' ! index_of ?g a) (\<lambda>a. ?g' ! index_of ?g a) ` arcs s ?g"
    using old(2) by auto
  have "arcs t ?g' = map_prod (copy_addr s ?g) (copy_addr s ?g) ` arcs s ?g"
    unfolding t(4)
    by (intro image_cong) (auto simp: copy_addr_def index_of_less dest!: subsetD [OF arcs_in_graph [OF wf]])
  moreover have "cells t c = cells s c" if "c < ?n" for c
    using rewires_cells [OF t(3), of c] oldc that by auto
  moreover have "\<exists>v w. vert s (?g ! i) = Some v \<and> vert t (?n + i) = Some w \<and> same_vertex v w \<and> owners t (?n + i) = 1"
    if i: "i < length ?g" for i
  proof -
    obtain v where v: "vert s (?g ! i) = Some v" "vertex_ok v" by (rule wf_graph_nth [OF wf i])
    note cl = clone_of_props [OF env v]
    have "vert ?s1 (?n + i) = Some (clone_of E s (?g ! i))" using i by (simp add: vert_clone_cells)
    from rewires_vert [OF t(3) this] obtain w where w: "vert t (?n + i) = Some w"
      "w\<lparr>v_edges := [], v_in := 0\<rparr> = (clone_of E s (?g ! i))\<lparr>v_edges := [], v_in := 0\<rparr>"
      "owners t (?n + i) = owners ?s1 (?n + i)" .
    moreover have "owners ?s1 (?n + i) = 1" using i by (simp add: owners_def clone_cells_def)
    ultimately show ?thesis
      using v(1) same_vertex_trans [OF cl(3) strip_vertex_eqD(5) [OF w(2)]] by auto
  qed
  moreover have "wf_store t" "brk t = ?n + length ?g"
    using rewires_wf_store [OF t(3)] wf_store_clone_cells [OF st] rewires_brk [OF t(3)] by auto
  moreover have "DAG_copy E d s = (Inr (?d1\<lparr>title_of := title_of d, config_of := Some j\<rparr>), t)"
    using cv t(1) cfg by (simp add: DAG_copy_def DAG_json_config_def ebind_def)
  ultimately show ?thesis
    using t(2) cfg by (auto simp: copied_def simp del: upt_Suc)
qed

end
