(* ===== verification/Dag_Sort.thy ===== *)
theory Dag_Sort
  imports Dag_Clone
begin

text \<open>
  The topological sort of \<open>lib/dag_algorithms.cxx\<close>: Kahn's algorithm on the graph itself. Taking a
  vertex disconnects its edges one by one, and a target whose counter drops to zero joins the queue.
  The sort returns \<open>true\<close> when it could \<^emph>\<open>not\<close> place every vertex, that is, when there is a cycle.
\<close>

section \<open>The program\<close>

definition dag_vertices_with_no_incomming_edges :: "DAG \<Rightarrow> store \<Rightarrow> addr list" where
  "dag_vertices_with_no_incomming_edges g s =
     linear_traversal (\<lambda>v output. if \<not> has_incomming_edges (the (vert s v)) then output @ [v] else output) g []"

text \<open>The visitor of the sort, on edge number \<open>i\<close> of \<open>cur\<close>.\<close>

definition sort_visit :: "('z) env_scheme \<Rightarrow> addr \<Rightarrow> nat \<Rightarrow> addr list \<Rightarrow> (store, addr list) exec" where
  "sort_visit E cur i Q s =
     (case vert s cur of
        None \<Rightarrow> (Inl NullDeref, s)
      | Some v \<Rightarrow>
          (let e = v_edges v ! i;
               m = lock s (e_connection e);
               ((_, e1), s1) = connect_to None e s;
               s2 = upd_vertex cur (\<lambda>v. v\<lparr>v_edges := (v_edges v)[i := e1]\<rparr>) s1
           in (rbind (cpp_assert E (m \<noteq> None)) (\<lambda>_.
                 case m of
                   None \<Rightarrow> Inl NullDeref
                 | Some m \<Rightarrow> Inr (if \<not> has_incomming_edges (the (vert s2 m)) then Q @ [m] else Q)), s2)))"

definition sort_visit_all :: "('z) env_scheme \<Rightarrow> addr \<Rightarrow> addr list \<Rightarrow> (store, addr list) exec" where
  "sort_visit_all E cur Q s =
     (case vert s cur of
        None \<Rightarrow> (Inl NullDeref, s)
      | Some v \<Rightarrow> efold (sort_visit E cur) [0..<edge_count v] Q s)"

text \<open>
  The loop on the queue. Every push disconnects an edge for good, so the queue's length and the
  number of edges of all vertices bound the iterations.
\<close>

fun sort_loop :: "('z) env_scheme \<Rightarrow> nat \<Rightarrow> addr list \<Rightarrow> addr list \<Rightarrow> (store, addr list) exec" where
  "sort_loop E n L [] = eret L"
| "sort_loop E 0 L (cur # Q) = eraise OutOfFuel"
| "sort_loop E (Suc n) L (cur # Q) = ebind (sort_visit_all E cur Q) (sort_loop E n (L @ [cur]))"

definition sort_fuel :: "DAG \<Rightarrow> store \<Rightarrow> nat" where
  "sort_fuel g s = length (graph_of g) +
     (\<Sum>a \<leftarrow> [0..<brk s]. case vert s a of None \<Rightarrow> 0 | Some v \<Rightarrow> edge_count v)"

definition dag_topological_sort :: "('z) env_scheme \<Rightarrow> DAG \<Rightarrow> (store, bool \<times> DAGVertex list) exec" where
  "dag_topological_sort E g s =
     (let Q = dag_vertices_with_no_incomming_edges g s
      in ebind (sort_loop E (sort_fuel g s) [] Q) (\<lambda>L.
         let ret = (length L \<noteq> vertex_count g)
         in ebind (\<lambda>s. (rmap (\<lambda>v. DAGVertex_clone E (the (vert s v))) L, s)) (\<lambda>sorted_vertices.
            eret (ret, sorted_vertices))) s)"

lemma no_incomming_filter:
  "dag_vertices_with_no_incomming_edges g s = filter (\<lambda>a. \<not> has_incomming_edges (the (vert s a))) (graph_of g)"
proof -
  have "fold (\<lambda>v output. if P v then output @ [v] else output) xs ys = ys @ filter P xs" for P ys and xs :: "addr list"
    by (induction xs arbitrary: ys) auto
  then show ?thesis by (simp add: dag_vertices_with_no_incomming_edges_def linear_traversal_def)
qed

section \<open>The reference order\<close>

text \<open>
  Kahn's algorithm on a fixed function from vertices to their successors, without counters and without a store:
  a successor of the vertex just placed is queued if all its predecessors are placed. \<open>kahn_order\<close> is the order
  that \<open>dag_topological_sort\<close> is shown to compute.
\<close>

definition targets :: "store \<Rightarrow> addr \<Rightarrow> addr list" where
  "targets s a = List.map_filter id (succs s a)"

definition all_placed :: "('a \<Rightarrow> 'a list) \<Rightarrow> 'a list \<Rightarrow> 'a list \<Rightarrow> 'a \<Rightarrow> bool" where
  "all_placed S g L b \<longleftrightarrow> list_all (\<lambda>a. b \<in> set (S a) \<longrightarrow> a \<in> set L) g"

fun kahn :: "('a \<Rightarrow> 'a list) \<Rightarrow> 'a list \<Rightarrow> nat \<Rightarrow> 'a list \<Rightarrow> 'a list \<Rightarrow> 'a list" where
  "kahn S g n L [] = L"
| "kahn S g 0 L (c # Q) = L"
| "kahn S g (Suc n) L (c # Q) = kahn S g n (L @ [c]) (Q @ filter (all_placed S g (L @ [c])) (S c))"

definition kahn_order :: "store \<Rightarrow> addr list \<Rightarrow> addr list" where
  "kahn_order s g = kahn (targets s) g (length g) [] (filter (all_placed (targets s) g []) g)"

lemma set_targets: "b \<in> set (targets s a) \<longleftrightarrow> Some b \<in> set (succs s a)"
  by (force simp: targets_def List.map_filter_def)

lemma targets_the: "set (succs s a) \<subseteq> Some ` A \<Longrightarrow> targets s a = map the (succs s a)"
  by (force simp: targets_def List.map_filter_def intro: arg_cong [of _ _ "map the"] filter_True)

lemma all_placed_preds: "all_placed (targets s) g L b \<longleftrightarrow> preds s g b \<subseteq> set L"
  by (auto simp: all_placed_def list_all_iff set_targets preds_def)

section \<open>Removing one arc\<close>

definition unlink :: "addr \<Rightarrow> nat \<Rightarrow> addr \<Rightarrow> store \<Rightarrow> store" where
  "unlink a i b s =
     upd_vertex a (\<lambda>v. v\<lparr>v_edges := (v_edges v)[i := (v_edges v ! i)\<lparr>e_connection := None\<rparr>]\<rparr>)
       (upd_vertex b sub_incomming_edge s)"

lemma rewires_unlink: "a \<in> A \<Longrightarrow> b \<in> A \<Longrightarrow> rewires A s (unlink a i b s)"
  unfolding unlink_def
  by (rule rewires_trans; rule rewires_upd_vertex) (simp_all add: sub_incomming_edge_def)

lemma succs_unlink:
  "succs (unlink a i b s) c = (if c = a then (succs s a)[i := None] else succs s c)"
  by (cases "i < length (succs s a)")
    (auto simp: succs_def unlink_def sub_incomming_edge_def map_update split: option.splits)

lemma v_in_unlink:
  "map_option v_in (vert (unlink a i b s) c) =
     map_option (\<lambda>v. v_in v - (if c = b then 1 else 0)) (vert s c)"
  by (auto simp: unlink_def sub_incomming_edge_def option.map_comp comp_def)

lemma sort_visit_unlink:
  assumes "vert s a = Some v" "i < length (v_edges v)" "succs s a ! i = Some b" "vert s b = Some w"
  shows "sort_visit E a i Q s =
    (Inr (if \<not> has_incomming_edges (the (vert (unlink a i b s) b)) then Q @ [b] else Q), unlink a i b s)"
proof -
  have e: "e_connection (v_edges v ! i) = Some b" using assms(1-3) by (simp add: succs_def)
  have ct: "connect_to None (v_edges v ! i) s =
      ((False, (v_edges v ! i)\<lparr>e_connection := None\<rparr>), upd_vertex b sub_incomming_edge s)"
    using e assms(4) by (simp add: connect_to_def)
  have "upd_vertex a (\<lambda>u. u\<lparr>v_edges := (v_edges u)[i := (v_edges v ! i)\<lparr>e_connection := None\<rparr>]\<rparr>)
      (upd_vertex b sub_incomming_edge s) = unlink a i b s"
    using assms(1) by (auto simp: unlink_def upd_vertex_def vert_def sub_incomming_edge_def)
  with assms e ct show ?thesis by (simp add: sort_visit_def Let_def del: vert_upd_vertex)
qed

lemma arcs_unlink:
  assumes "a \<in> set g" "i < length (succs s a)" "succs s a ! i = Some b"
    and "\<And>j. j < length (succs s a) \<Longrightarrow> succs s a ! j = Some b \<Longrightarrow> j = i"
  shows "arcs (unlink a i b s) g = arcs s g - {(a, b)}"
proof -
  have "Some c \<in> set ((succs s a)[i := None]) \<longleftrightarrow> Some c \<in> set (succs s a) \<and> c \<noteq> b" for c
  proof (cases "c = b")
    case True
    have "Some b \<notin> set ((succs s a)[i := None])"
      using assms(2,4) by (metis in_set_conv_nth length_list_update nth_list_update option.simps(3))
    with True show ?thesis by blast
  next
    case False
    then show ?thesis using in_set_list_update_other [of i "succs s a" "Some c" None] assms(2,3) by auto
  qed
  then have "Some c \<in> set (succs (unlink a i b s) x) \<longleftrightarrow> Some c \<in> set (succs s x) \<and> (x, c) \<noteq> (a, b)" for x c
    by (cases "x = a") (simp_all add: succs_unlink)
  then show ?thesis unfolding arcs_def by blast
qed

section \<open>The invariant of the loop\<close>

text \<open>
  \<open>R\<close> is the relation that is left: the counters count its arcs, and the vertices placed or waiting
  are those it has no arc into.
\<close>

definition sort_state :: "store \<Rightarrow> addr list \<Rightarrow> (addr \<times> addr) set \<Rightarrow> addr list \<Rightarrow> store \<Rightarrow> bool" where
  "sort_state s0 g R LQ s \<longleftrightarrow> rewires (set g) s0 s \<and> arcs s g = R \<and>
     (\<forall>b \<in> set g. map_option v_in (vert s b) = Some (of_nat (card (preds s g b)))) \<and>
     distinct LQ \<and> set LQ = {b \<in> set g. preds s g b = {}}"

lemma sort_visit_state:
  assumes st: "sort_state s0 g R (L @ Q) s" and g: "length g < 2 ^ 64" and ab: "a \<in> set g" "b \<in> set g"
    and i: "i < length (succs s a)" "succs s a ! i = Some b"
      "\<And>j. j < length (succs s a) \<Longrightarrow> succs s a ! j = Some b \<Longrightarrow> j = i"
  defines "Q' \<equiv> if preds s g b \<subseteq> {a} then Q @ [b] else Q"
  shows "sort_visit E a i Q s = (Inr Q', unlink a i b s) \<and>
    sort_state s0 g (R - {(a, b)}) (L @ Q') (unlink a i b s)"
proof -
  let ?t = "unlink a i b s"
  from st have rw: "rewires (set g) s0 s" and R: "arcs s g = R"
    and cnt: "\<And>c. c \<in> set g \<Longrightarrow> map_option v_in (vert s c) = Some (of_nat (card (preds s g c)))"
    and LQ: "distinct (L @ Q)" "set (L @ Q) = {b \<in> set g. preds s g b = {}}"
    by (auto simp: sort_state_def)
  obtain v w where v: "vert s a = Some v" and w: "vert s b = Some w" using cnt ab by fastforce
  have iv: "i < length (v_edges v)" using i(1) v by (simp add: succs_def)
  have arcs: "arcs ?t g = R - {(a, b)}" unfolding R [symmetric] by (rule arcs_unlink [OF ab(1) i])
  have pr: "preds ?t g c = (if c = b then preds s g b - {a} else preds s g c)" for c
    by (auto simp: preds_arcs arcs R)
  have ain: "a \<in> preds s g b" using i ab by (auto simp: preds_def in_set_conv_nth)
  then have card: "card (preds s g b) = Suc (card (preds s g b - {a}))"
    by (intro card.remove) auto
  have cnt': "map_option v_in (vert ?t c) = Some (of_nat (card (preds ?t g c)))" if c: "c \<in> set g" for c
    using cnt [OF c] card by (auto simp: v_in_unlink pr)
  have bnot: "b \<notin> set (L @ Q)" using LQ(2) ain by auto
  obtain w' where w': "vert ?t b = Some w'" using cnt' ab(2) by fastforce
  have "card (preds ?t g b) < 2 ^ 64"
    using g card_mono [of "set g" "preds ?t g b"] card_length [of g] by (force simp: preds_def)
  then have hi: "has_incomming_edges w' \<longleftrightarrow> preds ?t g b \<noteq> {}"
    using cnt' [OF ab(2)] w' by (simp add: has_incomming_edges_def of_nat_size_t_pos card_gt_0_iff)
  have Q': "Q' = (if \<not> has_incomming_edges w' then Q @ [b] else Q)"
    using hi by (auto simp: Q'_def pr)
  then have "sort_visit E a i Q s = (Inr Q', ?t)"
    by (simp add: sort_visit_unlink [OF v iv i(2) w] w')
  moreover have "distinct (L @ Q')" using LQ(1) bnot by (auto simp: Q')
  moreover have "set (L @ Q') = {c \<in> set g. preds ?t g c = {}}"
    using LQ(2) hi ab(2) ain by (auto simp: Q' pr)
  moreover have "rewires (set g) s0 ?t" using rw rewires_unlink [OF ab] by (blast intro: rewires_trans)
  ultimately show ?thesis using arcs cnt' by (simp add: sort_state_def)
qed

text \<open>
  A round of the loop: taking \<open>cur\<close> from the queue removes exactly its outgoing arcs and queues, in the order of
  the edges, the targets that have no other predecessor left.
\<close>

lemma sort_visit_all_state:
  assumes wf: "wf_graph s0 g" and st: "sort_state s0 g R (L @ cur # Q) s"
    and cur: "cur \<in> set g" "succs s cur = succs s0 cur"
  defines "Q' \<equiv> Q @ filter (\<lambda>b. preds s g b \<subseteq> {cur}) (targets s0 cur)"
  shows "\<exists>s'. sort_visit_all E cur Q s = (Inr Q', s') \<and>
    sort_state s0 g (R - {cur} \<times> UNIV) (L @ cur # Q') s' \<and>
    (\<forall>c. c \<noteq> cur \<longrightarrow> succs s' c = succs s c)"
proof -
  let ?bs = "succs s0 cur" and ?n = "length (succs s0 cur)"
  from wf cur(1) have bs: "distinct ?bs" "set ?bs \<subseteq> Some ` set g" by (auto elim: wf_graphE)
  have Q': "Q' = Q @ filter (\<lambda>b. preds s g b \<subseteq> {cur}) (map the ?bs)"
    unfolding Q'_def targets_the [OF bs(2)] ..
  have R: "arcs s g = R" using st by (simp add: sort_state_def)
  define I where "I ys Q' t \<longleftrightarrow> Q' = Q @ filter (\<lambda>b. preds s g b \<subseteq> {cur}) (map the (take (length ys) ?bs)) \<and>
      sort_state s0 g (R - {(cur, b) | b. Some b \<in> set (take (length ys) ?bs)}) (L @ cur # Q') t \<and>
      succs t cur = replicate (length ys) None @ drop (length ys) ?bs \<and>
      (\<forall>c. c \<noteq> cur \<longrightarrow> succs t c = succs s c)" for ys :: "nat list" and Q' t
  have step: "\<exists>Q'' t'. sort_visit E cur i Q' t = (Inr Q'', t') \<and> I (ys @ [i]) Q'' t'"
    if split: "[0..<?n] = ys @ i # zs" and I: "I ys Q' t" for ys i zs Q' t
  proof -
    note i = upt_0_split [OF split]
    from I have st: "sort_state s0 g (R - {(cur, b) | b. Some b \<in> set (take i ?bs)}) ((L @ [cur]) @ Q') t"
      and sc: "succs t cur = replicate i None @ drop i ?bs" and oth: "\<And>c. c \<noteq> cur \<Longrightarrow> succs t c = succs s c"
      by (auto simp: I_def i)
    have "?bs ! i \<in> Some ` set g" using bs(2) i(2) nth_mem by blast
    then obtain b where b: "?bs ! i = Some b" "b \<in> set g" by auto
    have len: "i < length (succs t cur)" using i by (simp add: sc)
    have nth: "succs t cur ! i = Some b" using b i by (simp add: sc nth_append)
    have uniq: "j = i" if "j < length (succs t cur)" "succs t cur ! j = Some b" for j
    proof -
      have "j \<ge> i" using that i by (auto simp: sc nth_append split: if_splits)
      then have "?bs ! j = ?bs ! i" "j < ?n" using that i b by (auto simp: sc nth_append)
      with bs(1) i(2) show ?thesis by (simp add: nth_eq_iff_index_eq)
    qed
    define Q'' where "Q'' = (if preds t g b \<subseteq> {cur} then Q' @ [b] else Q')"
    from sort_visit_state [OF st wf_graph_length [OF wf] cur(1) b(2) len nth uniq]
    have Q'': "sort_visit E cur i Q' t = (Inr Q'', unlink cur i b t)"
        "sort_state s0 g (R - {(cur, b) | b. Some b \<in> set (take i ?bs)} - {(cur, b)}) ((L @ [cur]) @ Q'') (unlink cur i b t)"
      unfolding Q''_def by blast+
    have take: "take (Suc i) ?bs = take i ?bs @ [Some b]" using b i by (simp add: take_Suc_conv_app_nth)
    have "Some b \<notin> set (take i ?bs)" using bs(1) take by (metis distinct_take not_distinct_conv_prefix)
    moreover have "arcs t g = R - {(cur, b) | b. Some b \<in> set (take i ?bs)}" using st by (simp add: sort_state_def)
    ultimately have "preds t g b = preds s g b" unfolding preds_arcs R by auto
    with I take have new: "Q'' = Q @ filter (\<lambda>b. preds s g b \<subseteq> {cur}) (map the (take (Suc i) ?bs))"
      by (simp add: Q''_def I_def i)
    from take have "R - {(cur, b) | b. Some b \<in> set (take i ?bs)} - {(cur, b)} =
        R - {(cur, b) | b. Some b \<in> set (take (Suc i) ?bs)}" by auto
    moreover have "succs (unlink cur i b t) cur = replicate (Suc i) None @ drop (Suc i) ?bs"
      using i by (simp add: succs_unlink sc Cons_nth_drop_Suc [symmetric] list_update_append replicate_app_Cons_same)
    ultimately show ?thesis using Q'' oth new by (intro exI [of _ Q''] exI) (auto simp: I_def i succs_unlink)
  qed
  obtain v where v: "vert s cur = Some v"
    using st cur(1) by (fastforce simp: sort_state_def)
  have n: "edge_count v = ?n" unfolding cur(2) [symmetric] using v by (simp add: edge_count_def succs_def)
  have "\<exists>Q' t. efold (sort_visit E cur) [0..<?n] Q s = (Inr Q', t) \<and> I [0..<?n] Q' t"
    by (rule efold_rule [where I = I]) (use st cur(2) step in \<open>auto simp: I_def\<close>)
  then obtain t where t: "sort_visit_all E cur Q s = (Inr Q', t)" "I [0..<?n] Q' t"
    using v n by (auto simp: sort_visit_all_def I_def Q')
  from R [symmetric] have "R - {(cur, b) | b. Some b \<in> set (take ?n ?bs)} = R - {cur} \<times> UNIV"
    using cur(2) by (auto simp: arcs_def)
  with t show ?thesis unfolding I_def by auto
qed

definition sort_inv :: "store \<Rightarrow> addr list \<Rightarrow> addr list \<Rightarrow> addr list \<Rightarrow> store \<Rightarrow> bool" where
  "sort_inv s0 g L Q s \<longleftrightarrow> sort_state s0 g (arcs s0 g - set L \<times> UNIV) (L @ Q) s \<and>
     (\<forall>a \<in> set g - set L. succs s a = succs s0 a) \<and> topological (arcs s0 g) L"

lemma sort_inv_init:
  assumes "wf_graph s (graph_of d)"
  shows "sort_inv s (graph_of d) [] (dag_vertices_with_no_incomming_edges d s) s"
proof -
  let ?g = "graph_of d"
  have "map_option v_in (vert s b) = Some (of_nat (card (preds s ?g b)))" if "b \<in> set ?g" for b
    using assms that by (auto elim: wf_graphE)
  moreover have "\<not> has_incomming_edges (the (vert s b)) \<longleftrightarrow> preds s ?g b = {}" if "b \<in> set ?g" for b
    using assms that wf_graph_alive [OF assms that] has_incomming_iff by fastforce
  ultimately show ?thesis
    using wf_graph_distinct [OF assms]
    by (auto simp: sort_inv_def sort_state_def no_incomming_filter)
qed

lemma no_incomming_all_placed:
  assumes "wf_graph s (graph_of d)"
  shows "dag_vertices_with_no_incomming_edges d s = filter (all_placed (targets s) (graph_of d) []) (graph_of d)"
  unfolding no_incomming_filter
proof (rule filter_cong)
  fix b assume b: "b \<in> set (graph_of d)"
  with assms show "\<not> has_incomming_edges (the (vert s b)) \<longleftrightarrow> all_placed (targets s) (graph_of d) [] b"
    using wf_graph_alive [OF assms b] has_incomming_iff by (fastforce simp: all_placed_preds)
qed simp

lemma sort_inv_step:
  assumes wf: "wf_graph s0 g" and inv: "sort_inv s0 g L (cur # Q) s"
  defines "Q' \<equiv> Q @ filter (all_placed (targets s0) g (L @ [cur])) (targets s0 cur)"
  shows "\<exists>s'. sort_visit_all E cur Q s = (Inr Q', s') \<and> sort_inv s0 g (L @ [cur]) Q' s'"
proof -
  let ?R = "arcs s0 g - set L \<times> UNIV"
  from inv have st: "sort_state s0 g ?R (L @ cur # Q) s"
    and un: "\<And>a. a \<in> set g - set L \<Longrightarrow> succs s a = succs s0 a" and top: "topological (arcs s0 g) L"
    by (auto simp: sort_inv_def)
  from st have LQ: "distinct (L @ cur # Q)" "set (L @ cur # Q) = {b \<in> set g. preds s g b = {}}"
    and R: "arcs s g = ?R" by (auto simp: sort_state_def)
  then have cur: "cur \<in> set g - set L" "preds s g cur = {}" by auto
  have "preds s g b \<subseteq> {cur} \<longleftrightarrow> all_placed (targets s0) g (L @ [cur]) b" for b
    unfolding all_placed_preds preds_arcs R by auto
  then have "Q' = Q @ filter (\<lambda>b. preds s g b \<subseteq> {cur}) (targets s0 cur)" by (simp add: Q'_def)
  with sort_visit_all_state [OF wf st] un cur(1) obtain s' where
    s': "sort_visit_all E cur Q s = (Inr Q', s')" "sort_state s0 g (?R - {cur} \<times> UNIV) (L @ cur # Q') s'"
      "\<And>c. c \<noteq> cur \<Longrightarrow> succs s' c = succs s c" by blast
  have "?R - {cur} \<times> UNIV = arcs s0 g - set (L @ [cur]) \<times> UNIV" by auto
  moreover have "\<forall>a. (a, cur) \<in> arcs s0 g \<longrightarrow> a \<in> set L"
    using cur(2) unfolding preds_arcs R by auto
  with top have "topological (arcs s0 g) (L @ [cur])" by (simp add: topological_snoc)
  ultimately show ?thesis using s' un by (intro exI [of _ s']) (auto simp: sort_inv_def)
qed

lemma sort_inv_room:
  assumes "sort_inv s0 g L (cur # Q) s"
  shows "length L < length g"
proof -
  from assms have "distinct (L @ cur # Q)" "set (L @ cur # Q) \<subseteq> set g"
    by (auto simp: sort_inv_def sort_state_def)
  then have "length (L @ cur # Q) \<le> length g"
    by (metis card_length card_mono distinct_card finite_set le_trans)
  then show ?thesis by simp
qed

text \<open>The loop computes the reference order.\<close>

lemma sort_loop_ok:
  assumes "wf_graph s0 g" "sort_inv s0 g L Q s" "length g \<le> n + length L" "length g \<le> m + length L"
  shows "\<exists>s'. sort_loop E n L Q s = (Inr (kahn (targets s0) g m L Q), s') \<and> sort_inv s0 g (kahn (targets s0) g m L Q) [] s'"
  using assms(2-4)
proof (induction E n L Q arbitrary: s m rule: sort_loop.induct)
  case (1 E n L)
  then show ?case by simp
next
  case (2 E L cur Q)
  with sort_inv_room [OF 2(1)] show ?case by simp
next
  case (3 E n L cur Q)
  from sort_inv_step [OF assms(1) 3(2), of E] obtain s' where
    s': "sort_visit_all E cur Q s = (Inr (Q @ filter (all_placed (targets s0) g (L @ [cur])) (targets s0 cur)), s')"
      "sort_inv s0 g (L @ [cur]) (Q @ filter (all_placed (targets s0) g (L @ [cur])) (targets s0 cur)) s'" by blast
  from sort_inv_room [OF 3(2)] 3(4) obtain m' where m: "m = Suc m'" by (cases m) auto
  from 3(1) [OF s'(2), of m'] 3(3,4) s'(1) m show ?case by (simp add: ebind_def)
qed

text \<open>When the queue is empty, the vertices left out are exactly those behind a cycle.\<close>

lemma sort_inv_final:
  assumes wf: "wf_graph s0 g" and inv: "sort_inv s0 g L [] s"
  shows "length L = length g \<longleftrightarrow> acyclic (arcs s0 g)" "distinct L" "set L \<subseteq> set g"
    "topological (arcs s0 g) L" "rewires (set g) s0 s"
proof -
  from inv have L: "distinct L" "set L = {b \<in> set g. preds s g b = {}}"
    and R: "arcs s g = arcs s0 g - set L \<times> UNIV" and top: "topological (arcs s0 g) L"
    and rw: "rewires (set g) s0 s"
    by (auto simp: sort_inv_def sort_state_def)
  have sub: "set L \<subseteq> set g" using L(2) by auto
  have "card (set g) = length g" using wf by (simp add: distinct_card wf_graph_distinct)
  then have len: "length L = length g \<longleftrightarrow> set L = set g"
    using sub L(1) by (metis card_subset_eq distinct_card finite_set)
  have "set L = set g" if ac: "acyclic (arcs s0 g)"
  proof (rule ccontr)
    assume "set L \<noteq> set g"
    then obtain x where x: "x \<in> set g - set L" using sub by auto
    have "wf (arcs s0 g)" using finite_acyclic_wf [OF finite_arcs [OF wf] ac] .
    from wfE_min [OF this x] obtain z where
      z: "z \<in> set g - set L" "\<And>y. (y, z) \<in> arcs s0 g \<Longrightarrow> y \<notin> set g - set L" by metis
    then obtain a where "(a, z) \<in> arcs s g" using L(2) by (auto simp: preds_arcs)
    then have "(a, z) \<in> arcs s0 g" "a \<notin> set L" using R by auto
    with z(2) arcs_in_graph [OF wf] show False by auto
  qed
  moreover have "acyclic (arcs s0 g)" if "set L = set g"
    using topological_acyclic [OF top L(1)] that arcs_in_graph [OF wf] by fastforce
  ultimately show "length L = length g \<longleftrightarrow> acyclic (arcs s0 g)" using len by blast
qed (use inv in \<open>auto simp: sort_inv_def sort_state_def\<close>)

section \<open>The sort\<close>

lemma clone_list_ok:
  assumes "env_ok E" "wf_graph s0 g" "rewires (set g) s0 s" "set L \<subseteq> set g"
  shows "\<exists>vs. rmap (\<lambda>a. DAGVertex_clone E (the (vert s a))) L = Inr vs \<and>
    list_all2 (\<lambda>a v. same_vertex (the (vert s0 a)) v \<and> v_edges v = [] \<and> v_in v = 0) L vs"
proof (rule rmap_list_all2)
  fix a assume "a \<in> set L"
  with assms(4) have "a \<in> set g" by blast
  with assms(2) obtain v where v: "vert s0 a = Some v" "vertex_ok v" by (auto elim: wf_graphE)
  obtain w where w: "vert s a = Some w" "w\<lparr>v_edges := [], v_in := 0\<rparr> = v\<lparr>v_edges := [], v_in := 0\<rparr>"
    by (rule rewires_vert [OF assms(3) v(1)])
  note eq = strip_vertex_eqD [OF w(2)]
  have "vertex_ok w" using eq(6) v(2) by simp
  from DAGVertex_clone_ok [OF assms(1) this] obtain c where
    "DAGVertex_clone E w = Inr c" "same_vertex w c" "v_edges c = []" "v_in c = 0" by metis
  with v w eq(5) show "\<exists>y. DAGVertex_clone E (the (vert s a)) = Inr y \<and>
      same_vertex (the (vert s0 a)) y \<and> v_edges y = [] \<and> v_in y = 0"
    by (auto intro: same_vertex_trans)
qed

lemma dag_topological_sort_kahn:
  assumes env: "env_ok E" and wf: "wf_graph s (graph_of d)"
  defines "L \<equiv> kahn_order s (graph_of d)"
  obtains vs t where "dag_topological_sort E d s = (Inr (\<not> acyclic (arcs s (graph_of d)), vs), t)"
    "rewires (set (graph_of d)) s t" "distinct L" "set L \<subseteq> set (graph_of d)"
    "topological (arcs s (graph_of d)) L" "length L = length (graph_of d) \<longleftrightarrow> acyclic (arcs s (graph_of d))"
    "list_all2 (\<lambda>a v. same_vertex (the (vert s a)) v \<and> v_edges v = [] \<and> v_in v = 0) L vs"
proof -
  let ?g = "graph_of d"
  have "length ?g \<le> sort_fuel d s + length ([] :: addr list)" by (simp add: sort_fuel_def)
  from sort_loop_ok [OF wf sort_inv_init [OF wf] this, of "length ?g"] obtain t where
    L: "sort_loop E (sort_fuel d s) [] (dag_vertices_with_no_incomming_edges d s) s = (Inr L, t)"
      "sort_inv s ?g L [] t" unfolding L_def kahn_order_def no_incomming_all_placed [OF wf] by auto
  note fin = sort_inv_final [OF wf L(2)]
  from clone_list_ok [OF env wf fin(5,3)] obtain vs where
    vs: "rmap (\<lambda>a. DAGVertex_clone E (the (vert t a))) L = Inr vs"
      "list_all2 (\<lambda>a v. same_vertex (the (vert s a)) v \<and> v_edges v = [] \<and> v_in v = 0) L vs" by blast
  have "dag_topological_sort E d s = (Inr (\<not> acyclic (arcs s ?g), vs), t)"
    by (simp add: dag_topological_sort_def Let_def ebind_def L(1) vs(1) vertex_count_def fin(1))
  with fin vs(2) show thesis by (intro that [of vs t]) auto
qed

lemma dag_topological_sort_ok:
  assumes "env_ok E" "wf_graph s (graph_of d)"
  obtains L vs t where "dag_topological_sort E d s = (Inr (\<not> acyclic (arcs s (graph_of d)), vs), t)"
    "rewires (set (graph_of d)) s t" "distinct L" "set L \<subseteq> set (graph_of d)"
    "topological (arcs s (graph_of d)) L" "length L = length (graph_of d) \<longleftrightarrow> acyclic (arcs s (graph_of d))"
    "list_all2 (\<lambda>a v. same_vertex (the (vert s a)) v \<and> v_edges v = [] \<and> v_in v = 0) L vs"
  by (rule dag_topological_sort_kahn [OF assms]) (rule that)

end
