(* ===== verification/Dag_Print.thy ===== *)
theory Dag_Print
  imports Dag
begin

text \<open>
  The stream operators of \<open>DAGEdge\<close>, \<open>DAGVertex\<close> and \<open>DAG\<close>. Printing an edge prints the vertex it points
  to, with all of that vertex's edges, so printing walks every path that starts at the vertex. It
  returns on a graph without cycles and runs forever from a vertex on a cycle; the model has fuel
  for the length of a path, and \<open>None\<close> is the print that does not return.
\<close>

section \<open>The program\<close>

fun show_nat :: "nat \<Rightarrow> string" where
  "show_nat n = (if n < 10 then [char_of (48 + n)] else show_nat (n div 10) @ [char_of (48 + n mod 10)])"

declare show_nat.simps [simp del]

definition endl :: string where
  "endl = [CHR 0x0A]"

primrec concat_options :: "string option list \<Rightarrow> string option" where
  "concat_options [] = Some []"
| "concat_options (x # xs) =
     (case x of None \<Rightarrow> None | Some t \<Rightarrow> map_option (\<lambda>u. t @ u) (concat_options xs))"

text \<open>The text of an edge, given how a vertex is printed.\<close>

definition edge_print ::
    "('z) env_scheme \<Rightarrow> (DAGVertex \<Rightarrow> string option) \<Rightarrow> store \<Rightarrow> DAGEdge \<Rightarrow> string option" where
  "edge_print E print_vertex s e =
     map_option (\<lambda>t. ''uuid_ = '' @ as_string E (e_uuid e) @ '' current_status_ = '' @ ''('' @
         edge_status_string (e_status e) @ '') connection = '' @ t)
       (case lock s (e_connection e) of
          None \<Rightarrow> Some ''nullptr''
        | Some a \<Rightarrow> print_vertex (the (vert s a)))"

primrec vertex_print :: "('z) env_scheme \<Rightarrow> nat \<Rightarrow> store \<Rightarrow> DAGVertex \<Rightarrow> string option" where
  "vertex_print E 0 s v = None"
| "vertex_print E (Suc n) s v =
     map_option (\<lambda>es. ''uuid_ = '' @ as_string E (v_uuid v) @
         '' current_status_ = '' @ vertex_status_string (v_status v) @
         '' label = '' @ v_label v @ '' '' @
         ''incomming_edge_count = '' @ show_nat (unat (v_in v)) @ '' '' @
         '' edges = '' @ endl @ endl @ ''edges('' @ show_nat (edge_count v) @ ''): '' @ es @
         ''task_ = '' @ (case v_task v of Some t \<Rightarrow> Task_print E t | None \<Rightarrow> ''nullptr''))
       (concat_options (map (\<lambda>e. map_option (\<lambda>t. [CHR 0x09] @ t @ endl)
           (edge_print E (vertex_print E n s) s e)) (v_edges v)))"

definition DAG_print :: "('z) env_scheme \<Rightarrow> nat \<Rightarrow> DAG \<Rightarrow> store \<Rightarrow> string option" where
  "DAG_print E n g s =
     map_option (\<lambda>vs. ''Title: '' @ [CHR 0x22] @ title_of g @ [CHR 0x22] @
         (if graph_of g \<noteq> [] then endl else []) @ vs @
         endl @ ''Configuration: '' @ DAG_json_config_str E g [] @ endl)
       (concat_options (map (\<lambda>a. map_option (\<lambda>t. t @ endl) (vertex_print E n s (the (vert s a)))) (graph_of g)))"

section \<open>Printing returns on acyclic graphs\<close>

lemma concat_options_Some: "concat_options xs \<noteq> None \<longleftrightarrow> None \<notin> set xs"
  by (induction xs) (auto split: option.splits)

lemma vertex_print_Suc:
  "vertex_print E (Suc n) s v \<noteq> None \<longleftrightarrow>
     (\<forall>e \<in> set (v_edges v). case lock s (e_connection e) of None \<Rightarrow> True
        | Some a \<Rightarrow> vertex_print E n s (the (vert s a)) \<noteq> None)"
proof -
  have e: "edge_print E p s e = None \<longleftrightarrow>
      (\<exists>a. lock s (e_connection e) = Some a \<and> p (the (vert s a)) = None)" for p e
    by (auto simp: edge_print_def split: option.splits)
  have "vertex_print E (Suc n) s v \<noteq> None \<longleftrightarrow>
      None \<notin> set (map (\<lambda>e. map_option (\<lambda>t. [CHR 0x09] @ t @ endl) (edge_print E (vertex_print E n s) s e)) (v_edges v))"
    unfolding concat_options_Some [symmetric] by simp
  also have "\<dots> \<longleftrightarrow> (\<forall>e \<in> set (v_edges v). edge_print E (vertex_print E n s) s e \<noteq> None)"
    by auto
  finally show ?thesis by (auto simp: e split: option.splits)
qed

definition reach :: "('a \<times> 'a) set \<Rightarrow> 'a \<Rightarrow> 'a set" where
  "reach r a = r\<^sup>* `` {a}"

lemma reach_subset: "r \<subseteq> A \<times> A \<Longrightarrow> a \<in> A \<Longrightarrow> reach r a \<subseteq> A"
  by (auto simp: reach_def elim: rtranclE)

lemma reach_psubset:
  assumes "acyclic r" "(a, b) \<in> r"
  shows "reach r b \<subset> reach r a"
proof -
  have "reach r b \<subseteq> reach r a" using assms(2) by (auto simp: reach_def intro: converse_rtrancl_into_rtrancl)
  moreover have "a \<in> reach r a" by (simp add: reach_def)
  moreover have "a \<notin> reach r b"
  proof
    assume "a \<in> reach r b"
    then have "(b, a) \<in> r\<^sup>*" by (simp add: reach_def)
    with assms(2) have "(a, a) \<in> r\<^sup>+" by (meson rtrancl_into_trancl2)
    with assms(1) show False by (simp add: acyclic_def)
  qed
  ultimately show ?thesis by blast
qed

lemma vertex_print_returns:
  assumes "wf_graph s g" "acyclic (arcs s g)" "a \<in> set g" "card (reach (arcs s g) a) \<le> n"
  shows "vertex_print E n s (the (vert s a)) \<noteq> None"
  using assms(3,4)
proof (induction n arbitrary: a)
  case 0
  have "finite (reach (arcs s g) a)"
    using reach_subset [OF arcs_in_graph [OF assms(1)] 0(1)] by (rule finite_subset) simp
  moreover have "a \<in> reach (arcs s g) a" by (simp add: reach_def)
  ultimately show ?case using 0(2) by auto
next
  case (Suc n)
  obtain v where v: "vert s a = Some v" using assms(1) Suc(2) wf_graph_alive by blast
  have "vertex_print E n s (the (vert s b)) \<noteq> None"
    if e: "e \<in> set (v_edges v)" "lock s (e_connection e) = Some b" for e b
  proof -
    have "Some b \<in> set (succs s a)" using e v by (force simp: succs_def lock_def split: if_splits)
    then have ab: "(a, b) \<in> arcs s g" using Suc(2) by (simp add: arcs_def)
    then have b: "b \<in> set g" using arcs_in_graph [OF assms(1)] by blast
    have "finite (reach (arcs s g) a)"
      using reach_subset [OF arcs_in_graph [OF assms(1)] Suc(2)] by (rule finite_subset) simp
    from psubset_card_mono [OF this reach_psubset [OF assms(2) ab]] Suc(3)
    have "card (reach (arcs s g) b) \<le> n" by simp
    with Suc.IH [OF b] show ?thesis .
  qed
  then show ?case unfolding vertex_print_Suc v by (auto split: option.split)
qed

lemma card_reach_le:
  assumes "wf_graph s g" "a \<in> set g"
  shows "card (reach (arcs s g) a) \<le> length g"
  using card_mono [OF finite_set reach_subset [OF arcs_in_graph [OF assms(1)] assms(2)]]
    card_length [of g] by linarith

text \<open>From a vertex on a cycle, no amount of fuel is enough.\<close>

lemma vertex_print_cycle:
  assumes "wf_graph s g" "(a, a) \<in> (arcs s g)\<^sup>+"
  shows "vertex_print E n s (the (vert s a)) = None"
proof -
  have "vertex_print E n s (the (vert s c)) = None" if "(c, a) \<in> (arcs s g)\<^sup>*" for c
    using that
  proof (induction n arbitrary: c)
    case (Suc n)
    have "(c, a) \<in> (arcs s g)\<^sup>+" using Suc(2) assms(2) by (meson rtrancl_trancl_trancl)
    then obtain d where d: "(c, d) \<in> arcs s g" "(d, a) \<in> (arcs s g)\<^sup>*"
      by (meson converse_tranclE r_into_rtrancl rtrancl.rtrancl_refl trancl_into_rtrancl)
    then have "c \<in> set g" "d \<in> set g" using arcs_in_graph [OF assms(1)] by auto
    then obtain v w where v: "vert s c = Some v" and w: "vert s d = Some w"
      using assms(1) wf_graph_alive by blast
    from d(1) v obtain e where e: "e \<in> set (v_edges v)" "e_connection e = Some d"
      by (auto simp: arcs_def succs_def)
    then have "lock s (e_connection e) = Some d" using w by (simp add: lock_eq_Some)
    with e Suc.IH [OF d(2)] have "\<not> vertex_print E (Suc n) s v \<noteq> None"
      unfolding vertex_print_Suc by force
    with v show ?case by simp
  qed simp
  then show ?thesis by simp
qed

end
