(* ===== verification/Dag_Ops.thy ===== *)
theory Dag_Ops
  imports Dag_Sort Dag_Print
begin

text \<open>
  Class \<open>DAG\<close>, second part: the operations that connect and remove vertices, and the invariant they
  keep. Before an arc is added, the graph is cloned, the arc added to the clone and the clone sorted;
  the clone is destroyed when the check returns.
\<close>

section \<open>The cycle check\<close>

definition deref :: "addr option \<Rightarrow> (store, DAGVertex) exec" where
  "deref w s = (case lock s w of None \<Rightarrow> (Inl NullDeref, s) | Some a \<Rightarrow> (Inr (the (vert s a)), s))"

text \<open>
  The vertices are looked up in the clone \<^emph>\<open>after\<close> they were moved: by identifier if they were there
  already, and by the null identifier otherwise.
\<close>

definition connection_would_make_cyclic :: "('z) env_scheme \<Rightarrow> DAG \<Rightarrow> DAGVertex \<Rightarrow> DAGVertex \<Rightarrow> (store, bool) exec" where
  "connection_would_make_cyclic E d v1 v2 s =
     (let (r, s') =
        ebind (DAG_clone E d) (\<lambda>graph_clone.
        ebind (elift (DAGVertex_clone E v1)) (\<lambda>v1_clone.
        ebind (elift (DAGVertex_clone E v2)) (\<lambda>v2_clone s0.
          let ((_, g1, v1_left), s1) = add_vertex E graph_clone v1_clone s0;
              ((_, g2, v2_left), s2) = add_vertex E g1 v2_clone s1;
              v1_found = find_vertex E g2 v1_left s2;
              v2_found = find_vertex E g2 v2_left s2
          in ebind (\<lambda>s. case lock s v1_found of
                      None \<Rightarrow> (Inl NullDeref, s)
                    | Some a \<Rightarrow> vertex_connect E a (lock s v2_found) s) (\<lambda>_.
             ebind (\<lambda>s. (cpp_assert E (\<not> expired s v1_found \<and> \<not> expired s v2_found), s)) (\<lambda>_.
             ebind (dag_topological_sort E g2) (\<lambda>(ret, sorted_vertices).
             eret ret))) s2))) s
      in (r, free_from (brk s) s'))"

definition connection_would_make_cyclic_by_uuid ::
    "('z) env_scheme \<Rightarrow> DAG \<Rightarrow> uuid_t \<Rightarrow> uuid_t \<Rightarrow> (store, bool) exec" where
  "connection_would_make_cyclic_by_uuid E d u1 u2 s =
     ebind (deref (find_vertex_by_uuid E d u1 s)) (\<lambda>v1.
     ebind (deref (find_vertex_by_uuid E d u2 s)) (\<lambda>v2.
     connection_would_make_cyclic E d v1 v2)) s"

text \<open>
  The two nested loops leave both as soon as \<open>ret\<close> is false, so they are one loop on the pairs in
  lexicographic order.
\<close>

primrec cyclic_pairs :: "('z) env_scheme \<Rightarrow> DAG \<Rightarrow> (addr \<times> addr) list \<Rightarrow> (store, bool) exec" where
  "cyclic_pairs E d [] = eret True"
| "cyclic_pairs E d (p # ps) =
     ebind (deref (Some (fst p))) (\<lambda>v.
     ebind (deref (Some (snd p))) (\<lambda>u.
     ebind (connection_would_make_cyclic E d v u) (\<lambda>cyclic.
     if \<not> \<not> cyclic then eret False else cyclic_pairs E d ps)))"

definition connection_would_make_cyclic_by_label ::
    "('z) env_scheme \<Rightarrow> DAG \<Rightarrow> string \<Rightarrow> string \<Rightarrow> (store, bool) exec" where
  "connection_would_make_cyclic_by_label E d l1 l2 s =
     cyclic_pairs E d (List.product (find_all_verticies_with_label d l1 s)
                                    (find_all_verticies_with_label d l2 s)) s"

section \<open>Connecting\<close>

text \<open>The message of the exception prints both vertices.\<close>

definition cycle_error_text :: "('z) env_scheme \<Rightarrow> DAG \<Rightarrow> addr \<Rightarrow> addr \<Rightarrow> store \<Rightarrow> string res" where
  "cycle_error_text E d a b s =
     (let n = length (graph_of d)
      in case (vertex_print E n s (the (vert s a)), vertex_print E n s (the (vert s b))) of
           (Some t1, Some t2) \<Rightarrow> Inr (''Connecting '' @ endl @ t1 @ endl @ ''to '' @ endl @ t2 @ endl @ ''would cause a cycle.'')
         | _ \<Rightarrow> Inl OutOfFuel)"

definition DAG_connect :: "('z) env_scheme \<Rightarrow> DAG \<Rightarrow> DAGVertex \<Rightarrow> DAGVertex \<Rightarrow> (store, bool) exec" where
  "DAG_connect E d v1 v2 s =
     (let v1_tmp = find_vertex E d v1 s;
          v2_tmp = find_vertex E d v2 s
      in if \<not> expired s v1_tmp \<and> \<not> expired s v2_tmp
         then (let a = the v1_tmp; b = the v2_tmp
               in if a \<in> set (graph_of d) \<and> b \<in> set (graph_of d)
                  then ebind (connection_would_make_cyclic E d (the (vert s a)) (the (vert s b))) (\<lambda>cyclic.
                       if \<not> cyclic
                       then ebind (vertex_connect E a (Some b)) (\<lambda>_. eret True)
                       else ebind (\<lambda>s. (cycle_error_text E d a b s, s)) (\<lambda>_. eraise ThrowDAGException)) s
                  else (Inr False, s))
         else (Inr False, s))"

definition connect_by_uuid :: "('z) env_scheme \<Rightarrow> DAG \<Rightarrow> uuid_t \<Rightarrow> uuid_t \<Rightarrow> (store, bool) exec" where
  "connect_by_uuid E d u1 u2 s =
     ebind (deref (find_vertex_by_uuid E d u1 s)) (\<lambda>v1.
     ebind (deref (find_vertex_by_uuid E d u2 s)) (\<lambda>v2.
     DAG_connect E d v1 v2)) s"

definition connect_all_by_label :: "('z) env_scheme \<Rightarrow> DAG \<Rightarrow> string \<Rightarrow> string \<Rightarrow> (store, bool) exec" where
  "connect_all_by_label E d l1 l2 s =
     (let v1 = find_all_verticies_with_label d l1 s;
          v2 = find_all_verticies_with_label d l2 s
      in efold (\<lambda>v. efold (\<lambda>u ret.
           ebind (deref (Some v)) (\<lambda>vv.
           ebind (deref (Some u)) (\<lambda>vu.
           ebind (DAG_connect E d vv vu) (\<lambda>r.
           eret (ret \<and> r))))) v2) v1 True s)"

text \<open>The graph keeps the new vertices when connecting them throws.\<close>

definition add_and_connect ::
    "('z) env_scheme \<Rightarrow> DAG \<Rightarrow> DAGVertex \<Rightarrow> DAGVertex \<Rightarrow> store \<Rightarrow> (bool res \<times> DAG) \<times> store" where
  "add_and_connect E d v1 v2 s =
     (case (DAGVertex_clone E v1, DAGVertex_clone E v2) of
        (Inr v1_clone, Inr v2_clone) \<Rightarrow>
          (let ((_, d1, _), s1) = add_vertex E d v1 s;
               ((_, d2, _), s2) = add_vertex E d1 v2 s1;
               (r, s3) = ebind (deref (find_vertex E d2 v1_clone s2)) (\<lambda>w1.
                         ebind (deref (find_vertex E d2 v2_clone s2)) (\<lambda>w2.
                         DAG_connect E d2 w1 w2)) s2
           in ((r, d2), s3))
      | (Inl e, _) \<Rightarrow> ((Inl e, d), s)
      | (_, Inl e) \<Rightarrow> ((Inl e, d), s))"

definition are_connected :: "('z) env_scheme \<Rightarrow> DAG \<Rightarrow> DAGVertex \<Rightarrow> DAGVertex \<Rightarrow> store \<Rightarrow> bool res" where
  "are_connected E d v1 v2 s =
     (case (lock s (find_vertex E d v1 s), lock s (find_vertex E d v2 s)) of
        (Some a, Some b) \<Rightarrow>
          rbind (rmap (\<lambda>e. case lock s (e_connection e) of None \<Rightarrow> Inl NullDeref | Some c \<Rightarrow> Inr (c = b))
                   (v_edges (the (vert s a)))) (\<lambda>hits.
          Inr (True \<in> set hits))
      | _ \<Rightarrow> Inl NullDeref)"

definition are_connected_by_uuid :: "('z) env_scheme \<Rightarrow> DAG \<Rightarrow> uuid_t \<Rightarrow> uuid_t \<Rightarrow> store \<Rightarrow> bool res" where
  "are_connected_by_uuid E d u1 u2 s =
     (case (lock s (find_vertex_by_uuid E d u1 s), lock s (find_vertex_by_uuid E d u2 s)) of
        (Some a, Some b) \<Rightarrow> are_connected E d (the (vert s a)) (the (vert s b)) s
      | _ \<Rightarrow> Inl NullDeref)"

definition all_are_connected_by_label :: "('z) env_scheme \<Rightarrow> DAG \<Rightarrow> string \<Rightarrow> string \<Rightarrow> store \<Rightarrow> bool res" where
  "all_are_connected_by_label E d l1 l2 s =
     (let v1 = find_all_verticies_with_label d l1 s;
          v2 = find_all_verticies_with_label d l2 s;
          ret = (v1 \<noteq> [] \<and> v2 \<noteq> [])
      in rbind (rmap (\<lambda>(vfrom, vto). are_connected E d (the (vert s vfrom)) (the (vert s vto)) s) (List.product v1 v2)) (\<lambda>rs.
         Inr (ret \<and> list_all (\<lambda>r. r) rs)))"

section \<open>Removing\<close>

text \<open>
  The argument of \<open>remove_vertex\<close> is a reference: to a vertex elsewhere, or to a vertex of the store,
  whose value changes while the scan clears edges. \<open>std::remove_if\<close> moves later pointers over the one it found,
  so a reference to a vertex that only the graph owns dangles from the second vertex after it on. Callers get
  their references by dereferencing a shared pointer, which owns the vertex until the call has returned:
  \<open>process_dag\<close> and \<open>remove_all_vertex_with_label\<close> hold one in a vector, other callers the result of \<open>lock()\<close>.
  The model is that of such a call; the vertices found are released after the scan, the caller's owner with
  them.
\<close>

datatype vref = ByVal DAGVertex | ByAddr addr

primrec vref_get :: "store \<Rightarrow> vref \<Rightarrow> DAGVertex" where
  "vref_get s (ByVal v) = v"
| "vref_get s (ByAddr a) = the (vert s a)"

text \<open>What the predicate of \<open>remove_if\<close> does to a vertex it found.\<close>

definition remove_found :: "addr \<Rightarrow> store \<Rightarrow> store" where
  "remove_found x s =
     upd_vertex x clear_edges
       (fold (\<lambda>e s. case lock s (e_connection e) of
                      None \<Rightarrow> s
                    | Some a \<Rightarrow> upd_vertex a sub_incomming_edge s) (v_edges (the (vert s x))) s)"

primrec remove_scan :: "(addr \<Rightarrow> store \<Rightarrow> bool) \<Rightarrow> addr list \<Rightarrow> store \<Rightarrow> (addr list \<times> addr list) \<times> store" where
  "remove_scan found [] s = (([], []), s)"
| "remove_scan found (x # xs) s =
     (if found x s
      then (let ((kept, gone), s1) = remove_scan found xs (remove_found x s) in ((kept, x # gone), s1))
      else (let ((kept, gone), s1) = remove_scan found xs s in ((x # kept, gone), s1)))"

definition remove_if :: "(addr \<Rightarrow> store \<Rightarrow> bool) \<Rightarrow> DAG \<Rightarrow> store \<Rightarrow> (bool \<times> DAG) \<times> store" where
  "remove_if found d s =
     (let ((kept, gone), s1) = remove_scan found (graph_of d) s
      in ((gone \<noteq> [], d\<lparr>graph_of := kept\<rparr>), fold release gone s1))"

definition remove_vertex :: "('z) libuuid_scheme \<Rightarrow> DAG \<Rightarrow> vref \<Rightarrow> store \<Rightarrow> (bool \<times> DAG) \<times> store" where
  "remove_vertex L d v s = remove_if (\<lambda>x s. vertex_eq L (the (vert s x)) (vref_get s v)) d s"

definition remove_vertex_by_uuid :: "('z) libuuid_scheme \<Rightarrow> DAG \<Rightarrow> uuid_t \<Rightarrow> store \<Rightarrow> (bool \<times> DAG) \<times> store" where
  "remove_vertex_by_uuid L d u s = remove_if (\<lambda>x s. uuid_eq L (uuid_of s x) u) d s"

text \<open>The vector of the vertices found keeps them alive until the last one is removed.\<close>

definition remove_all_vertex_with_label :: "('z) libuuid_scheme \<Rightarrow> DAG \<Rightarrow> string \<Rightarrow> store \<Rightarrow> (bool \<times> DAG) \<times> store" where
  "remove_all_vertex_with_label L d l s =
     (let found_with_label = filter (\<lambda>a. v_label (the (vert s a)) = l) (graph_of d);
          ret = (found_with_label \<noteq> [])
      in if ret
         then (let (d', s1) = fold (\<lambda>v (d, s). let ((_, d'), s') = remove_vertex L d (ByAddr v) s in (d', s'))
                                found_with_label (d, fold retain found_with_label s)
               in ((ret, d'), fold release found_with_label s1))
         else ((ret, d), s))"

end
