(* ===== verification/Dag_Safety.thy ===== *)
theory Dag_Safety
  imports Dag_Ops
begin

text \<open>
  What the operations of \<open>DAG\<close> guarantee: the cycle check decides exactly whether the new arc closes a
  cycle and leaves the graph alone, connecting adds exactly one arc or throws without a change, and
  every graph the operations can build satisfies \<open>wf_dag\<close>, in particular it is acyclic.
\<close>

section \<open>The cycle check\<close>

lemma copied_addr:
  assumes "copied s d t d'" "distinct (graph_of d)" "a \<in> set (graph_of d)"
  shows "copy_addr s (graph_of d) a \<in> set (graph_of d')"
    "uuid_of t (copy_addr s (graph_of d) a) = uuid_of s a"
proof -
  let ?i = "index_of (graph_of d) a"
  have i: "?i < length (graph_of d)" using assms(3) by (rule index_of_less)
  with assms(1) show "copy_addr s (graph_of d) a \<in> set (graph_of d')"
    by (simp add: copied_def copy_addr_def)
  from assms(1) i obtain v w where "vert s (graph_of d ! ?i) = Some v" "vert t (brk s + ?i) = Some w"
    "same_vertex v w" unfolding copied_def by blast
  with assms(3) show "uuid_of t (copy_addr s (graph_of d) a) = uuid_of s a"
    by (simp add: uuid_of_def copy_addr_def same_vertex_def)
qed

lemma copied_acyclic_insert:
  assumes "copied s d t d'" "wf_graph s (graph_of d)" "a \<in> set (graph_of d)" "b \<in> set (graph_of d)"
  shows "acyclic (insert (copy_addr s (graph_of d) a, copy_addr s (graph_of d) b) (arcs t (graph_of d'))) \<longleftrightarrow>
    acyclic (insert (a, b) (arcs s (graph_of d)))"
proof -
  let ?f = "copy_addr s (graph_of d)"
  have "insert (?f a, ?f b) (arcs t (graph_of d')) = map_prod ?f ?f ` insert (a, b) (arcs s (graph_of d))"
    by (simp add: copiedD(7) [OF assms(1)])
  moreover have "insert (a, b) (arcs s (graph_of d)) \<subseteq> set (graph_of d) \<times> set (graph_of d)"
    using arcs_in_graph [OF assms(2)] assms(3,4) by auto
  ultimately show ?thesis using acyclic_image_iff [OF _ inj_on_copy_addr] by metis
qed

lemma copied_acyclic:
  assumes "copied s d t d'" "wf_graph s (graph_of d)"
  shows "acyclic (arcs t (graph_of d')) \<longleftrightarrow> acyclic (arcs s (graph_of d))"
proof -
  let ?f = "copy_addr s (graph_of d)"
  have "arcs t (graph_of d') = map_prod ?f ?f ` arcs s (graph_of d)"
    by (rule copiedD(7) [OF assms(1)])
  then show ?thesis using acyclic_image_iff [OF arcs_in_graph [OF assms(2)] inj_on_copy_addr] by metis
qed

text \<open>The state after a scope that owned every vertex it allocated.\<close>

definition same_cells :: "store \<Rightarrow> store \<Rightarrow> bool" where
  "same_cells s t \<longleftrightarrow> cells t = cells s \<and> brk s \<le> brk t"

lemma same_cells_refl [simp]: "same_cells s s"
  by (simp add: same_cells_def)

lemma same_cells_trans: "same_cells s t \<Longrightarrow> same_cells t u \<Longrightarrow> same_cells s u"
  by (auto simp: same_cells_def)

lemma same_cells_vert: "same_cells s t \<Longrightarrow> vert t = vert s"
  by (rule ext) (simp add: same_cells_def vert_def)

lemma same_cells_facts:
  assumes "same_cells s t"
  shows "wf_graph t g = wf_graph s g" "arcs t g = arcs s g" "uuid_of t = uuid_of s"
    "wf_store s \<Longrightarrow> wf_store t" "owners t = owners s" "lock t = lock s" "expired t = expired s"
proof -
  note v = same_cells_vert [OF assms]
  show "wf_graph t g = wf_graph s g" "arcs t g = arcs s g"
    using v by (intro wf_graph_cong; simp)+
  show "uuid_of t = uuid_of s" by (rule ext) (simp add: uuid_of_def v)
  show "wf_store t" if "wf_store s"
    using assms that unfolding wf_store_def v by (auto simp: same_cells_def)
  have c: "cells t = cells s" using assms by (simp add: same_cells_def)
  show "owners t = owners s" by (rule ext) (simp add: owners_def c)
  show ex: "expired t = expired s" by (rule ext) (simp add: expired_def c split: option.split)
  show "lock t = lock s" by (rule ext) (simp add: lock_def ex)
qed

lemma free_from_same_cells:
  assumes "wf_store s" "\<And>c. c < brk s \<Longrightarrow> cells t c = cells s c" "brk s \<le> brk t"
  shows "same_cells s (free_from (brk s) t)"
proof -
  have "cells s c = None" if "\<not> c < brk s" for c
    using that assms(1) by (auto simp: wf_store_def vert_def)
  with assms show ?thesis by (auto simp: same_cells_def free_from_def)
qed

lemma would_make_cyclic_ok:
  assumes env: "env_ok E" and st: "wf_store s" and wf: "wf_graph s (graph_of d)" and cfg: "config_of d = Some j"
    and ab: "a \<in> set (graph_of d)" "b \<in> set (graph_of d)"
    and v1: "vertex_ok v1" "v_uuid v1 = uuid_of s a" and v2: "vertex_ok v2" "v_uuid v2 = uuid_of s b"
  shows "\<exists>t. connection_would_make_cyclic E d v1 v2 s =
    (Inr (\<not> acyclic (insert (a, b) (arcs s (graph_of d)))), t) \<and> same_cells s t"
proof -
  let ?g = "graph_of d" and ?f = "copy_addr s (graph_of d)"
  from DAG_copy_ok [OF env st wf cfg] obtain d' t0 where
    cp: "DAG_clone E d s = (Inr d', t0)" "copied s d t0 d'" by (auto simp: DAG_clone_def)
  let ?g' = "graph_of d'"
  have wf': "wf_graph t0 ?g'" and g': "?g' = [brk s..<brk s + length ?g]" and brk0: "brk t0 = brk s + length ?g"
    and old: "\<And>c. c < brk s \<Longrightarrow> cells t0 c = cells s c"
    using copiedD [OF cp(2)] by blast+
  obtain c1 where c1: "DAGVertex_clone E v1 = Inr c1" "same_vertex v1 c1" using env v1(1) by (rule DAGVertex_clone_ok)
  obtain c2 where c2: "DAGVertex_clone E v2 = Inr c2" "same_vertex v2 c2" using env v2(1) by (rule DAGVertex_clone_ok)
  note fa = copied_addr [OF cp(2) wf_graph_distinct [OF wf] ab(1)]
    and fb = copied_addr [OF cp(2) wf_graph_distinct [OF wf] ab(2)]
  have u: "v_uuid c1 = uuid_of t0 (?f a)" "v_uuid c2 = uuid_of t0 (?f b)"
    using c1(2) c2(2) v1(2) v2(2) fa(2) fb(2) by (simp_all add: same_vertex_def)
  have L: "libuuid_ok E" using env by blast
  have alive: "\<forall>x \<in> set ?g'. vert t0 x \<noteq> None" using wf' wf_graph_alive by blast
  have add: "add_vertex E d' c1 t0 = ((False, d', c1), t0)" "add_vertex E d' c2 t0 = ((False, d', c2), t0)"
    using u fa(1) fb(1) by (intro add_vertex_old [OF L alive]; blast)+
  have find: "find_vertex E d' c1 t0 = Some (?f a)" "find_vertex E d' c2 t0 = Some (?f b)"
    using u fa fb by (auto intro!: find_vertex_in [OF L wf'])
  obtain wa wb where w0: "vert t0 (?f a) = Some wa" "vert t0 (?f b) = Some wb"
    using wf' fa(1) fb(1) wf_graph_alive by blast
  from vertex_connect_graph [OF L wf' fa(1) fb(1)] obtain t1 r where
    t1: "vertex_connect E (?f a) (Some (?f b)) t0 = (Inr r, t1)" "wf_graph t1 ?g'"
      "arcs t1 ?g' = insert (?f a, ?f b) (arcs t0 ?g')" "rewires (set ?g') t0 t1" by metis
  obtain xa xb where w1: "vert t1 (?f a) = Some xa" "vert t1 (?f b) = Some xb"
    using t1(2) fa(1) fb(1) wf_graph_alive by blast
  obtain L' vs t2 where t2: "dag_topological_sort E d' t1 = (Inr (\<not> acyclic (arcs t1 ?g'), vs), t2)"
    "rewires (set ?g') t1 t2" by (rule dag_topological_sort_ok [OF env t1(2)])
  have rw: "rewires (set ?g') t0 t2" using t1(4) t2(2) by (rule rewires_trans)
  have "connection_would_make_cyclic E d v1 v2 s = (Inr (\<not> acyclic (arcs t1 ?g')), free_from (brk s) t2)"
    by (simp add: connection_would_make_cyclic_def ebind_def Let_def cp(1) c1(1) c2(1) add find w0 t1(1) t2(1) w1)
  moreover have "acyclic (arcs t1 ?g') \<longleftrightarrow> acyclic (insert (a, b) (arcs s ?g))"
    unfolding t1(3) by (rule copied_acyclic_insert [OF cp(2) wf ab])
  moreover have "same_cells s (free_from (brk s) t2)"
    using st by (rule free_from_same_cells)
      (use old rewires_cells [OF rw] rewires_brk [OF rw] brk0 g' in auto)
  ultimately show ?thesis by auto
qed

section \<open>The invariant of a graph\<close>

definition wf_dag :: "DAG \<Rightarrow> store \<Rightarrow> bool" where
  "wf_dag d s \<longleftrightarrow> wf_store s \<and> wf_graph s (graph_of d) \<and> acyclic (arcs s (graph_of d)) \<and>
     config_of d \<noteq> None \<and> (\<forall>a \<in> set (graph_of d). owners s a = 1 \<and> uuid_of s a \<noteq> 0)"

lemma wf_dagD:
  assumes "wf_dag d s"
  shows "wf_store s" "wf_graph s (graph_of d)" "acyclic (arcs s (graph_of d))" "\<exists>j. config_of d = Some j"
    "\<And>a. a \<in> set (graph_of d) \<Longrightarrow> owners s a = 1" "\<And>a. a \<in> set (graph_of d) \<Longrightarrow> uuid_of s a \<noteq> 0"
    "\<And>a. a \<in> set (graph_of d) \<Longrightarrow> a < brk s"
  using assms by (auto simp: wf_dag_def wf_store_def dest: wf_graph_alive)

lemma wf_dag_same_cells: "same_cells s t \<Longrightarrow> wf_dag d s \<Longrightarrow> wf_dag d t"
  by (auto simp: wf_dag_def same_cells_facts)

lemma wf_dag_rewires:
  assumes "wf_dag d s" "rewires A s t" "wf_graph t (graph_of d)" "acyclic (arcs t (graph_of d))"
  shows "wf_dag d t"
proof -
  have "owners t a = owners s a" if a: "a \<in> set (graph_of d)" for a
  proof -
    obtain v where "vert s a = Some v" using wf_graph_alive [OF wf_dagD(2) [OF assms(1)] a] by blast
    then show ?thesis using rewires_vert [OF assms(2)] by metis
  qed
  with assms rewires_wf_store [OF assms(2)] show ?thesis
    by (auto simp: wf_dag_def rewires_uuid [OF assms(2)])
qed

section \<open>Connecting\<close>

text \<open>What \<open>connect\<close> may change: the edges of one vertex and the counter of the other.\<close>

definition touches_only :: "addr set \<Rightarrow> store \<Rightarrow> store \<Rightarrow> bool" where
  "touches_only A s t \<longleftrightarrow> brk s \<le> brk t \<and> (\<forall>c. c \<notin> A \<longrightarrow> cells t c = cells s c) \<and>
     (\<forall>c. map_option strip (cells t c) = map_option strip (cells s c))"

lemma touches_onlyI: "same_cells s u \<Longrightarrow> rewires A u t \<Longrightarrow> touches_only A s t"
  by (simp add: touches_only_def same_cells_def rewires_def)

lemma DAG_connect_ok:
  assumes env: "env_ok E" and wf: "wf_dag d s" and ab: "a \<in> set (graph_of d)" "b \<in> set (graph_of d)"
    and uu: "v_uuid v1 = uuid_of s a" "v_uuid v2 = uuid_of s b"
    and ac: "acyclic (insert (a, b) (arcs s (graph_of d)))"
  shows "\<exists>t. DAG_connect E d v1 v2 s = (Inr True, t) \<and> wf_dag d t \<and>
    arcs t (graph_of d) = insert (a, b) (arcs s (graph_of d)) \<and> touches_only {a, b} s t"
proof -
  let ?g = "graph_of d"
  note w = wf_dagD [OF wf]
  have L: "libuuid_ok E" using env by blast
  obtain va where va: "vert s a = Some va" "vertex_ok va" using w(2) ab(1) by (auto elim: wf_graphE)
  obtain vb where vb: "vert s b = Some vb" "vertex_ok vb" using w(2) ab(2) by (auto elim: wf_graphE)
  obtain j where j: "config_of d = Some j" using w(4) by blast
  have find: "find_vertex E d v1 s = Some a" "find_vertex E d v2 s = Some b"
    using find_vertex_in [OF L w(2)] ab uu by auto
  from would_make_cyclic_ok [OF env w(1,2) j ab va(2) _ vb(2)] va vb ac obtain u where
    u: "connection_would_make_cyclic E d va vb s = (Inr False, u)" "same_cells s u"
    by (auto simp: uuid_of_def)
  note su = same_cells_facts [OF u(2)]
  have wfu: "wf_graph u ?g" "wf_dag d u" using su(1) w(2) wf_dag_same_cells [OF u(2) wf] by auto
  have "\<exists>r t. vertex_connect E a (Some b) u = (Inr r, t) \<and> wf_graph t ?g \<and>
      arcs t ?g = insert (a, b) (arcs u ?g) \<and> rewires {a, b} u t"
  proof (cases "(a, b) \<in> arcs u ?g")
    case True
    with vertex_connect_old [OF L wfu(1) ab True] wfu(1) show ?thesis by auto
  next
    case False
    then have "Some b \<notin> set (succs u a)" using ab(1) by (simp add: arcs_def)
    with vertex_connect_new [OF L wfu(1) ab False] wfu(1) ab show ?thesis
      by (auto simp: wf_graph_link rewires_link arcs_link dest: wf_graph_alive)
  qed
  then obtain r t where t: "vertex_connect E a (Some b) u = (Inr r, t)" "wf_graph t ?g"
    "arcs t ?g = insert (a, b) (arcs u ?g)" "rewires {a, b} u t" by blast
  have "wf_dag d t" using wf_dag_rewires [OF wfu(2) t(4) t(2)] t(3) su(2) ac by simp
  moreover have "DAG_connect E d v1 v2 s = (Inr True, t)"
    using find va vb ab u(1) t(1) by (simp add: DAG_connect_def ebind_def)
  ultimately show ?thesis using t(3) su(2) touches_onlyI [OF u(2) t(4)] by auto
qed

lemma DAG_connect_cycle:
  assumes env: "env_ok E" and wf: "wf_dag d s" and ab: "a \<in> set (graph_of d)" "b \<in> set (graph_of d)"
    and uu: "v_uuid v1 = uuid_of s a" "v_uuid v2 = uuid_of s b"
    and cyc: "\<not> acyclic (insert (a, b) (arcs s (graph_of d)))"
  shows "\<exists>t. DAG_connect E d v1 v2 s = (Inl ThrowDAGException, t) \<and> same_cells s t"
proof -
  note w = wf_dagD [OF wf]
  have L: "libuuid_ok E" using env by blast
  obtain va where va: "vert s a = Some va" "vertex_ok va" using w(2) ab(1) by (auto elim: wf_graphE)
  obtain vb where vb: "vert s b = Some vb" "vertex_ok vb" using w(2) ab(2) by (auto elim: wf_graphE)
  obtain j where j: "config_of d = Some j" using w(4) by blast
  have find: "find_vertex E d v1 s = Some a" "find_vertex E d v2 s = Some b"
    using find_vertex_in [OF L w(2)] ab uu by auto
  from would_make_cyclic_ok [OF env w(1,2) j ab va(2) _ vb(2)] va vb cyc obtain u where
    u: "connection_would_make_cyclic E d va vb s = (Inr True, u)" "same_cells s u"
    by (auto simp: uuid_of_def)
  have "vertex_print E (length (graph_of d)) u (the (vert u c)) \<noteq> None" if "c \<in> set (graph_of d)" for c
    by (rule vertex_print_returns [OF _ _ that card_reach_le [OF _ that]])
      (simp_all add: same_cells_facts(1,2) [OF u(2)] w(2,3))
  with ab obtain t1 where "cycle_error_text E d a b u = Inr t1"
    unfolding cycle_error_text_def Let_def by (fastforce split: option.splits)
  then have "DAG_connect E d v1 v2 s = (Inl ThrowDAGException, u)"
    using find va vb ab u(1) by (simp add: DAG_connect_def ebind_def)
  with u(2) show ?thesis by blast
qed

lemma DAG_connect_missing:
  assumes "env_ok E" "wf_dag d s"
    and "v_uuid v1 \<notin> uuid_of s ` set (graph_of d) \<or> v_uuid v2 \<notin> uuid_of s ` set (graph_of d)"
  shows "DAG_connect E d v1 v2 s = (Inr False, s)"
proof -
  note find = find_vertex_None [OF env_ok_libuuid [OF assms(1)], of d _ s]
  from assms(3) consider "find_vertex E d v1 s = None" | "find_vertex E d v2 s = None"
    unfolding find by blast
  then show ?thesis by cases (simp_all add: DAG_connect_def)
qed

section \<open>Adding a vertex\<close>

text \<open>A vertex as the constructors and \<open>clone\<close> make it: no edges yet.\<close>

definition fresh_vertex :: "DAGVertex \<Rightarrow> bool" where
  "fresh_vertex v \<longleftrightarrow> vertex_ok v \<and> v_edges v = [] \<and> v_in v = 0 \<and> v_uuid v \<noteq> 0"

definition alloc :: "DAGVertex \<Rightarrow> store \<Rightarrow> store" where
  "alloc v s = s\<lparr>cells := (cells s)(brk s \<mapsto> \<lparr>use_count = 1, obj = v\<rparr>), brk := Suc (brk s)\<rparr>"

lemma vert_alloc: "vert (alloc v s) c = (if c = brk s then Some v else vert s c)"
  by (simp add: vert_def alloc_def)

lemma brk_alloc [simp]: "brk (alloc v s) = Suc (brk s)"
  by (simp add: alloc_def)

lemma wf_dag_alloc:
  assumes wf: "wf_dag d s" and v: "fresh_vertex v" and new: "v_uuid v \<notin> uuid_of s ` set (graph_of d)"
    and len: "Suc (length (graph_of d)) < 2 ^ 64"
  shows "wf_dag (d\<lparr>graph_of := graph_of d @ [brk s]\<rparr>) (alloc v s)"
    "arcs (alloc v s) (graph_of d @ [brk s]) = arcs s (graph_of d)"
proof -
  let ?t = "alloc v s" and ?n = "brk s" and ?g = "graph_of d"
  note w = wf_dagD [OF wf]
  have n: "?n \<notin> set ?g" using w(7) by blast
  have same: "vert ?t a = vert s a" if "a \<in> set ?g" for a using that n by (auto simp: vert_alloc)
  have suc: "succs ?t a = (if a = ?n then [] else succs s a)" for a
    using v by (simp add: succs_def vert_alloc fresh_vertex_def)
  have gt: "wf_graph ?t ?g" "arcs ?t ?g = arcs s ?g" using wf_graph_cong [OF same] w(2) by blast+
  show arcs: "arcs ?t (?g @ [?n]) = arcs s ?g" using n by (auto simp: arcs_def suc split: if_splits)
  have pr: "preds ?t (?g @ [?n]) a = preds ?t ?g a" for a
    by (auto simp: preds_arcs arcs gt(2))
  have "?n \<notin> snd ` arcs s ?g" using arcs_in_graph [OF w(2)] n by auto
  then have prn: "preds ?t ?g ?n = {}" by (force simp: preds_arcs gt(2))
  have uu: "uuid_of ?t a = uuid_of s a" if "a \<in> set ?g" for a using same [OF that] by (simp add: uuid_of_def)
  have un: "uuid_of ?t ?n = v_uuid v" by (simp add: uuid_of_def vert_alloc)
  have "wf_vertex ?t (?g @ [?n]) a" if "a \<in> set (?g @ [?n])" for a
  proof (cases "a = ?n")
    case True
    then show ?thesis using v by (simp add: wf_vertex_def vert_alloc suc pr prn fresh_vertex_def)
  next
    case False
    with that have "a \<in> set ?g" by simp
    with gt(1) show ?thesis by (force simp: wf_vertex_def pr elim!: wf_graphE)
  qed
  moreover have "distinct (map (uuid_of ?t) (?g @ [?n]))"
    using wf_graph_uuids [OF gt(1)] new uu un by (auto simp: image_iff)
  ultimately have "wf_graph ?t (?g @ [?n])"
    using len n wf_graph_distinct [OF w(2)] by (simp add: wf_graph_def)
  moreover have "wf_store ?t" using w(1) by (auto simp: wf_store_def vert_alloc less_Suc_eq)
  moreover have "owners ?t a = 1" if "a \<in> set (?g @ [?n])" for a
    using that w(5) n by (auto simp: owners_def alloc_def)
  moreover have "uuid_of ?t a \<noteq> 0" if "a \<in> set (?g @ [?n])" for a
    using that w(6) uu un v by (auto simp: fresh_vertex_def)
  ultimately show "wf_dag (d\<lparr>graph_of := ?g @ [?n]\<rparr>) ?t"
    using w(3,4) arcs by (simp add: wf_dag_def)
qed

lemma add_vertex_ok:
  assumes env: "env_ok E" and wf: "wf_dag d s" and v: "fresh_vertex v" and len: "Suc (length (graph_of d)) < 2 ^ 64"
    and new: "v_uuid v \<notin> uuid_of s ` set (graph_of d)"
  shows "add_vertex E d v s = ((True, d\<lparr>graph_of := graph_of d @ [brk s]\<rparr>, snd (DAGVertex_move v)), alloc v s)"
proof -
  have "\<forall>a \<in> set (graph_of d). vert s a \<noteq> None" using wf_graph_alive [OF wf_dagD(2) [OF wf]] by blast
  from add_vertex_new [OF env_ok_libuuid [OF env] this new] show ?thesis by (simp add: alloc_def)
qed

lemma add_vertex_twice:
  assumes env: "env_ok E" and wf: "wf_dag d s" and old: "v_uuid v \<in> uuid_of s ` set (graph_of d)"
  shows "add_vertex E d v s = ((False, d, v), s)"
proof -
  have "\<forall>a \<in> set (graph_of d). vert s a \<noteq> None" using wf_graph_alive [OF wf_dagD(2) [OF wf]] by blast
  from add_vertex_old [OF env_ok_libuuid [OF env] this old] show ?thesis .
qed

lemma add_vertex_wf:
  assumes env: "env_ok E" and wf: "wf_dag d s" and v: "fresh_vertex v" and len: "Suc (length (graph_of d)) < 2 ^ 64"
    and add: "add_vertex E d v s = ((r, d', left), t)"
  shows "wf_dag d' t" "arcs t (graph_of d') = arcs s (graph_of d)"
    "v_uuid v \<in> uuid_of t ` set (graph_of d')" "uuid_of s ` set (graph_of d) \<subseteq> uuid_of t ` set (graph_of d')"
proof -
  have "wf_dag d' t \<and> arcs t (graph_of d') = arcs s (graph_of d) \<and>
      v_uuid v \<in> uuid_of t ` set (graph_of d') \<and> uuid_of s ` set (graph_of d) \<subseteq> uuid_of t ` set (graph_of d')"
  proof (cases "v_uuid v \<in> uuid_of s ` set (graph_of d)")
    case True
    with add add_vertex_twice [OF env wf True] wf show ?thesis by auto
  next
    case False
    note new = wf_dag_alloc [OF wf v False len]
    have d': "d' = d\<lparr>graph_of := graph_of d @ [brk s]\<rparr>" "t = alloc v s"
      using add add_vertex_ok [OF env wf v len False] by auto
    have "uuid_of t a = uuid_of s a" if "a \<in> set (graph_of d)" for a
      using wf_dagD(7) [OF wf that] by (simp add: d' uuid_of_def vert_alloc)
    moreover have "uuid_of t (brk s) = v_uuid v" by (simp add: d' uuid_of_def vert_alloc)
    ultimately show ?thesis using new by (auto simp: d')
  qed
  then show "wf_dag d' t" "arcs t (graph_of d') = arcs s (graph_of d)"
    "v_uuid v \<in> uuid_of t ` set (graph_of d')" "uuid_of s ` set (graph_of d) \<subseteq> uuid_of t ` set (graph_of d')"
    by blast+
qed

end
