(* ===== verification/Sample_Graph.thy ===== *)
theory Sample_Graph
  imports Dag_Safety
begin

text \<open>
  A small store with a graph of three vertices, used to show that the hypotheses of the theorems
  can be met: \<open>extract\<close> at address 0, \<open>transform\<close> at 1 and \<open>load\<close> at 2, with the arcs
  \<open>extract -> transform -> load\<close>. The task of \<open>extract\<close> has one stage; \<open>load\<close> has no task.
\<close>

definition sample_task :: "uuid_t \<Rightarrow> string \<Rightarrow> TaskStage list \<Rightarrow> Task" where
  "sample_task u l stages = \<lparr>t_iterating = False, t_kill = False, t_stages = stages, t_label = l,
     t_callback = None, t_plugin = None, t_uuid = u, t_json_config = None, t_json_inputs = None\<rparr>"

definition sample_edge :: "uuid_t \<Rightarrow> addr \<Rightarrow> DAGEdge" where
  "sample_edge u a = \<lparr>e_uuid = u, e_status = edge_initialized, e_connection = Some a\<rparr>"

definition sample_vertex :: "uuid_t \<Rightarrow> string \<Rightarrow> DAGEdge list \<Rightarrow> size_t \<Rightarrow> Task option \<Rightarrow> DAGVertex" where
  "sample_vertex u l es n t = \<lparr>v_uuid = u, v_status = INITIALIZED, v_label = l, v_edges = es, v_in = n, v_task = t\<rparr>"

definition sample_store :: store where
  "sample_store = \<lparr>cells = [0 \<mapsto> \<lparr>use_count = 1, obj = sample_vertex 1 ''extract'' [sample_edge 4 1] 0
       (Some (sample_task 6 ''extract'' [\<lparr>s_class = PrintStage, s_label = ''print'', s_uuid = 8, s_running = False\<rparr>]))\<rparr>,
     1 \<mapsto> \<lparr>use_count = 1, obj = sample_vertex 2 ''transform'' [sample_edge 5 2] 1 (Some (sample_task 7 ''transform'' []))\<rparr>,
     2 \<mapsto> \<lparr>use_count = 1, obj = sample_vertex 3 ''load'' [] 1 None\<rparr>],
     brk = 3, draws = 9\<rparr>"

definition sample_graph :: "addr list" where
  "sample_graph = [0, 1, 2]"

lemma vert_sample_store [simp]:
  "vert sample_store 0 = Some (sample_vertex 1 ''extract'' [sample_edge 4 1] 0
     (Some (sample_task 6 ''extract'' [\<lparr>s_class = PrintStage, s_label = ''print'', s_uuid = 8, s_running = False\<rparr>])))"
  "vert sample_store (Suc 0) = Some (sample_vertex 2 ''transform'' [sample_edge 5 2] 1 (Some (sample_task 7 ''transform'' [])))"
  "vert sample_store 2 = Some (sample_vertex 3 ''load'' [] 1 None)"
  by (simp_all add: vert_def sample_store_def)

lemma succs_sample_store [simp]:
  "succs sample_store 0 = [Some 1]" "succs sample_store (Suc 0) = [Some 2]" "succs sample_store 2 = []"
  by (simp_all add: succs_def sample_vertex_def sample_edge_def)

lemma arcs_sample: "arcs sample_store sample_graph = {(0, 1), (1, 2)}"
  by (auto simp: arcs_def sample_graph_def)

lemma preds_sample [simp]:
  "preds sample_store sample_graph 0 = {}" "preds sample_store sample_graph (Suc 0) = {0}"
  "preds sample_store sample_graph 2 = {Suc 0}"
  by (auto simp: preds_arcs arcs_sample)

lemma wf_sample_store: "wf_store sample_store"
  by (auto simp: wf_store_def vert_def sample_store_def split: if_splits)

lemma wf_sample_graph: "wf_graph sample_store sample_graph"
proof -
  have "wf_vertex sample_store sample_graph a" if "a \<in> {0, Suc 0, 2}" for a
    using that
    by (auto simp: wf_vertex_def)
      (auto simp: sample_vertex_def sample_graph_def sample_task_def vertex_ok_def task_ok_def stage_ok_def)
  then show ?thesis
    by (simp add: wf_graph_def sample_graph_def uuid_of_def sample_vertex_def)
qed

lemma acyclic_sample: "acyclic (arcs sample_store sample_graph)"
proof (rule acyclicI_order [where f = "\<lambda>a. - int a"])
  show "- int b < - int a" if "(a, b) \<in> arcs sample_store sample_graph" for a b
    using that by (auto simp: arcs_sample)
qed

lemmas sample_graph_ok = wf_sample_store wf_sample_graph acyclic_sample

definition sample_dag :: DAG where
  "sample_dag = \<lparr>graph_of = sample_graph, title_of = ''etl'', config_of = Some JNull\<rparr>"

lemma wf_sample_dag: "wf_dag sample_dag sample_store"
proof -
  have "owners sample_store a = 1 \<and> uuid_of sample_store a \<noteq> 0" if "a \<in> set sample_graph" for a
    using that by (auto simp: sample_graph_def owners_def sample_store_def uuid_of_def vert_def sample_vertex_def)
  then show ?thesis
    by (simp add: wf_dag_def sample_dag_def wf_sample_store wf_sample_graph acyclic_sample)
qed

lemma graph_of_sample [simp]: "graph_of sample_dag = sample_graph"
  by (simp add: sample_dag_def)

lemma sample_in_graph [simp]: "0 \<in> set sample_graph" "Suc 0 \<in> set sample_graph" "2 \<in> set sample_graph"
  by (simp_all add: sample_graph_def)

text \<open>Two vertices that point to each other: well formed, but cyclic.\<close>

definition cycle_store :: store where
  "cycle_store = \<lparr>cells = [0 \<mapsto> \<lparr>use_count = 1, obj = sample_vertex 1 ''a'' [sample_edge 3 1] 1 None\<rparr>,
     1 \<mapsto> \<lparr>use_count = 1, obj = sample_vertex 2 ''b'' [sample_edge 4 0] 1 None\<rparr>], brk = 2, draws = 5\<rparr>"

lemma vert_cycle_store [simp]:
  "vert cycle_store 0 = Some (sample_vertex 1 ''a'' [sample_edge 3 1] 1 None)"
  "vert cycle_store (Suc 0) = Some (sample_vertex 2 ''b'' [sample_edge 4 0] 1 None)"
  by (simp_all add: vert_def cycle_store_def)

lemma arcs_cycle: "arcs cycle_store [0, 1] = {(0, 1), (1, 0)}"
  by (auto simp: arcs_def succs_def sample_vertex_def sample_edge_def)

lemma wf_cycle_graph: "wf_graph cycle_store [0, 1]"
proof -
  have "preds cycle_store [0, 1] 0 = {1}" "preds cycle_store [0, 1] 1 = {0}"
    unfolding preds_arcs arcs_cycle by auto
  then show ?thesis
    by (simp add: wf_graph_def wf_vertex_def succs_def uuid_of_def sample_vertex_def sample_edge_def vertex_ok_def)
qed

text \<open>
  Two graphs with the same four vertices and the same numbers of edges at each, but with different edges:
  \<open>a -> c\<close>, \<open>b -> d\<close> in the first and \<open>a -> d\<close>, \<open>b -> c\<close> in the second.
\<close>

definition cross_store :: store where
  "cross_store = \<lparr>cells = (\<lambda>i. map_option (\<lambda>v. \<lparr>use_count = 1, obj = v\<rparr>) (map_of
     [(2, sample_vertex 1 ''a'' [sample_edge 9 4] 0 None), (3, sample_vertex 2 ''b'' [sample_edge 10 5] 0 None),
      (4, sample_vertex 3 ''c'' [] 1 None), (5, sample_vertex 4 ''d'' [] 1 None),
      (6, sample_vertex 1 ''a'' [sample_edge 11 9] 0 None), (7, sample_vertex 2 ''b'' [sample_edge 12 8] 0 None),
      (8, sample_vertex 3 ''c'' [] 1 None), (9, sample_vertex 4 ''d'' [] 1 None)] i)), brk = 10, draws = 13\<rparr>"

definition straight_dag :: DAG where
  "straight_dag = \<lparr>graph_of = [2, 3, 4, 5], title_of = ''straight'', config_of = Some JNull\<rparr>"

definition crossed_dag :: DAG where
  "crossed_dag = \<lparr>graph_of = [6, 7, 8, 9], title_of = ''crossed'', config_of = Some JNull\<rparr>"

lemma vert_cross:
  "vert cross_store i = map_of
     [(2, sample_vertex 1 ''a'' [sample_edge 9 4] 0 None), (3, sample_vertex 2 ''b'' [sample_edge 10 5] 0 None),
      (4, sample_vertex 3 ''c'' [] 1 None), (5, sample_vertex 4 ''d'' [] 1 None),
      (6, sample_vertex 1 ''a'' [sample_edge 11 9] 0 None), (7, sample_vertex 2 ''b'' [sample_edge 12 8] 0 None),
      (8, sample_vertex 3 ''c'' [] 1 None), (9, sample_vertex 4 ''d'' [] 1 None)] i"
  by (simp add: vert_def cross_store_def option.map_comp comp_def option.map_ident)

lemma arcs_cross:
  "arcs cross_store [2, 3, 4, 5] = {(2, 4), (3, 5)}" "arcs cross_store [6, 7, 8, 9] = {(6, 9), (7, 8)}"
  by (auto simp: arcs_def succs_def vert_cross sample_vertex_def sample_edge_def)

lemma wf_cross: "wf_dag straight_dag cross_store" "wf_dag crossed_dag cross_store"
proof -
  have "brk cross_store = 10" by (simp add: cross_store_def)
  then have st: "wf_store cross_store" by (auto simp: wf_store_def vert_cross split: if_splits)
  have order: "acyclic (arcs cross_store g)" if "\<And>a b. (a, b) \<in> arcs cross_store g \<Longrightarrow> a < b" for g
    by (rule acyclicI_order [where f = "\<lambda>a. - int a"]) (use that in simp)
  have ac1: "acyclic (arcs cross_store [2, 3, 4, 5])" by (rule order) (auto simp: arcs_cross)
  have ac2: "acyclic (arcs cross_store [6, 7, 8, 9])" by (rule order) (auto simp: arcs_cross)
  have preds: "preds cross_store [2, 3, 4, 5] = (\<lambda>a. if a = 4 then {2} else if a = 5 then {3} else {})"
      "preds cross_store [6, 7, 8, 9] = (\<lambda>a. if a = 9 then {6} else if a = 8 then {7} else {})"
    by (auto simp: preds_arcs arcs_cross fun_eq_iff)
  have own: "owners cross_store a = 1" if "a \<in> {2, 3, 4, 5, 6, 7, 8, 9}" for a
    using that by (auto simp: owners_def cross_store_def)
  show "wf_dag straight_dag cross_store"
    using st ac1 ac2 own by (simp add: wf_dag_def straight_dag_def wf_graph_def wf_vertex_def preds succs_def uuid_of_def vert_cross
        sample_vertex_def sample_edge_def vertex_ok_def)
  show "wf_dag crossed_dag cross_store"
    using st ac1 ac2 own by (simp add: wf_dag_def crossed_dag_def wf_graph_def wf_vertex_def preds succs_def uuid_of_def vert_cross
        sample_vertex_def sample_edge_def vertex_ok_def)
qed

end
