(* ===== verification/Task_Queue.thy ===== *)
theory Task_Queue
  imports Tasks
begin

text \<open>
  Class \<open>ConcurrentTaskQueue\<close> (\<open>lib/concurrent_task_queue.cxx\<close> and its header). Every member function
  holds the mutex from its first to its last statement, so each is one atomic operation on the deque
  of \<open>unique_ptr\<close>s; a null pointer is \<open>None\<close>. The two waits return when their predicate holds:
  \<open>wait_and_pop\<close> is \<open>None\<close> while it blocks, and \<open>wait_for_and_pop\<close> is what happens when its time is
  up or the queue is not empty. The locale \<open>fifo\<close> is what the scheduler relies on.
\<close>

type_synonym task_ptr = "Task option"

type_synonym task_queue = "task_ptr list"

section \<open>The program\<close>

definition ConcurrentTaskQueue_new :: task_queue where
  "ConcurrentTaskQueue_new = []"

definition queue_not_empty :: "task_queue \<Rightarrow> bool" where
  "queue_not_empty q \<longleftrightarrow> \<not> (q = [])"

definition queue_size :: "task_queue \<Rightarrow> nat" where
  "queue_size q = length q"

definition queue_push :: "task_ptr \<Rightarrow> task_queue \<Rightarrow> task_queue" where
  "queue_push data q = q @ [data]"

definition queue_empty :: "task_queue \<Rightarrow> bool" where
  "queue_empty q \<longleftrightarrow> q = []"

definition queue_clear :: "task_queue \<Rightarrow> task_queue" where
  "queue_clear q = ConcurrentTaskQueue_new"

text \<open>\<open>popped_value\<close> is an output argument: the operation returns its new value.\<close>

definition try_pop :: "task_ptr \<Rightarrow> task_queue \<Rightarrow> bool \<times> task_ptr \<times> task_queue" where
  "try_pop popped_value q =
     (case q of [] \<Rightarrow> (False, popped_value, q) | t # ts \<Rightarrow> (True, t, ts))"

definition wait_and_pop :: "task_queue \<Rightarrow> (task_ptr \<times> task_queue) option" where
  "wait_and_pop q = (if queue_not_empty q then Some (hd q, tl q) else None)"

definition wait_for_and_pop :: "task_ptr \<Rightarrow> task_queue \<Rightarrow> bool \<times> task_ptr \<times> task_queue" where
  "wait_for_and_pop popped_value q =
     (if \<not> queue_not_empty q then (False, popped_value, q) else (True, hd q, tl q))"

text \<open>
  The predicate of \<open>remove_if\<close> dereferences every pointer of the queue and moves each match into
  \<open>ret_ptr\<close>, so a later match replaces an earlier one.
\<close>

primrec remove_scan_queue ::
    "('z) libuuid_scheme \<Rightarrow> uuid_t \<Rightarrow> task_queue \<Rightarrow> task_ptr \<Rightarrow> (task_ptr \<times> task_queue) res" where
  "remove_scan_queue L u [] ret_ptr = Inr (ret_ptr, [])"
| "remove_scan_queue L u (t # ts) ret_ptr =
     (case t of
        None \<Rightarrow> Inl NullDeref
      | Some task \<Rightarrow>
          if as_string L (t_uuid task) = as_string L u
          then remove_scan_queue L u ts (Some task)
          else rbind (remove_scan_queue L u ts ret_ptr) (\<lambda>(r, kept). Inr (r, t # kept)))"

definition remove_task_from_queue ::
    "('z) libuuid_scheme \<Rightarrow> uuid_t \<Rightarrow> task_ptr \<Rightarrow> task_queue \<Rightarrow> (task_ptr \<times> task_queue) res" where
  "remove_task_from_queue L to_remove ret_ptr q =
     (if \<not> queue_empty q then remove_scan_queue L to_remove q ret_ptr else Inr (ret_ptr, q))"

section \<open>First in, first out\<close>

text \<open>What happens to a queue: a push, or a pop that found something.\<close>

datatype 'a channel_op = Push 'a | Pop

locale fifo =
  fixes contents :: "'q \<Rightarrow> 'a list"
    and push :: "'a \<Rightarrow> 'q \<Rightarrow> 'q"
    and pop :: "'q \<Rightarrow> ('a \<times> 'q) option"
  assumes contents_push: "contents (push x q) = contents q @ [x]"
    and pop_empty: "contents q = [] \<Longrightarrow> pop q = None"
    and pop_front: "contents q = x # xs \<Longrightarrow> \<exists>q'. pop q = Some (x, q') \<and> contents q' = xs"
begin

lemma pop_SomeD: "pop q = Some (x, q') \<Longrightarrow> contents q = x # contents q'"
proof (cases "contents q")
  case (Cons y ys)
  moreover assume "pop q = Some (x, q')"
  ultimately show ?thesis using pop_front [OF Cons] by auto
qed (simp add: pop_empty)

text \<open>
  Run a sequence of operations; a pop on the empty queue does nothing. What came out, followed by
  what is left, is what was there at first, followed by what was pushed.
\<close>

lemma conservation:
  assumes "run = rec_list (\<lambda>q. ([], q)) (\<lambda>c cs r q.
      case c of Push x \<Rightarrow> r (push x q)
      | Pop \<Rightarrow> (case pop q of None \<Rightarrow> r q | Some (x, q') \<Rightarrow> (x # fst (r q'), snd (r q'))))"
  shows "fst (run cs q) @ contents (snd (run cs q)) =
    contents q @ concat (map (\<lambda>c. case c of Push x \<Rightarrow> [x] | Pop \<Rightarrow> []) cs)"
  unfolding assms
proof (induction cs arbitrary: q)
  case (Cons c cs)
  show ?case
  proof (cases c)
    case (Push x)
    with Cons [of "push x q"] show ?thesis by (simp add: contents_push)
  next
    case Pop
    show ?thesis
    proof (cases "pop q")
      case None
      with Pop Cons [of q] show ?thesis by simp
    next
      case (Some p)
      obtain x q' where p: "p = (x, q')" by (cases p)
      with Some Pop Cons [of q'] pop_SomeD [of q x q'] show ?thesis by simp
    qed
  qed
qed simp

end

definition queue_pop :: "task_queue \<Rightarrow> (task_ptr \<times> task_queue) option" where
  "queue_pop q = (case wait_for_and_pop None q of (found, t, q') \<Rightarrow> if found then Some (t, q') else None)"

interpretation task_fifo: fifo id queue_push queue_pop
  by unfold_locales
    (auto simp: queue_push_def queue_pop_def wait_for_and_pop_def queue_not_empty_def)

interpretation blocking_fifo: fifo id queue_push wait_and_pop
  by unfold_locales (auto simp: queue_push_def wait_and_pop_def queue_not_empty_def)

text \<open>Running a sequence of operations on the queue.\<close>

fun run_queue :: "task_ptr channel_op list \<Rightarrow> task_queue \<Rightarrow> task_ptr list \<times> task_queue" where
  "run_queue [] q = ([], q)"
| "run_queue (Push t # cs) q = run_queue cs (queue_push t q)"
| "run_queue (Pop # cs) q =
     (case queue_pop q of None \<Rightarrow> run_queue cs q
      | Some (t, q') \<Rightarrow> (let (out, q'') = run_queue cs q' in (t # out, q'')))"

lemma run_queue_rec:
  "run_queue cs q = rec_list (\<lambda>q. ([], q)) (\<lambda>c cs r q.
      case c of Push x \<Rightarrow> r (queue_push x q)
      | Pop \<Rightarrow> (case queue_pop q of None \<Rightarrow> r q | Some (x, q') \<Rightarrow> (x # fst (r q'), snd (r q')))) cs q"
  by (induction cs q rule: run_queue.induct) (auto split: option.splits prod.splits)

lemma run_queue_conservation:
  assumes "run_queue cs q = (out, q')"
  shows "out @ q' = q @ concat (map (\<lambda>c. case c of Push t \<Rightarrow> [t] | Pop \<Rightarrow> []) cs)"
  using task_fifo.conservation [OF refl, of cs q] unfolding run_queue_rec [symmetric] assms by simp

section \<open>Removing a task\<close>

lemma remove_scan_queue_ok:
  assumes "libuuid_ok L" "None \<notin> set q"
  shows "remove_scan_queue L u q r =
    Inr (case filter (\<lambda>t. map_option t_uuid t = Some u) (rev q) of [] \<Rightarrow> r | t # _ \<Rightarrow> t,
         filter (\<lambda>t. map_option t_uuid t \<noteq> Some u) q)"
  using assms(2)
proof (induction q arbitrary: r)
  case (Cons t q)
  then obtain task where t: "t = Some task" by (cases t) auto
  have "as_string L (t_uuid task) = as_string L u \<longleftrightarrow> t_uuid task = u"
    using assms(1) by (rule as_string_eq_iff)
  with Cons t show ?case by (auto split: list.splits simp: append_eq_Cons_conv)
qed simp

lemma remove_scan_queue_null:
  "None \<in> set q \<Longrightarrow> remove_scan_queue L u q r = Inl NullDeref"
  by (induction q arbitrary: r) (auto split: option.splits)

end
