(* ===== verification/Logging.thy ===== *)
theory Logging
  imports Uuid
begin

text \<open>
  The logger (\<open>include/dag_scheduler/logging.h\<close>, \<open>lib/logging.cxx\<close>) and the base class of everything that
  logs (\<open>include/dag_scheduler/logged_class.hpp\<close>).

  Boost.Log's core is the list of its sinks; a sink has a stream and a filter on severity and tag. The
  dictionary \<open>loggers_\<close> holds weak pointers, here the numbers of the sinks. Every operation on the
  dictionary holds \<open>loggers_mutex_\<close> from beginning to end and is one step. What a message is and the line
  a stream gets for it are separate: \<open>log_line\<close> is the layout, on the texts that Boost.Log has for the
  attributes of a record. The model leaves out the sink of last resort that Boost.Log uses while the core has
  none.
\<close>

datatype severity_level = Trace | Debug | Info | Warning | Error | Fatal

primrec severity_rank :: "severity_level \<Rightarrow> nat" where
  "severity_rank Trace = 0"
| "severity_rank Debug = 1"
| "severity_rank Info = 2"
| "severity_rank Warning = 3"
| "severity_rank Error = 4"
| "severity_rank Fatal = 5"

instantiation severity_level :: linorder
begin

definition less_eq_severity_level :: "severity_level \<Rightarrow> severity_level \<Rightarrow> bool" where
  "less_eq_severity_level a b \<longleftrightarrow> severity_rank a \<le> severity_rank b"

definition less_severity_level :: "severity_level \<Rightarrow> severity_level \<Rightarrow> bool" where
  "less_severity_level a b \<longleftrightarrow> severity_rank a < severity_rank b"

instance
proof
  fix a b :: severity_level
  show "a \<le> b \<Longrightarrow> b \<le> a \<Longrightarrow> a = b"
    by (cases a; cases b) (simp_all add: less_eq_severity_level_def)
qed (auto simp: less_eq_severity_level_def less_severity_level_def)

end

datatype log_stream = Cout | Cerr | Clog | LogFile string

text \<open>A tag is its text and the address of the buffer that holds it.\<close>

record LogTag =
  lt_buf :: nat
  lt_tag :: string

record TextSink =
  sk_stream :: log_stream
  sk_level :: severity_level
  sk_tag :: string

record logging =
  log_init :: bool
  loggers :: "(LogTag \<times> nat) list"
  core_sinks :: "(nat \<times> TextSink) list"
  next_sink :: nat
  next_buf :: nat

definition logging_start :: logging where
  "logging_start = \<lparr>log_init = False, loggers = [], core_sinks = [], next_sink = 0, next_buf = 0\<rparr>"

section \<open>Tags\<close>

definition LogTag_new :: "string \<Rightarrow> logging \<Rightarrow> LogTag \<times> logging" where
  "LogTag_new tag g = (\<lparr>lt_buf = next_buf g, lt_tag = tag\<rparr>, g\<lparr>next_buf := Suc (next_buf g)\<rparr>)"

definition LogTag_tag :: "LogTag \<Rightarrow> string" where
  "LogTag_tag t = c_str (lt_tag t)"

text \<open>\<open>lhs.tag() == rhs.tag()\<close> compares two pointers.\<close>

definition LogTag_eq :: "LogTag \<Rightarrow> LogTag \<Rightarrow> bool" where
  "LogTag_eq lhs rhs \<longleftrightarrow> lt_buf lhs = lt_buf rhs"

definition LogTag_print :: "LogTag \<Rightarrow> string" where
  "LogTag_print t = LogTag_tag t"

text \<open>\<open>std::hash<LogTag>\<close> hashes the text; \<open>H\<close> is \<open>std::hash<std::string>\<close>.\<close>

definition LogTag_hash :: "(string \<Rightarrow> size_t) \<Rightarrow> LogTag \<Rightarrow> size_t" where
  "LogTag_hash H t = H (LogTag_tag t)"

definition LogTag_for_this :: "string \<Rightarrow> logging \<Rightarrow> LogTag \<times> logging" where
  "LogTag_for_this type_and_address g = LogTag_new type_and_address g"

section \<open>Sinks\<close>

definition init :: "logging \<Rightarrow> bool \<times> logging" where
  "init g = (let g1 = (if \<not> log_init g then g\<lparr>log_init := True\<rparr> else g) in (log_init g1, g1))"

text \<open>The sink enters the core; its number is what the dictionary gets.\<close>

definition configure_sink :: "log_stream \<Rightarrow> severity_level \<Rightarrow> string \<Rightarrow> logging \<Rightarrow> nat \<times> logging" where
  "configure_sink stream level tag g =
     (next_sink g, g\<lparr>core_sinks := core_sinks g @ [(next_sink g, \<lparr>sk_stream = stream, sk_level = level, sk_tag = tag\<rparr>)],
                     next_sink := Suc (next_sink g)\<rparr>)"

definition find_sink :: "LogTag \<Rightarrow> (LogTag \<times> nat) list \<Rightarrow> (LogTag \<times> nat) option" where
  "find_sink tag dict = List.find (\<lambda>(k, _). LogTag_tag k = LogTag_tag tag) dict"

text \<open>\<open>loggers_[tag] = sink\<close>: a new entry copies the tag into a new buffer.\<close>

definition loggers_assign :: "LogTag \<Rightarrow> nat \<Rightarrow> logging \<Rightarrow> logging" where
  "loggers_assign tag sink g =
     (if \<exists>(k, _) \<in> set (loggers g). LogTag_eq k tag
      then g\<lparr>loggers := map (\<lambda>(k, i). if LogTag_eq k tag then (k, sink) else (k, i)) (loggers g)\<rparr>
      else g\<lparr>loggers := loggers g @ [(tag\<lparr>lt_buf := next_buf g\<rparr>, sink)], next_buf := Suc (next_buf g)\<rparr>)"

text \<open>The four functions that add a sink differ in the stream only.\<close>

definition add_stream_logger :: "log_stream \<Rightarrow> LogTag \<Rightarrow> severity_level \<Rightarrow> logging \<Rightarrow> bool \<times> logging" where
  "add_stream_logger stream tag level g =
     (if find_sink tag (loggers g) = None
      then (let (sink, g1) = configure_sink stream level (LogTag_tag tag) g
            in (True, loggers_assign tag sink g1))
      else (False, g))"

definition add_std_cout_logger :: "LogTag \<Rightarrow> severity_level \<Rightarrow> logging \<Rightarrow> bool \<times> logging" where
  "add_std_cout_logger = add_stream_logger Cout"

definition add_std_cerr_logger :: "LogTag \<Rightarrow> severity_level \<Rightarrow> logging \<Rightarrow> bool \<times> logging" where
  "add_std_cerr_logger = add_stream_logger Cerr"

definition add_std_log_logger :: "LogTag \<Rightarrow> severity_level \<Rightarrow> logging \<Rightarrow> bool \<times> logging" where
  "add_std_log_logger = add_stream_logger Clog"

definition add_file_logger :: "LogTag \<Rightarrow> string \<Rightarrow> severity_level \<Rightarrow> logging \<Rightarrow> bool \<times> logging" where
  "add_file_logger tag log_path level = add_stream_logger (LogFile log_path) tag level"

definition clear_all :: "logging \<Rightarrow> bool \<times> logging" where
  "clear_all g =
     (let removed = filter (\<lambda>(i, _). i \<notin> snd ` set (loggers g)) (core_sinks g);
          g1 = g\<lparr>core_sinks := removed\<rparr>;
          g2 = g1\<lparr>loggers := []\<rparr>;
          g3 = g2\<lparr>core_sinks := []\<rparr>
      in (loggers g3 = [], g3))"

text \<open>
  \<open>mktmpdir\<close>: the file system is the list of its directories; \<open>unique_path\<close> replaces the percent signs of the
  model, and \<open>create_directories\<close> may fail.
\<close>

record path_api =
  unique_path :: "string \<Rightarrow> string"
  create_directories_error :: "string \<Rightarrow> string option"

definition mktmpdir :: "path_api \<Rightarrow> string \<Rightarrow> (string list, string) exec" where
  "mktmpdir P model dirs =
     (let tmppath = unique_path P model
      in case create_directories_error P tmppath of
           Some e \<Rightarrow> (Inl (ThrowSystemError e), dirs)
         | None \<Rightarrow> (Inr tmppath, List.insert tmppath dirs))"

section \<open>Messages\<close>

text \<open>The texts of the attributes of a log record.\<close>

record log_attributes =
  la_time_stamp :: string
  la_thread_id :: string
  la_tag :: "string option"
  la_severity :: string
  la_line_id :: string

definition log_line :: "log_attributes \<Rightarrow> string \<Rightarrow> string" where
  "log_line A smessage =
     la_time_stamp A @ '' ['' @ la_thread_id A @ ''] '' @
     (case la_tag A of None \<Rightarrow> [] | Some tag \<Rightarrow> tag) @
     '' '' @ la_severity A @ ''('' @ la_line_id A @ '')'' @
     '' - '' @ [CHR 0x27] @ smessage @ [CHR 0x27]"

fun log_string_builder :: "string list \<Rightarrow> string" where
  "log_string_builder [] = []"
| "log_string_builder [arg] = arg"
| "log_string_builder (arg # args) = arg @ '' '' @ log_string_builder args"

text \<open>Where a message goes.\<close>

definition sink_accepts :: "TextSink \<Rightarrow> string \<Rightarrow> severity_level \<Rightarrow> bool" where
  "sink_accepts sink tag level \<longleftrightarrow> sk_level sink \<le> level \<and> sk_tag sink = tag"

definition write_severity_log ::
    "LogTag \<Rightarrow> severity_level \<Rightarrow> string \<Rightarrow> logging \<Rightarrow> (log_stream \<times> string) list \<times> logging" where
  "write_severity_log tag level message g =
     (let (_, g1) = init g
      in (map (\<lambda>(_, sink). (sk_stream sink, message))
           (filter (\<lambda>(_, sink). sink_accepts sink (LogTag_tag tag) level) (core_sinks g1)), g1))"

definition log_trace :: "LogTag \<Rightarrow> string list \<Rightarrow> logging \<Rightarrow> (log_stream \<times> string) list \<times> logging" where
  "log_trace tag args = write_severity_log tag Trace (log_string_builder args)"

definition log_debug :: "LogTag \<Rightarrow> string list \<Rightarrow> logging \<Rightarrow> (log_stream \<times> string) list \<times> logging" where
  "log_debug tag args = write_severity_log tag Debug (log_string_builder args)"

definition log_info :: "LogTag \<Rightarrow> string list \<Rightarrow> logging \<Rightarrow> (log_stream \<times> string) list \<times> logging" where
  "log_info tag args = write_severity_log tag Info (log_string_builder args)"

definition log_warn :: "LogTag \<Rightarrow> string list \<Rightarrow> logging \<Rightarrow> (log_stream \<times> string) list \<times> logging" where
  "log_warn tag args = write_severity_log tag Warning (log_string_builder args)"

definition log_error :: "LogTag \<Rightarrow> string list \<Rightarrow> logging \<Rightarrow> (log_stream \<times> string) list \<times> logging" where
  "log_error tag args = write_severity_log tag Error (log_string_builder args)"

definition log_fatal :: "LogTag \<Rightarrow> string list \<Rightarrow> logging \<Rightarrow> (log_stream \<times> string) list \<times> logging" where
  "log_fatal tag args = write_severity_log tag Fatal (log_string_builder args)"

section \<open>Classes that log\<close>

text \<open>Both give the tag, the two verdicts and the new state.\<close>

definition LoggedClass_new ::
    "string \<Rightarrow> severity_level \<Rightarrow> severity_level \<Rightarrow> logging \<Rightarrow> (LogTag \<times> bool \<times> bool) \<times> logging" where
  "LoggedClass_new type_and_address cout_level cerr_level g =
     (let (tag, g1) = LogTag_for_this type_and_address g;
          (cout_added, g2) = add_std_cout_logger tag cout_level g1;
          (cerr_added, g3) = add_std_cerr_logger tag cerr_level g2
      in ((tag, cout_added, cerr_added), g3))"

definition add_std_cout_std_err_logger_for_type_instance ::
    "string \<Rightarrow> severity_level \<Rightarrow> severity_level \<Rightarrow> logging \<Rightarrow> LogTag \<times> logging" where
  "add_std_cout_std_err_logger_for_type_instance type_and_address cout_level cerr_level g =
     (let (tag, g1) = LogTag_for_this type_and_address g;
          (_, g2) = add_std_cout_logger tag cout_level g1;
          (_, g3) = add_std_cerr_logger tag cerr_level g2
      in (tag, g3))"

section \<open>The invariant\<close>

text \<open>
  Two tags with one text have one hash but are different keys: a look-up in the hash map by a copy of a tag
  does not find the entry. That is why the functions search the dictionary by text.
\<close>

lemma LogTag_hash_not_eq:
  assumes "LogTag_new name g = (t, g1)" "LogTag_new name g1 = (u, g2)"
  shows "LogTag_hash H t = LogTag_hash H u \<and> LogTag_print t = LogTag_print u \<and> \<not> LogTag_eq t u"
  using assms by (auto simp: LogTag_new_def LogTag_hash_def LogTag_print_def LogTag_tag_def LogTag_eq_def)

lemma log_line_inject: "log_line A m = log_line A m' \<longleftrightarrow> m = m'"
  by (simp add: log_line_def)

lemma mktmpdir_exists: "mktmpdir P model dirs = (Inr p, dirs') \<Longrightarrow> p \<in> set dirs' \<and> set dirs \<subseteq> set dirs'"
  by (auto simp: mktmpdir_def Let_def split: option.splits)

text \<open>
  The dictionary and the core have the same sinks in the same order under the same tags, no two under one
  text, and no tag in the dictionary shares its buffer with another.
\<close>

definition logging_ok :: "logging \<Rightarrow> bool" where
  "logging_ok g \<longleftrightarrow>
     map (\<lambda>(k, i). (i, LogTag_tag k)) (loggers g) = map (\<lambda>(i, sink). (i, sk_tag sink)) (core_sinks g) \<and>
     distinct (map (\<lambda>(k, _). LogTag_tag k) (loggers g)) \<and>
     (\<forall>(k, i) \<in> set (loggers g). lt_buf k < next_buf g \<and> i < next_sink g)"

text \<open>The sink under a text.\<close>

definition sink_for :: "logging \<Rightarrow> string \<Rightarrow> TextSink option" where
  "sink_for g t = map_option snd (List.find (\<lambda>(_, sink). sk_tag sink = t) (core_sinks g))"

lemma find_map_eq:
  "map f xs = map g ys \<Longrightarrow> (List.find (\<lambda>x. P (f x)) xs = None) = (List.find (\<lambda>y. P (g y)) ys = None)"
proof -
  assume "map f xs = map g ys"
  then have "f ` set xs = g ` set ys" by (metis list.set_map)
  then show ?thesis by (auto simp: find_None_iff) (metis imageE imageI)+
qed

lemma find_sink_None: "logging_ok g \<Longrightarrow> find_sink tag (loggers g) = None \<longleftrightarrow> sink_for g (LogTag_tag tag) = None"
  using find_map_eq [of "\<lambda>(k, i). (i, LogTag_tag k)" "loggers g" "\<lambda>(i, sink). (i, sk_tag sink)" "core_sinks g"
      "\<lambda>(_, t). t = LogTag_tag tag"]
  by (simp add: logging_ok_def find_sink_def sink_for_def case_prod_unfold)

lemma tags_distinct: "logging_ok g \<Longrightarrow> distinct (map (\<lambda>(_, sink). sk_tag sink) (core_sinks g))"
  unfolding logging_ok_def
  by (elim conjE) (drule arg_cong [of _ _ "map snd"], simp add: case_prod_unfold comp_def)

text \<open>A tag of the caller does not share its buffer with an entry of the dictionary.\<close>

definition own_tag :: "LogTag \<Rightarrow> logging \<Rightarrow> bool" where
  "own_tag tag g \<longleftrightarrow> (\<forall>(k, _) \<in> set (loggers g). \<not> LogTag_eq k tag)"

lemma add_stream_logger_ok:
  assumes ok: "logging_ok g" and tag: "own_tag tag g"
  shows "add_stream_logger stream tag level g =
    (if sink_for g (LogTag_tag tag) = None
     then (True, g\<lparr>loggers := loggers g @ [(tag\<lparr>lt_buf := next_buf g\<rparr>, next_sink g)],
                  core_sinks := core_sinks g @ [(next_sink g, \<lparr>sk_stream = stream, sk_level = level, sk_tag = LogTag_tag tag\<rparr>)],
                  next_sink := Suc (next_sink g), next_buf := Suc (next_buf g)\<rparr>)
     else (False, g))" (is "_ = (if _ then (True, ?g) else _)")
    and "logging_ok (snd (add_stream_logger stream tag level g))"
proof -
  show eq: "add_stream_logger stream tag level g = (if sink_for g (LogTag_tag tag) = None then (True, ?g) else (False, g))"
    using tag find_sink_None [OF ok]
    by (auto simp: add_stream_logger_def configure_sink_def loggers_assign_def own_tag_def)
  have "logging_ok ?g" if "sink_for g (LogTag_tag tag) = None"
  proof -
    have "LogTag_tag tag \<notin> (\<lambda>(k, _). LogTag_tag k) ` set (loggers g)"
      using that find_sink_None [OF ok] by (force simp: find_sink_def find_None_iff)
    moreover have "LogTag_tag (tag\<lparr>lt_buf := b\<rparr>) = LogTag_tag tag" for b by (simp add: LogTag_tag_def)
    ultimately show ?thesis using ok by (fastforce simp: logging_ok_def)
  qed
  then show "logging_ok (snd (add_stream_logger stream tag level g))" using ok eq by simp
qed

lemma sink_for_append:
  "sink_for (g\<lparr>core_sinks := core_sinks g @ [(i, sink)]\<rparr>) t =
    (case sink_for g t of None \<Rightarrow> if sk_tag sink = t then Some sink else None | Some x \<Rightarrow> Some x)"
  by (auto simp: sink_for_def find_snoc split: option.split)

text \<open>The clients of the logger make a tag and add a sink under it: a table that keeps its first entry.\<close>

definition add_tagged :: "log_stream \<times> string \<times> severity_level \<Rightarrow> logging \<Rightarrow> bool \<times> logging" where
  "add_tagged v g = (case v of (stream, name, level) \<Rightarrow>
     let (tag, g1) = LogTag_new name g in add_stream_logger stream tag level g1)"

lemma core_sinks_LogTag_new [simp]: "core_sinks (snd (LogTag_new name g)) = core_sinks g"
  by (simp add: LogTag_new_def)

lemma LogTag_new_ok:
  assumes "logging_ok g"
  shows "logging_ok (snd (LogTag_new name g))" "own_tag (fst (LogTag_new name g)) (snd (LogTag_new name g))"
    "sink_for (snd (LogTag_new name g)) = sink_for g"
  using assms by (fastforce simp: LogTag_new_def logging_ok_def own_tag_def LogTag_eq_def sink_for_def)+

definition tagged_text :: "log_stream \<times> string \<times> severity_level \<Rightarrow> string" where
  "tagged_text v = (case v of (_, name, _) \<Rightarrow> c_str name)"

interpretation sinks: insert_once logging_ok sink_for tagged_text add_tagged
proof
  fix g :: logging and v :: "log_stream \<times> string \<times> severity_level" and k e
  assume ok: "logging_ok g"
  obtain stream name level where v: "v = (stream, name, level)" by (cases v)
  let ?t = "fst (LogTag_new name g)" and ?g = "snd (LogTag_new name g)"
  note new = LogTag_new_ok [OF ok, of name]
  have t: "LogTag_tag ?t = c_str name" by (simp add: LogTag_new_def LogTag_tag_def)
  have add: "add_tagged v g = add_stream_logger stream ?t level ?g" by (simp add: add_tagged_def v case_prod_unfold Let_def)
  note eq = add_stream_logger_ok [OF new(1,2), of stream level, unfolded t new(3)]
  have look: "sink_for (snd (add_tagged v g)) k = (case sink_for g k of
      None \<Rightarrow> if k = c_str name then Some \<lparr>sk_stream = stream, sk_level = level, sk_tag = k\<rparr> else None | Some x \<Rightarrow> Some x)" for k
    using sink_for_append [of ?g "next_sink ?g" "\<lparr>sk_stream = stream, sk_level = level, sk_tag = c_str name\<rparr>" k]
    unfolding add eq(1) by (auto simp: sink_for_def split: option.splits)
  show "logging_ok (snd (add_tagged v g))" using eq(2) add by simp
  show "fst (add_tagged v g) \<longleftrightarrow> sink_for g (tagged_text v) = None"
    unfolding add eq(1) by (simp add: v tagged_text_def)
  show "sink_for (snd (add_tagged v g)) k = None \<longleftrightarrow> sink_for g k = None \<and> k \<noteq> tagged_text v"
    unfolding look by (auto simp: v tagged_text_def split: option.split)
  show "sink_for (snd (add_tagged v g)) k = Some e" if "sink_for g k = Some e"
    unfolding look that by simp
qed

text \<open>A message reaches the one sink under its tag, if its severity passes, and nothing else.\<close>

lemma filter_distinct_find:
  "distinct (map f xs) \<Longrightarrow> filter (\<lambda>x. P x \<and> f x = a) xs =
    (case List.find (\<lambda>x. f x = a) xs of None \<Rightarrow> [] | Some x \<Rightarrow> if P x then [x] else [])"
proof (induction xs)
  case (Cons x xs)
  have "filter (\<lambda>y. P y \<and> f y = a) xs = []" if "f x = a"
    using Cons.prems that by (auto simp: filter_empty_conv) (metis imageI)
  with Cons show ?case by (auto split: option.split)
qed simp

lemma write_severity_log_ok:
  assumes "logging_ok g"
  shows "fst (write_severity_log tag level msg g) = (case sink_for g (LogTag_tag tag) of
      None \<Rightarrow> [] | Some sink \<Rightarrow> if sk_level sink \<le> level then [(sk_stream sink, msg)] else [])"
    "logging_ok (snd (write_severity_log tag level msg g))"
    "sink_for (snd (write_severity_log tag level msg g)) = sink_for g"
proof -
  have core: "core_sinks (snd (init g)) = core_sinks g" by (simp add: init_def)
  note one = filter_distinct_find [OF tags_distinct [OF assms], of "\<lambda>x. sk_level (snd x) \<le> level" "LogTag_tag tag"]
  show "fst (write_severity_log tag level msg g) = (case sink_for g (LogTag_tag tag) of
      None \<Rightarrow> [] | Some sink \<Rightarrow> if sk_level sink \<le> level then [(sk_stream sink, msg)] else [])"
    using one core
    by (auto simp: write_severity_log_def sink_for_def sink_accepts_def case_prod_unfold split: option.splits)
  show "logging_ok (snd (write_severity_log tag level msg g))" "sink_for (snd (write_severity_log tag level msg g)) = sink_for g"
    using assms by (auto simp: write_severity_log_def init_def logging_ok_def sink_for_def)
qed

lemma clear_all_ok: "fst (clear_all g) \<and> logging_ok (snd (clear_all g)) \<and> (\<forall>t. sink_for (snd (clear_all g)) t = None)"
  by (simp add: clear_all_def logging_ok_def sink_for_def)

section \<open>What reaches the streams\<close>

text \<open>Two registrations under one new tag: the first is made, the second is refused.\<close>

lemma LoggedClass_new_ok:
  assumes ok: "logging_ok g" and new: "sink_for g (c_str name) = None"
  shows "\<exists>tag g'. LoggedClass_new name cout_level cerr_level g = ((tag, True, False), g') \<and> logging_ok g' \<and>
    LogTag_tag tag = c_str name \<and>
    sink_for g' (c_str name) = Some \<lparr>sk_stream = Cout, sk_level = cout_level, sk_tag = c_str name\<rparr>"
proof -
  let ?v = "(Cout, name, cout_level)" and ?tag = "fst (LogTag_new name g)" and ?g = "snd (LogTag_new name g)"
  let ?g' = "snd (add_tagged ?v g)"
  have tagged: "add_tagged ?v g = add_std_cout_logger ?tag cout_level ?g"
    by (simp add: add_tagged_def add_std_cout_logger_def case_prod_unfold Let_def)
  have t: "LogTag_tag ?tag = c_str name" by (simp add: LogTag_new_def LogTag_tag_def)
  have ok': "logging_ok ?g'" and one: "fst (add_tagged ?v g)" and there: "sink_for ?g' (c_str name) \<noteq> None"
    using sinks.ins_inv [OF ok, of ?v] sinks.ins_new [OF ok, of ?v] sinks.ins_dom [OF ok, of ?v] new
    by (simp_all add: tagged_text_def)
  note step = add_stream_logger_ok(1) [OF LogTag_new_ok(1,2) [OF ok], of Cout name cout_level]
  have sink: "sink_for ?g' (c_str name) = Some \<lparr>sk_stream = Cout, sk_level = cout_level, sk_tag = c_str name\<rparr>"
    using new sink_for_append [of ?g "next_sink ?g" "\<lparr>sk_stream = Cout, sk_level = cout_level, sk_tag = c_str name\<rparr>"]
    unfolding tagged add_std_cout_logger_def step t by (simp add: sink_for_def)
  have "add_std_cerr_logger ?tag cerr_level ?g' = (False, ?g')"
    using there find_sink_None [OF ok', of ?tag] unfolding t by (auto simp: add_std_cerr_logger_def add_stream_logger_def)
  moreover have "add_std_cout_logger ?tag cout_level ?g = (True, ?g')" using one tagged by (simp add: prod_eq_iff)
  ultimately have "LoggedClass_new name cout_level cerr_level g = ((?tag, True, False), ?g')"
    by (simp add: LoggedClass_new_def LogTag_for_this_def case_prod_unfold Let_def)
  with ok' t sink show ?thesis by blast
qed

text \<open>
  C34. A class that derives from \<open>LoggedClass\<close> never gets its sink for standard error: the second
  registration finds the tag taken, returns \<open>false\<close>, and its errors are written to standard output only.
\<close>

theorem logged_class_errors_on_cout:
  assumes "logging_ok g" "sink_for g (c_str name) = None" "cout_level \<le> Error"
  shows "\<exists>tag g'. LoggedClass_new name cout_level cerr_level g = ((tag, True, False), g') \<and>
    fst (log_error tag args g') = [(Cout, log_string_builder args)]"
proof -
  from LoggedClass_new_ok [OF assms(1,2)] obtain tag g' where new: "LoggedClass_new name cout_level cerr_level g = ((tag, True, False), g')"
    and ok: "logging_ok g'" and sink: "sink_for g' (LogTag_tag tag) = Some \<lparr>sk_stream = Cout, sk_level = cout_level, sk_tag = c_str name\<rparr>"
    by metis
  from write_severity_log_ok(1) [OF ok, of tag Error "log_string_builder args"] sink assms(3)
  have "fst (log_error tag args g') = [(Cout, log_string_builder args)]" by (simp add: log_error_def)
  with new show ?thesis by blast
qed

theorem logged_class_errors_on_cout_witness:
  "\<exists>tag g'. LoggedClass_new ''DAG_0x1'' Info Error logging_start = ((tag, True, False), g') \<and>
    fst (log_error tag [''Failed'', ''to bind''] g') = [(Cout, ''Failed to bind'')]"
  using logged_class_errors_on_cout [of logging_start "''DAG_0x1''" Info Error "[''Failed'', ''to bind'']"]
  by (simp add: logging_start_def logging_ok_def sink_for_def less_eq_severity_level_def)

text \<open>
  The first sink under a tag stays whatever is registered later: a message with that tag is written
  once, to the stream of the first registration, if it passes that registration's level, and nowhere else.
\<close>

theorem first_sink_stays:
  assumes "logging_ok g" "sink_for g (LogTag_tag tag) = Some sink"
  shows "fst (write_severity_log tag level msg (fold (\<lambda>v s. snd (add_tagged v s)) vs g)) =
    (if sk_level sink \<le> level then [(sk_stream sink, msg)] else [])"
proof -
  let ?g = "fold (\<lambda>v s. snd (add_tagged v s)) vs g"
  have "logging_ok ?g" "sink_for ?g (LogTag_tag tag) = Some sink"
    using sinks.fold_ins [OF assms(1), of vs] assms(2) by blast+
  then show ?thesis by (simp add: write_severity_log_ok(1))
qed

theorem first_sink_stays_witness:
  "fst (write_severity_log \<lparr>lt_buf = 9, lt_tag = ''t''\<rparr> Info ''m''
     (snd (add_tagged (Cerr, ''t'', Trace) (snd (add_tagged (Clog, ''t'', Info) logging_start))))) = [(Clog, ''m'')]"
proof -
  let ?g = "snd (add_tagged (Clog, ''t'', Info) logging_start)"
  have "logging_ok logging_start" by (simp add: logging_start_def logging_ok_def)
  then have "logging_ok ?g" by (rule sinks.ins_inv)
  moreover have "sink_for ?g ''t'' = Some \<lparr>sk_stream = Clog, sk_level = Info, sk_tag = ''t''\<rparr>"
    by (simp add: add_tagged_def logging_start_def LogTag_new_def add_stream_logger_def find_sink_def configure_sink_def
        loggers_assign_def LogTag_tag_def c_str_def sink_for_def)
  ultimately show ?thesis
    using first_sink_stays [of ?g "\<lparr>lt_buf = 9, lt_tag = ''t''\<rparr>" "\<lparr>sk_stream = Clog, sk_level = Info, sk_tag = ''t''\<rparr>" Info "''m''"
        "[(Cerr, ''t'', Trace)]"]
    by (simp add: LogTag_tag_def c_str_def)
qed

end
