(* ===== verification/Task_Thread.thy ===== *)
theory Task_Thread
  imports Task_Queue Logging
begin

text \<open>
  Class \<open>InterruptibleTaskThread\<close> (\<open>lib/interruptible_task_thread.cxx\<close>): a thread that runs the stages
  of one task. \<open>threaded_func\<close> is what the new thread executes, as one function on a world \<open>'w\<close> that
  holds the effects of the stages and the flags other threads set meanwhile (\<open>vt_kill_load\<close> and
  \<open>interrupt_load\<close> read them). Its calls of the logger go through the argument \<open>log\<close>, which gets the
  severity, the text and the stage; the other calls of the logger that these lines reach are those of
  \<open>Task::complete\<close>, made only when a callback is called. \<open>set_task_and_run\<close> also waits for the new thread on a condition variable;
  that handshake is the small state machine at the end.
\<close>

record TaskThread =
  th_task :: task_ptr
  th_interrupt :: bool
  th_running :: bool
  th_joinable :: bool

section \<open>The program\<close>

definition TaskThread_new :: TaskThread where
  "TaskThread_new = \<lparr>th_task = None, th_interrupt = False, th_running = False, th_joinable = False\<rparr>"

text \<open>What the constructor does to the logger: the tag, the two verdicts, the new state.\<close>

definition TaskThread_loggers :: "string \<Rightarrow> logging \<Rightarrow> (LogTag \<times> bool \<times> bool) \<times> logging" where
  "TaskThread_loggers name g =
     (let (tag, g1) = LogTag_new name g;
          (cout_added, g2) = add_std_cout_logger tag Info g1;
          (cerr_added, g3) = add_std_cerr_logger tag Error g2
      in ((tag, cout_added, cerr_added), g3))"

definition TaskThread_move :: "('z) env_scheme \<Rightarrow> TaskThread \<Rightarrow> (TaskThread \<times> TaskThread) res" where
  "TaskThread_move E other =
     rbind (cpp_assert E (\<not> th_running other)) (\<lambda>_.
       Inr (TaskThread_new\<lparr>th_task := th_task other\<rparr>, other\<lparr>th_task := None\<rparr>))"

definition TaskThread_move_assign ::
    "('z) env_scheme \<Rightarrow> TaskThread \<Rightarrow> TaskThread \<Rightarrow> (TaskThread \<times> TaskThread) res" where
  "TaskThread_move_assign E this rhs =
     rbind (cpp_assert E (\<not> th_running rhs)) (\<lambda>_.
       Inr (this\<lparr>th_interrupt := False, th_running := False, th_task := th_task rhs\<rparr>, rhs\<lparr>th_task := None\<rparr>))"

text \<open>
  The lambda for one stage: log, run it, go on unless it failed or the thread was interrupted, and log which of
  the two happened.
\<close>

type_synonym 'w stage_log = "severity_level \<Rightarrow> string \<Rightarrow> TaskStage \<Rightarrow> 'w \<Rightarrow> 'w"

definition thread_next_stage ::
    "'w stage_log \<Rightarrow> (TaskStage \<Rightarrow> 'w \<Rightarrow> bool \<times> TaskStage \<times> 'w) \<Rightarrow> ('w \<Rightarrow> bool) \<Rightarrow> 'w next_stage" where
  "thread_next_stage log run interrupt_load next w =
     (let w0 = log Info ''Going to run stage'' next w;
          (stage_status, next1, w1) = run next w0;
          this_was_interrupted = interrupt_load w1;
          cont = (stage_status \<and> \<not> this_was_interrupted);
          w2 = (if cont then log Info ''Ran stage'' next1 w1 else log Error ''Failed to execute'' next1 w1)
      in (cont, next1, w2))"

definition threaded_func ::
    "'w stage_log \<Rightarrow> (TaskStage \<Rightarrow> 'w \<Rightarrow> bool \<times> TaskStage \<times> 'w) \<Rightarrow> ('w \<Rightarrow> bool) \<Rightarrow> 'w stage_vt \<Rightarrow> TaskThread \<Rightarrow> 'w \<Rightarrow>
     bool \<times> completion list \<times> TaskThread \<times> 'w" where
  "threaded_func log run interrupt_load vt self w =
     (case th_task self of
        None \<Rightarrow> (False, [], self, w)
      | Some task \<Rightarrow>
          (let self1 = self\<lparr>th_running := True\<rparr>;
               (all_ran, tmp, w1) = iterate_stages (thread_next_stage log run interrupt_load) vt task w;
               self2 = self1\<lparr>th_task := None, th_running := False\<rparr>
           in (all_ran, Task_complete all_ran tmp, self2, w1)))"

text \<open>
  Up to the start of the new thread. Assigning to \<open>thread_\<close> while it is still joinable calls
  \<open>std::terminate\<close>; nothing but \<open>shutdown\<close> joins it.
\<close>

definition set_task_and_run :: "task_ptr \<Rightarrow> TaskThread \<Rightarrow> unit res \<times> TaskThread" where
  "set_task_and_run task th =
     (let th1 = th\<lparr>th_task := task\<rparr>
      in if th_joinable th1 then (Inl StdTerminate, th1)
         else (Inr (), th1\<lparr>th_joinable := True\<rparr>))"

definition set_interrupt :: "bool \<Rightarrow> TaskThread \<Rightarrow> TaskThread" where
  "set_interrupt should_interrupt th =
     (let th1 = (case th_task th of Some t \<Rightarrow> th\<lparr>th_task := Some (snd (Task_kill t))\<rparr> | None \<Rightarrow> th)
      in th1\<lparr>th_interrupt := should_interrupt\<rparr>)"

definition was_interrupted :: "TaskThread \<Rightarrow> bool" where
  "was_interrupted th = th_interrupt th"

definition thread_is_running :: "TaskThread \<Rightarrow> bool" where
  "thread_is_running th = th_running th"

definition has_task :: "TaskThread \<Rightarrow> bool" where
  "has_task th \<longleftrightarrow> th_task th \<noteq> None"

text \<open>\<open>join\<close> waits for \<open>threaded_func\<close>, whose effect on the members is the argument \<open>finish\<close>.\<close>

definition thread_shutdown :: "(TaskThread \<Rightarrow> TaskThread) \<Rightarrow> TaskThread \<Rightarrow> TaskThread" where
  "thread_shutdown finish th =
     (let th1 = (if th_running th then set_interrupt True th else th)
      in if th_joinable th1 then (finish th1)\<lparr>th_joinable := False\<rparr> else th1)"

definition TaskThread_destroy :: "(TaskThread \<Rightarrow> TaskThread) \<Rightarrow> TaskThread \<Rightarrow> TaskThread" where
  "TaskThread_destroy finish th = thread_shutdown finish th"

section \<open>Running a task\<close>

text \<open>
  The world of these lemmas is the list of what happened to the stages so far; log records are not events
  of a stage and leave it alone.
\<close>

definition no_log :: "'w stage_log" where
  "no_log severity msg st w = w"

definition run_log :: "(TaskStage \<Rightarrow> bool) \<Rightarrow> TaskStage \<Rightarrow> stage_event list \<Rightarrow> bool \<times> TaskStage \<times> stage_event list" where
  "run_log ok st w = (ok st, st, w @ [StageRan st])"

lemma thread_next_stage_log: "thread_next_stage no_log (run_log ok) (\<lambda>_. False) = log_next ok"
  by (intro ext) (simp add: thread_next_stage_def run_log_def log_next_def no_log_def)

lemma threaded_func_log:
  assumes "th_task th = Some t" "\<not> t_iterating t"
  shows "threaded_func no_log (run_log ok) (\<lambda>_. False) (log_vt end_ok killed) th w =
    (case all_of_stages (log_next ok) (log_vt end_ok killed) (t_stages t) w of (all_ran, sts, w1) \<Rightarrow>
       (all_ran, Task_complete all_ran t, th\<lparr>th_task := None, th_running := False\<rparr>, w1))"
  using assms
  by (simp add: threaded_func_def iterate_stages_def thread_next_stage_log Let_def Task_complete_def
      callback_is_set_def callback_plugin_is_set_def split: prod.splits)

text \<open>A stage that sees the interrupt is the last one, and the task completes with \<open>false\<close>.\<close>

lemma threaded_func_interrupted:
  assumes "th_task th = Some t" "\<not> t_iterating t" "t_stages t = st # sts"
    and "run st (log Info ''Going to run stage'' st w) = (ok, st1, w1)" "interrupt_load w1"
    and "vt_cleanup vt st1 (log Error ''Failed to execute'' st1 w1) = (st2, w2)"
  shows "threaded_func log run interrupt_load vt th w =
    (False, Task_complete False t, th\<lparr>th_task := None, th_running := False\<rparr>, w2)"
  using assms
  by (simp add: threaded_func_def iterate_stages_def thread_next_stage_def stage_body_def Task_complete_def
      callback_is_set_def callback_plugin_is_set_def)

lemma threaded_func_ready:
  assumes "threaded_func log run interrupt_load vt th w = (r, cs, th', w')"
  shows "th_task th' = None" "\<not> th_running th \<Longrightarrow> \<not> th_running th'" "th_joinable th' = th_joinable th"
  using assms by (auto simp: threaded_func_def split: option.splits prod.splits)

text \<open>A thread object can run one task; the second one ends the program.\<close>

lemma set_task_and_run_twice:
  assumes "set_task_and_run a th = (Inr (), th1)" "threaded_func log run interrupt_load vt th1 w = (r, cs, th2, w')"
  shows "\<not> th_running th \<Longrightarrow> \<not> thread_is_running th2" "fst (set_task_and_run b th2) = Inl StdTerminate"
  using assms threaded_func_ready [OF assms(2)]
  by (auto simp: set_task_and_run_def thread_is_running_def Let_def split: if_splits)

section \<open>What the thread writes\<close>

text \<open>
  The world is what one thread has written to the standard streams: texts, and log records. A record stands
  for the line that \<open>log_line\<close> lays out around its message; time stamp, thread and line number are not part
  of it. \<open>thread_log\<close> is \<open>Logging::info(LOG_TAG, text, next)\<close> (or \<open>error\<close>) in the logging state \<open>g\<close>, of which
  writing a record changes nothing but the flag of \<open>init\<close>; the sinks are synchronous, so texts and records keep
  their order.
\<close>

datatype written = Written log_stream string | Recorded log_stream severity_level string

definition thread_log :: "('z) libuuid_scheme \<Rightarrow> logging \<Rightarrow> LogTag \<Rightarrow> written list stage_log" where
  "thread_log L g tag severity msg st w =
     w @ map (\<lambda>(stream, line). Recorded stream severity line)
       (fst (write_severity_log tag severity (log_string_builder [msg, TaskStage_print L st]) g))"

text \<open>The constructor of the thread gives its tag a sink on standard output, for every severity from \<open>Info\<close> on.\<close>

lemma TaskThread_loggers_class: "TaskThread_loggers name g = LoggedClass_new name Info Error g"
  by (simp add: TaskThread_loggers_def LoggedClass_new_def LogTag_for_this_def)

lemma TaskThread_loggers_ok:
  assumes "logging_ok g" "sink_for g (c_str name) = None"
  shows "\<exists>tag g'. TaskThread_loggers name g = ((tag, True, False), g') \<and> logging_ok g' \<and> LogTag_tag tag = c_str name \<and>
    sink_for g' (c_str name) = Some \<lparr>sk_stream = Cout, sk_level = Info, sk_tag = c_str name\<rparr>"
  using LoggedClass_new_ok [OF assms, of Info Error] unfolding TaskThread_loggers_class .

lemma thread_log_cout:
  assumes "logging_ok g" "sink_for g (LogTag_tag tag) = Some \<lparr>sk_stream = Cout, sk_level = Info, sk_tag = t\<rparr>" "Info \<le> severity"
  shows "thread_log L g tag severity msg st w = w @ [Recorded Cout severity (msg @ '' '' @ TaskStage_print L st)]"
  using assms by (simp add: thread_log_def write_severity_log_ok(1))

text \<open>The virtual calls of \<open>PrintStage\<close>, for a task that nobody kills.\<close>

definition print_stage_run :: "TaskStage \<Rightarrow> written list \<Rightarrow> bool \<times> TaskStage \<times> written list" where
  "print_stage_run st w = (let (status, printed, st1) = PrintStage_run st in (status, st1, w @ [Written Cout printed]))"

definition print_stage_vt :: "written list stage_vt" where
  "print_stage_vt = \<lparr>vt_cleanup = (\<lambda>st w. (PrintStage_cleanup st, w)),
     vt_end = (\<lambda>st w. (PrintStage_end st, st, w)), vt_kill_load = (\<lambda>_. False)\<rparr>"

text \<open>What the thread writes for one print stage.\<close>

definition stage_lines :: "('z) libuuid_scheme \<Rightarrow> TaskStage \<Rightarrow> written list" where
  "stage_lines L st =
     [Recorded Cout Info (''Going to run stage '' @ TaskStage_print L st),
      Written Cout (''Print Stage is running...'' @ [CHR 0x0A]),
      Recorded Cout Info (''Ran stage '' @ TaskStage_print L st)]"

lemma TaskStage_print_running [simp]: "TaskStage_print L (st\<lparr>s_running := r\<rparr>) = TaskStage_print L st"
  by (simp add: TaskStage_print_def)

lemma print_stage_body:
  assumes "logging_ok g" "sink_for g (LogTag_tag tag) = Some \<lparr>sk_stream = Cout, sk_level = Info, sk_tag = t\<rparr>"
  shows "stage_body (thread_next_stage (thread_log L g tag) print_stage_run (\<lambda>_. False)) print_stage_vt st w =
    (True, st\<lparr>s_running := False\<rparr>, w @ stage_lines L st)"
  by (simp add: stage_body_def thread_next_stage_def thread_log_cout [OF assms] print_stage_run_def print_stage_vt_def
      PrintStage_run_def PrintStage_end_def PrintStage_cleanup_def stage_lines_def Let_def)

lemma all_of_print_stages:
  assumes "logging_ok g" "sink_for g (LogTag_tag tag) = Some \<lparr>sk_stream = Cout, sk_level = Info, sk_tag = t\<rparr>"
  shows "all_of_stages (thread_next_stage (thread_log L g tag) print_stage_run (\<lambda>_. False)) print_stage_vt sts w =
    (True, map (\<lambda>st. st\<lparr>s_running := False\<rparr>) sts, w @ concat (map (stage_lines L) sts))"
  by (induction sts arbitrary: w) (simp_all add: print_stage_body [OF assms])

lemma threaded_func_prints:
  assumes "th_task th = Some t" "\<not> t_iterating t"
    and "logging_ok g" "sink_for g (LogTag_tag tag) = Some \<lparr>sk_stream = Cout, sk_level = Info, sk_tag = name\<rparr>"
  shows "threaded_func (thread_log L g tag) print_stage_run (\<lambda>_. False) print_stage_vt th w =
    (True, Task_complete True t, th\<lparr>th_task := None, th_running := False\<rparr>, w @ concat (map (stage_lines L) (t_stages t)))"
  using assms(1,2)
  by (simp add: threaded_func_def iterate_stages_def all_of_print_stages [OF assms(3,4)] Let_def Task_complete_def
      callback_is_set_def callback_plugin_is_set_def)

section \<open>The handshake of set\_task\_and\_run\<close>

text \<open>
  The caller starts the thread and then waits, without a predicate; the new thread sets \<open>thread_started\<close> and
  notifies once, without the mutex: \<open>caller_step\<close> is the one, \<open>worker_step\<close> the other. A notification wakes a waiter only if there is one. The flag, the mutex and
  the condition variable are locals of the caller that the thread function captured by reference: the last
  component says whether the new thread has used one of them after the caller returned.
\<close>

datatype caller_pc = Starting | Waiting | CallReturned

datatype worker_pc = NotStarted | DidStart | DidNotify

type_synonym handshake = "caller_pc \<times> worker_pc \<times> bool"

inductive caller_step :: "handshake \<Rightarrow> handshake \<Rightarrow> bool" where
  begin_wait: "caller_step (Starting, w, x) (Waiting, w, x)"

text \<open>The new thread: \<open>thread_started = true\<close> and then \<open>return_cond.notify_one()\<close>.\<close>

inductive worker_step :: "handshake \<Rightarrow> handshake \<Rightarrow> bool" where
  set_started: "worker_step (c, NotStarted, x) (c, DidStart, x \<or> c = CallReturned)"
| notify_nobody: "c \<noteq> Waiting \<Longrightarrow> worker_step (c, DidStart, x) (c, DidNotify, x \<or> c = CallReturned)"
| notify_waiter: "worker_step (Waiting, DidStart, x) (CallReturned, DidNotify, x)"

inductive_simps caller_stepI [simp]: "caller_step (c, w, x) q"
inductive_simps worker_stepI [simp]: "worker_step (c, w, x) q"

definition handshake_step :: "handshake \<Rightarrow> handshake \<Rightarrow> bool" where
  "handshake_step p q \<longleftrightarrow> caller_step p q \<or> worker_step p q"

text \<open>\<open>wait\<close> may return without a notification.\<close>

inductive spurious_wakeup :: "handshake \<Rightarrow> handshake \<Rightarrow> bool" where
  spurious: "spurious_wakeup (Waiting, w, x) (CallReturned, w, x)"

lemma handshake_stepI [simp]: "handshake_step (c, w, x) q \<longleftrightarrow> caller_step (c, w, x) q \<or> worker_step (c, w, x) q"
  by (rule handshake_step_def)

lemma lost_wakeup_reachable: "handshake_step\<^sup>*\<^sup>* (Starting, NotStarted, False) (Waiting, DidNotify, False)"
  by (rule converse_rtranclp_into_rtranclp [of _ _ "(Starting, DidStart, False)"],
      simp, rule converse_rtranclp_into_rtranclp [of _ _ "(Starting, DidNotify, False)"]) auto

lemma lost_wakeup_stuck: "\<not> handshake_step (Waiting, DidNotify, x) q"
  by simp

definition noisy_step :: "handshake \<Rightarrow> handshake \<Rightarrow> bool" where
  "noisy_step p q \<longleftrightarrow> handshake_step p q \<or> spurious_wakeup p q"

lemma spurious_dangles: "noisy_step\<^sup>*\<^sup>* (Starting, NotStarted, False) (CallReturned, DidStart, True)"
proof -
  have "noisy_step (Starting, NotStarted, False) (Waiting, NotStarted, False)"
      "noisy_step (Waiting, NotStarted, False) (CallReturned, NotStarted, False)"
      "noisy_step (CallReturned, NotStarted, False) (CallReturned, DidStart, True)"
    by (simp_all add: noisy_step_def spurious_wakeup.intros)
  then show ?thesis by (meson converse_rtranclp_into_rtranclp r_into_rtranclp)
qed

text \<open>Without spurious wake-ups the caller returns only after the notification.\<close>

lemma handshake_safe:
  assumes "handshake_step\<^sup>*\<^sup>* (Starting, NotStarted, False) p"
  shows "case p of (c, w, x) \<Rightarrow> \<not> x \<and> (c = CallReturned \<longrightarrow> w = DidNotify)"
  using assms by (induction rule: rtranclp_induct) (auto simp: handshake_step_def elim!: caller_step.cases worker_step.cases)

end
