(* ===== verification/Task_Scheduler.thy ===== *)
theory Task_Scheduler
  imports Task_Thread
begin

text \<open>
  Class \<open>TaskScheduler\<close> (\<open>lib/task_scheduler.cxx\<close>): a queue, two flags and a pool of ten threads. The
  loop of \<open>startup\<close> runs in one thread while others queue tasks, pause, resume, kill and shut down,
  so \<open>startup\<close> is a program counter and every access to a flag, to the queue or, under its lock, to the
  pool is a step. \<open>dispatched\<close> is a ghost list of the tasks handed to a thread of the pool, and \<open>terminated\<close>
  says that a thread called \<open>std::terminate\<close>.
\<close>

datatype startup_pc =
    StorePause \<comment> \<open>\<open>pause_.store(false)\<close>\<close>
  | StoreKill \<comment> \<open>\<open>kill_.store(false)\<close>\<close>
  | OuterTest \<comment> \<open>\<open>while (!kill_.load())\<close>\<close>
  | ShouldGetNext \<comment> \<open>\<open>kill_.load()\<close> in \<open>!(kill_.load() || pause_.load())\<close>\<close>
  | ShouldPause \<comment> \<open>\<open>pause_.load()\<close> there, if \<open>kill_\<close> was not set\<close>
  | GetNext \<comment> \<open>\<open>queue_.wait_for_and_pop(next_task, refresh_time)\<close>\<close>
  | InnerTest \<comment> \<open>\<open>while (true) { if (kill_.load()) ...\<close>\<close>
  | PauseTest \<comment> \<open>\<open>if (!pause_.load())\<close>\<close>
  | FindThread \<comment> \<open>\<open>first_unused_thread()\<close>\<close>
  | TestKill nat \<comment> \<open>the second test of \<open>kill_\<close>, with \<open>unused_index\<close>\<close>
  | Dispatch nat \<comment> \<open>\<open>set_task_and_run\<close> under the lock of the pool\<close>
  | StartupReturned

record TaskScheduler =
  sch_queue :: task_queue
  sch_pause :: bool
  sch_kill :: bool
  sch_pool :: "TaskThread list"
  sch_pc :: startup_pc
  sch_next :: task_ptr
  dispatched :: "Task list"
  terminated :: bool

section \<open>The program\<close>

definition pool_size :: nat where
  "pool_size = 10"

definition TaskScheduler_new :: TaskScheduler where
  "TaskScheduler_new = \<lparr>sch_queue = ConcurrentTaskQueue_new, sch_pause = True, sch_kill = True,
     sch_pool = replicate pool_size TaskThread_new, sch_pc = StartupReturned, sch_next = None,
     dispatched = [], terminated = False\<rparr>"

text \<open>A call of \<open>startup\<close>.\<close>

definition startup_begin :: "TaskScheduler \<Rightarrow> TaskScheduler" where
  "startup_begin s = s\<lparr>sch_pc := StorePause, sch_next := None\<rparr>"

definition queue_task :: "task_ptr \<Rightarrow> TaskScheduler \<Rightarrow> TaskScheduler" where
  "queue_task t s = s\<lparr>sch_queue := queue_push t (sch_queue s)\<rparr>"

text \<open>\<open>kill_task\<close> only looks into the queue, and always returns \<open>true\<close>.\<close>

definition kill_task_uuid :: "('z) libuuid_scheme \<Rightarrow> uuid_t \<Rightarrow> (TaskScheduler, bool) exec" where
  "kill_task_uuid L u s =
     (case remove_task_from_queue L u None (sch_queue s) of
        Inl e \<Rightarrow> (Inl e, s)
      | Inr (to_kill, q) \<Rightarrow> (Inr True, s\<lparr>sch_queue := q\<rparr>))"

definition kill_task :: "('z) libuuid_scheme \<Rightarrow> Task \<Rightarrow> (TaskScheduler, bool) exec" where
  "kill_task L t = kill_task_uuid L (t_uuid t)"

definition sched_pause :: "TaskScheduler \<Rightarrow> TaskScheduler" where
  "sched_pause s = s\<lparr>sch_pause := True\<rparr>"

definition sched_resume :: "TaskScheduler \<Rightarrow> TaskScheduler" where
  "sched_resume s = s\<lparr>sch_pause := False\<rparr>"

definition is_paused :: "TaskScheduler \<Rightarrow> bool" where
  "is_paused s = sch_pause s"

definition kill_store :: "TaskScheduler \<Rightarrow> TaskScheduler" where
  "kill_store s = s\<lparr>sch_kill := True\<rparr>"

definition sched_shutdown :: "TaskScheduler \<Rightarrow> TaskScheduler" where
  "sched_shutdown s = kill_store (sched_pause s)"

definition is_shutdown :: "TaskScheduler \<Rightarrow> bool" where
  "is_shutdown s = sch_kill s"

text \<open>The loop over the pool with its \<open>break\<close>; \<open>static_cast<std::size_t>(-1)\<close> when all are running.\<close>

fun first_unused_from :: "nat \<Rightarrow> TaskThread list \<Rightarrow> size_t" where
  "first_unused_from i [] = - 1"
| "first_unused_from i (th # ths) =
     (if \<not> thread_is_running th then of_nat i else first_unused_from (Suc i) ths)"

definition first_unused_thread :: "TaskScheduler \<Rightarrow> size_t" where
  "first_unused_thread s = first_unused_from 0 (sch_pool s)"

text \<open>
  One step of the thread that executes \<open>startup\<close>. \<open>FindThread\<close> reads the flags of the pool at once; as at most one
  thread of the pool is ever given a task (\<open>dispatch_inv\<close>), only the flag of the first one changes, and reading
  them one by one gives nothing else.
\<close>

definition startup_step :: "TaskScheduler \<Rightarrow> TaskScheduler" where
  "startup_step s = (case sch_pc s of
      StorePause \<Rightarrow> s\<lparr>sch_pause := False, sch_pc := StoreKill\<rparr>
    | StoreKill \<Rightarrow> s\<lparr>sch_kill := False, sch_pc := OuterTest\<rparr>
    | OuterTest \<Rightarrow> s\<lparr>sch_pc := (if \<not> sch_kill s then ShouldGetNext else StartupReturned)\<rparr>
    | ShouldGetNext \<Rightarrow> s\<lparr>sch_pc := (if \<not> sch_kill s then ShouldPause else OuterTest)\<rparr>
    | ShouldPause \<Rightarrow> s\<lparr>sch_pc := (if \<not> sch_pause s then GetNext else OuterTest)\<rparr>
    | GetNext \<Rightarrow>
        (case wait_for_and_pop None (sch_queue s) of (_, next_task, q) \<Rightarrow>
           s\<lparr>sch_queue := q, sch_next := next_task,
             sch_pc := (if next_task \<noteq> None then InnerTest else OuterTest)\<rparr>)
    | InnerTest \<Rightarrow>
        if sch_kill s then s\<lparr>sch_next := None, sch_pc := OuterTest\<rparr> else s\<lparr>sch_pc := PauseTest\<rparr>
    | PauseTest \<Rightarrow> s\<lparr>sch_pc := (if \<not> sch_pause s then FindThread else InnerTest)\<rparr>
    | FindThread \<Rightarrow>
        (let unused_index = first_unused_thread s
         in s\<lparr>sch_pc := (if unused_index \<noteq> - 1 then TestKill (unat unused_index) else InnerTest)\<rparr>)
    | TestKill i \<Rightarrow>
        if sch_kill s then s\<lparr>sch_next := None, sch_pc := OuterTest\<rparr> else s\<lparr>sch_pc := Dispatch i\<rparr>
    | Dispatch i \<Rightarrow>
        (case sch_next s of
           None \<Rightarrow> s\<lparr>sch_pc := InnerTest\<rparr>
         | Some t \<Rightarrow>
             (case set_task_and_run (Some t) (sch_pool s ! i) of (r, th) \<Rightarrow>
                s\<lparr>sch_pool := (sch_pool s)[i := th], sch_next := None, sch_pc := InnerTest,
                  dispatched := dispatched s @ [t], terminated := (terminated s \<or> r \<noteq> Inr ())\<rparr>))
    | StartupReturned \<Rightarrow> s)"

text \<open>A thread of the pool: it marks itself as running, and later gives its task back.\<close>

definition worker_begin :: "nat \<Rightarrow> TaskScheduler \<Rightarrow> TaskScheduler" where
  "worker_begin i s = s\<lparr>sch_pool := (sch_pool s)[i := (sch_pool s ! i)\<lparr>th_running := True\<rparr>]\<rparr>"

definition worker_end :: "nat \<Rightarrow> TaskScheduler \<Rightarrow> TaskScheduler" where
  "worker_end i s =
     s\<lparr>sch_pool := (sch_pool s)[i := (sch_pool s ! i)\<lparr>th_task := None, th_running := False\<rparr>]\<rparr>"

section \<open>The state machine\<close>

text \<open>
  The steps of the other threads: the clients of the scheduler, whose \<open>shutdown\<close> is a step of \<open>sched_pause\<close> and
  one of \<open>kill_store\<close>, and the threads of the pool. No step starts the loop again.
\<close>

inductive client_step :: "('z) libuuid_scheme \<Rightarrow> TaskScheduler \<Rightarrow> TaskScheduler \<Rightarrow> bool" for L where
  client_queue_task: "client_step L s (queue_task t s)"
| client_kill_task: "kill_task_uuid L u s = (r, s') \<Longrightarrow> client_step L s s'"
| client_set_pause: "client_step L s (sched_pause s)"
| client_set_resume: "client_step L s (sched_resume s)"
| client_set_kill: "client_step L s (kill_store s)"
| client_begin: "i < length (sch_pool s) \<Longrightarrow> th_task (sch_pool s ! i) \<noteq> None \<Longrightarrow> client_step L s (worker_begin i s)"
| client_end: "i < length (sch_pool s) \<Longrightarrow> th_running (sch_pool s ! i) \<Longrightarrow> client_step L s (worker_end i s)"

inductive sched_step :: "('z) libuuid_scheme \<Rightarrow> TaskScheduler \<Rightarrow> TaskScheduler \<Rightarrow> bool" for L where
  sched_loop: "sch_pc s \<noteq> StartupReturned \<Longrightarrow> sched_step L s (startup_step s)"
| sched_client: "client_step L s s' \<Longrightarrow> sched_step L s s'"

definition sched_init :: "('z) libuuid_scheme \<Rightarrow> TaskScheduler \<Rightarrow> bool" where
  "sched_init L s \<longleftrightarrow> (\<exists>q. s = startup_begin (TaskScheduler_new\<lparr>sch_queue := q\<rparr>))"

text \<open>
  The inner loop has no way out but the kill flag, so once a task was dispatched the outer loop
  never asks for another one. The one thread that was started, the first of the pool, stays joinable.
\<close>

definition inner_loop :: "startup_pc \<Rightarrow> bool" where
  "inner_loop pc = (case pc of InnerTest \<Rightarrow> True | PauseTest \<Rightarrow> True | FindThread \<Rightarrow> True | TestKill _ \<Rightarrow> True
     | Dispatch _ \<Rightarrow> True | _ \<Rightarrow> False)"

definition idle_thread :: "TaskThread \<Rightarrow> bool" where
  "idle_thread th \<longleftrightarrow> th_task th = None \<and> \<not> th_joinable th \<and> \<not> th_running th"

definition dispatch_inv :: "TaskScheduler \<Rightarrow> bool" where
  "dispatch_inv s \<longleftrightarrow> length (sch_pool s) = pool_size \<and> \<not> terminated s \<and>
     (sch_next s \<noteq> None \<longrightarrow> inner_loop (sch_pc s) \<and> dispatched s = []) \<and>
     (if dispatched s = []
      then list_all idle_thread (sch_pool s) \<and> (\<forall>i. sch_pc s = TestKill i \<or> sch_pc s = Dispatch i \<longrightarrow> i = 0)
      else length (dispatched s) = 1 \<and> th_joinable (sch_pool s ! 0) \<and>
        (inner_loop (sch_pc s) \<or> sch_kill s \<and> (sch_pc s = OuterTest \<or> sch_pc s = StartupReturned)))"

lemmas sched_client_defs = queue_task_def sched_pause_def sched_resume_def kill_store_def worker_begin_def worker_end_def

lemma first_unused_from_less:
  assumes "first_unused_from k ths \<noteq> - 1" "k + length ths < 2 ^ 64"
  shows "unat (first_unused_from k ths) < k + length ths"
  using assms
proof (induction k ths rule: first_unused_from.induct)
  case (2 i th ths)
  then show ?case by (cases "thread_is_running th") (auto simp: unsigned_of_nat take_bit_nat_eq_self)
qed simp

lemma first_unused_from_spec:
  assumes "k + length ths < 2 ^ 64"
  shows "first_unused_from k ths =
    (case List.find (\<lambda>i. \<not> thread_is_running (ths ! i)) [0..<length ths] of None \<Rightarrow> - 1 | Some i \<Rightarrow> of_nat (k + i))"
  using assms
proof (induction k ths rule: first_unused_from.induct)
  case (2 k th ths)
  have upt: "[0..<length (th # ths)] = 0 # map Suc [0..<length ths]"
    by (simp add: upt_conv_Cons map_Suc_upt del: upt_Suc)
  have find: "List.find P (map Suc xs) = map_option Suc (List.find (P \<circ> Suc) xs)" for P and xs :: "nat list"
    by (induction xs) auto
  show ?case
    using 2 unfolding upt by (auto simp: find comp_def split: option.splits simp del: upt_Suc)
qed simp

lemma kill_task_queue_only:
  "kill_task_uuid L u s = (r, s') \<Longrightarrow> \<exists>q. s' = s\<lparr>sch_queue := q\<rparr>"
  by (auto simp: kill_task_uuid_def split: sum.splits prod.splits intro: exI [of _ "sch_queue s"])

lemma first_unused_idle:
  "sch_pool s \<noteq> [] \<Longrightarrow> \<not> th_running (sch_pool s ! 0) \<Longrightarrow> first_unused_thread s = 0"
  by (cases "sch_pool s") (simp_all add: first_unused_thread_def thread_is_running_def)

lemma idle_pool_nth: "list_all idle_thread ths \<Longrightarrow> i < length ths \<Longrightarrow> idle_thread (ths ! i)"
  by (simp add: list_all_length)

lemma dispatch_inv_init: "sched_init L s \<Longrightarrow> dispatch_inv s"
  by (auto simp: sched_init_def startup_begin_def TaskScheduler_new_def dispatch_inv_def pool_size_def
      TaskThread_new_def idle_thread_def list_all_iff)

lemma dispatch_inv_queue: "dispatch_inv s \<Longrightarrow> dispatch_inv (s\<lparr>sch_queue := q\<rparr>)"
  by (simp add: dispatch_inv_def)

lemma dispatch_inv_startup_step:
  assumes inv: "dispatch_inv s"
  shows "dispatch_inv (startup_step s)"
proof (cases "sch_pc s")
  case (Dispatch i)
  show ?thesis
  proof (cases "sch_next s")
    case None
    then show ?thesis using inv Dispatch by (auto simp: startup_step_def dispatch_inv_def inner_loop_def split: if_splits)
  next
    case (Some t)
    then have d: "dispatched s = []" "i = 0" "list_all idle_thread (sch_pool s)" "length (sch_pool s) = pool_size"
      using inv Dispatch by (auto simp: dispatch_inv_def)
    then have "idle_thread (sch_pool s ! 0)" by (intro idle_pool_nth) (simp_all add: pool_size_def)
    with inv Dispatch Some d show ?thesis
      by (simp add: startup_step_def dispatch_inv_def set_task_and_run_def idle_thread_def inner_loop_def pool_size_def)
  qed
next
  case FindThread
  have "first_unused_thread s = 0" if "dispatched s = []"
  proof (rule first_unused_idle)
    show "sch_pool s \<noteq> []" using inv by (auto simp: dispatch_inv_def pool_size_def)
    then show "\<not> th_running (sch_pool s ! 0)"
      using inv that idle_pool_nth [of "sch_pool s" 0] by (simp add: dispatch_inv_def idle_thread_def pool_size_def)
  qed
  with inv FindThread show ?thesis by (simp add: startup_step_def dispatch_inv_def Let_def inner_loop_def)
qed (use inv in \<open>auto simp: startup_step_def dispatch_inv_def wait_for_and_pop_def inner_loop_def split: if_splits\<close>)

lemma dispatch_inv_client_step:
  assumes inv: "dispatch_inv s" and step: "client_step L s s'"
  shows "dispatch_inv s'"
  using step
proof cases
  case (client_kill_task u r)
  then show ?thesis using kill_task_queue_only dispatch_inv_queue [OF inv] by blast
next
  case (client_begin i)
  with inv idle_pool_nth [of "sch_pool s" i] have "dispatched s \<noteq> []" by (auto simp: dispatch_inv_def idle_thread_def)
  with client_begin inv show ?thesis by (cases "i = 0") (auto simp: worker_begin_def dispatch_inv_def pool_size_def)
next
  case (client_end i)
  with inv idle_pool_nth [of "sch_pool s" i] have "dispatched s \<noteq> []" by (auto simp: dispatch_inv_def idle_thread_def)
  with client_end inv show ?thesis by (cases "i = 0") (auto simp: worker_end_def dispatch_inv_def pool_size_def)
qed (use inv in \<open>auto simp: sched_client_defs dispatch_inv_def split: if_splits\<close>)

lemma dispatch_inv_step: "dispatch_inv s \<Longrightarrow> sched_step L s s' \<Longrightarrow> dispatch_inv s'"
  by (auto elim!: sched_step.cases intro: dispatch_inv_startup_step dispatch_inv_client_step)

interpretation sched: step_invariant "\<lambda>_. True" sched_init sched_step "\<lambda>_. dispatch_inv"
  by unfold_locales (auto intro: dispatch_inv_init dispatch_inv_step)

text \<open>The loop can run on its own until it returns.\<close>

lemma startup_steps:
  assumes "\<And>j. j < k \<Longrightarrow> sch_pc ((startup_step ^^ j) s) \<noteq> StartupReturned"
  shows "(sched_step L)\<^sup>*\<^sup>* s ((startup_step ^^ k) s)"
  using assms
proof (induction k)
  case (Suc k)
  then have "(sched_step L)\<^sup>*\<^sup>* s ((startup_step ^^ k) s)" by simp
  moreover have "sched_step L ((startup_step ^^ k) s) (startup_step ((startup_step ^^ k) s))"
    using Suc.prems by (intro sched_loop) simp
  ultimately show ?case by (simp add: rtranclp.rtrancl_into_rtrancl)
qed simp

section \<open>The loop on its own\<close>

text \<open>
  What the loop does while nobody else interferes: it drops null pointers, hands the first task to the first
  thread and then spins in the inner loop. \<open>idle_loop\<close> is the state at the top of the outer loop,
  \<open>spinning\<close> the inner loop without a task, \<open>polling\<close> the outer loop on an empty queue.
\<close>

definition idle_loop :: "TaskScheduler \<Rightarrow> bool" where
  "idle_loop s \<longleftrightarrow> sch_pc s = OuterTest \<and> sch_next s = None \<and> \<not> sch_kill s \<and> \<not> sch_pause s"

definition spinning :: "TaskScheduler \<Rightarrow> bool" where
  "spinning s \<longleftrightarrow> sch_next s = None \<and> \<not> sch_kill s \<and> inner_loop (sch_pc s)"

definition polling :: "TaskScheduler \<Rightarrow> bool" where
  "polling s \<longleftrightarrow> sch_queue s = [] \<and> sch_next s = None \<and>
     (case sch_pc s of OuterTest \<Rightarrow> True | ShouldGetNext \<Rightarrow> True | ShouldPause \<Rightarrow> True | GetNext \<Rightarrow> True
      | StartupReturned \<Rightarrow> True | _ \<Rightarrow> False)"

lemma idle_loop_queue [simp]: "idle_loop (s\<lparr>sch_queue := q\<rparr>) = idle_loop s"
  by (simp add: idle_loop_def)

lemma startup_begin_idle:
  "(startup_step ^^ 2) (startup_begin s) = s\<lparr>sch_pause := False, sch_kill := False, sch_pc := OuterTest, sch_next := None\<rparr>"
  by (simp add: startup_begin_def startup_step_def numeral_eq_Suc)

lemma idle_loop_null:
  assumes "idle_loop s" "sch_queue s = None # q"
  shows "(startup_step ^^ 4) s = s\<lparr>sch_queue := q\<rparr>"
  using assms by (simp add: idle_loop_def startup_step_def wait_for_and_pop_def queue_not_empty_def numeral_eq_Suc)

lemma idle_loop_nulls:
  assumes "idle_loop s" "sch_queue s = replicate k None @ q"
  shows "(startup_step ^^ (4 * k)) s = s\<lparr>sch_queue := q\<rparr>"
  using assms
proof (induction k arbitrary: s)
  case (Suc k)
  have "4 * Suc k = 4 * k + 4" by simp
  then have "(startup_step ^^ (4 * Suc k)) s = (startup_step ^^ (4 * k)) ((startup_step ^^ 4) s)"
    by (simp only: funpow_add comp_apply)
  also have "(startup_step ^^ 4) s = s\<lparr>sch_queue := replicate k None @ q\<rparr>"
    using Suc.prems by (intro idle_loop_null) simp_all
  finally show ?case using Suc.IH [of "s\<lparr>sch_queue := replicate k None @ q\<rparr>"] Suc.prems(1) by simp
qed (simp add: idle_loop_def)

text \<open>A task reaches the first thread in nine steps.\<close>

lemma idle_loop_task:
  assumes "idle_loop s" "sch_queue s = Some t # q" "sch_pool s \<noteq> []" "\<not> th_running (sch_pool s ! 0)"
  shows "(startup_step ^^ 9) s = s\<lparr>sch_queue := q, sch_pool := (sch_pool s)[0 := snd (set_task_and_run (Some t) (sch_pool s ! 0))],
    sch_pc := InnerTest, sch_next := None, dispatched := dispatched s @ [t],
    terminated := terminated s \<or> th_joinable (sch_pool s ! 0)\<rparr>"
  using assms first_unused_idle [of "s\<lparr>sch_queue := q, sch_next := Some t, sch_pc := FindThread\<rparr>"]
  by (simp add: idle_loop_def startup_step_def wait_for_and_pop_def queue_not_empty_def numeral_eq_Suc
      set_task_and_run_def Let_def)

lemma pc_only_forever:
  assumes "P s" and step: "\<And>u. P u \<Longrightarrow> P (f u) \<and> (\<exists>pc. f u = u\<lparr>sch_pc := pc\<rparr>)"
  shows "\<exists>pc. (f ^^ n) s = s\<lparr>sch_pc := pc\<rparr>"
proof -
  have "P ((f ^^ n) s) \<and> (\<exists>pc. (f ^^ n) s = s\<lparr>sch_pc := pc\<rparr>)"
  proof (induction n)
    case 0
    show ?case using assms(1) by (auto intro: exI [of _ "sch_pc s"])
  next
    case (Suc n)
    then obtain pc where n: "P ((f ^^ n) s)" "(f ^^ n) s = s\<lparr>sch_pc := pc\<rparr>" by blast
    from step [OF n(1)] obtain pc' where "P (f ((f ^^ n) s))" "f ((f ^^ n) s) = ((f ^^ n) s)\<lparr>sch_pc := pc'\<rparr>" by blast
    with n(2) have "P (f ((f ^^ n) s))" "f ((f ^^ n) s) = s\<lparr>sch_pc := pc'\<rparr>" by simp_all
    then show ?case by auto
  qed
  then show ?thesis by blast
qed

lemma spinning_step: "spinning u \<Longrightarrow> spinning (startup_step u) \<and> (\<exists>pc. startup_step u = u\<lparr>sch_pc := pc\<rparr>)"
  by (cases "sch_pc u") (auto simp: spinning_def startup_step_def Let_def inner_loop_def)

lemma polling_step: "polling u \<Longrightarrow> polling (startup_step u) \<and> (\<exists>pc. startup_step u = u\<lparr>sch_pc := pc\<rparr>)"
  by (cases u; cases "sch_pc u")
    (auto simp: polling_def startup_step_def wait_for_and_pop_def queue_not_empty_def)

lemmas spinning_forever = pc_only_forever [of spinning _ startup_step, OF _ spinning_step]
lemmas polling_forever = pc_only_forever [of polling _ startup_step, OF _ polling_step]

definition is_null :: "task_ptr \<Rightarrow> bool" where
  "is_null p \<longleftrightarrow> p = None"

lemma dropWhile_null_cases: "dropWhile is_null q = [] \<or> (\<exists>t r. dropWhile is_null q = Some t # r)"
  by (induction q) (auto simp: is_null_def)

lemma takeWhile_null: "takeWhile is_null q = replicate (length (takeWhile is_null q)) None"
  by (induction q) (auto simp: is_null_def)

lemma funpow_split: "k \<le> n \<Longrightarrow> (f ^^ n) x = (f ^^ (n - k)) ((f ^^ k) x)"
  by (metis comp_apply funpow_add le_add_diff_inverse2)

text \<open>A call of \<open>startup\<close> on any scheduler whose first thread is not running.\<close>

lemma startup_alone:
  assumes pool: "sch_pool s \<noteq> []" "\<not> th_running (sch_pool s ! 0)" and n: "4 * length (sch_queue s) + 11 \<le> n"
  shows "\<exists>pc. (startup_step ^^ n) (startup_begin s) = (case dropWhile is_null (sch_queue s) of
      Some t # q \<Rightarrow> s\<lparr>sch_queue := q, sch_pool := (sch_pool s)[0 := snd (set_task_and_run (Some t) (sch_pool s ! 0))],
        sch_pause := False, sch_kill := False, sch_pc := pc, sch_next := None,
        dispatched := dispatched s @ [t], terminated := terminated s \<or> th_joinable (sch_pool s ! 0)\<rparr>
    | _ \<Rightarrow> s\<lparr>sch_queue := [], sch_pause := False, sch_kill := False, sch_pc := pc, sch_next := None\<rparr>)"
proof -
  let ?k = "length (takeWhile is_null (sch_queue s))" and ?q = "dropWhile is_null (sch_queue s)"
  define u where "u = s\<lparr>sch_pause := False, sch_kill := False, sch_pc := OuterTest, sch_next := None\<rparr>"
  have u: "idle_loop u" "sch_queue u = replicate ?k None @ ?q"
    by (simp_all add: u_def idle_loop_def flip: takeWhile_null)
  have k: "?k \<le> length (sch_queue s)" by (rule length_takeWhile_le)
  have "(startup_step ^^ n) (startup_begin s) = (startup_step ^^ (n - 2)) u"
    using funpow_split [of 2 n startup_step "startup_begin s"] n unfolding startup_begin_idle u_def by simp
  also have "\<dots> = (startup_step ^^ (n - 2 - 4 * ?k)) (u\<lparr>sch_queue := ?q\<rparr>)"
    using funpow_split [of "4 * ?k" "n - 2" startup_step u] n k unfolding idle_loop_nulls [OF u] by linarith
  finally have run: "(startup_step ^^ n) (startup_begin s) = \<dots>" .
  show ?thesis
  proof (cases ?q)
    case Nil
    with u(1) have "polling (u\<lparr>sch_queue := ?q\<rparr>)" by (simp add: polling_def idle_loop_def)
    from polling_forever [OF this, of "n - 2 - 4 * ?k"] obtain pc where
      "(startup_step ^^ n) (startup_begin s) = u\<lparr>sch_queue := [], sch_pc := pc\<rparr>" unfolding run Nil by blast
    then show ?thesis unfolding Nil by (intro exI [of _ pc]) (simp add: u_def)
  next
    case (Cons p r)
    then have "\<not> is_null p" by (metis hd_dropWhile list.distinct(1) list.sel(1))
    then obtain t where p: "p = Some t" by (auto simp: is_null_def)
    let ?t = "u\<lparr>sch_queue := r, sch_pool := (sch_pool s)[0 := snd (set_task_and_run (Some t) (sch_pool s ! 0))],
      sch_pc := InnerTest, dispatched := dispatched s @ [t], terminated := terminated s \<or> th_joinable (sch_pool s ! 0)\<rparr>"
    have nine: "(startup_step ^^ 9) (u\<lparr>sch_queue := ?q\<rparr>) = ?t"
      using idle_loop_task [of "u\<lparr>sch_queue := ?q\<rparr>" t r] u(1) pool unfolding Cons p by (simp add: u_def)
    have "(startup_step ^^ n) (startup_begin s) = (startup_step ^^ (n - 2 - 4 * ?k - 9)) ?t"
      unfolding run nine [symmetric] using n k by (intro funpow_split) linarith
    moreover have "spinning ?t" by (simp add: spinning_def inner_loop_def u_def)
    ultimately obtain pc where "(startup_step ^^ n) (startup_begin s) = ?t\<lparr>sch_pc := pc\<rparr>"
      using spinning_forever [of ?t "n - 2 - 4 * ?k - 9"] by metis
    then show ?thesis unfolding Cons p by (intro exI [of _ pc]) (simp add: u_def)
  qed
qed

definition run_scheduler :: "task_queue \<Rightarrow> nat \<Rightarrow> TaskScheduler" where
  "run_scheduler q n = (startup_step ^^ n) (startup_begin (TaskScheduler_new\<lparr>sch_queue := q\<rparr>))"

lemma run_scheduler_first:
  assumes "4 * length q + 11 \<le> n"
  shows "dispatched (run_scheduler q n) = map the (take 1 (dropWhile is_null q)) \<and>
    sch_queue (run_scheduler q n) = drop 1 (dropWhile is_null q) \<and>
    sch_pool (run_scheduler q n) ! 0 = (case dispatched (run_scheduler q n) of
       [] \<Rightarrow> TaskThread_new | t # _ \<Rightarrow> TaskThread_new\<lparr>th_task := Some t, th_joinable := True\<rparr>)"
proof -
  let ?s = "TaskScheduler_new\<lparr>sch_queue := q\<rparr>"
  have s: "sch_pool ?s \<noteq> []" "\<not> th_running (sch_pool ?s ! 0)" "4 * length (sch_queue ?s) + 11 \<le> n"
    using assms by (simp_all add: TaskScheduler_new_def pool_size_def TaskThread_new_def)
  from startup_alone [OF s] obtain pc where
    run: "run_scheduler q n = (case dropWhile is_null q of
      Some t # r \<Rightarrow> ?s\<lparr>sch_queue := r, sch_pool := (sch_pool ?s)[0 := snd (set_task_and_run (Some t) (sch_pool ?s ! 0))],
        sch_pause := False, sch_kill := False, sch_pc := pc, sch_next := None,
        dispatched := dispatched ?s @ [t], terminated := terminated ?s \<or> th_joinable (sch_pool ?s ! 0)\<rparr>
    | _ \<Rightarrow> ?s\<lparr>sch_queue := [], sch_pause := False, sch_kill := False, sch_pc := pc, sch_next := None\<rparr>)"
    by (auto simp: run_scheduler_def)
  show ?thesis
  proof (cases "dropWhile is_null q")
    case Nil
    with run show ?thesis by (simp add: TaskScheduler_new_def pool_size_def del: dropWhile_eq_Nil_conv)
  next
    case (Cons p r)
    then have "p \<noteq> None" by (metis hd_dropWhile is_null_def list.distinct(1) list.sel(1))
    with Cons run show ?thesis
      by (auto simp: TaskScheduler_new_def pool_size_def set_task_and_run_def TaskThread_new_def)
  qed
qed

section \<open>Ending the loop and starting it again\<close>

text \<open>One step of the loop, after any number of steps of the other threads.\<close>

definition loop_round :: "('z) libuuid_scheme \<Rightarrow> TaskScheduler \<Rightarrow> TaskScheduler \<Rightarrow> bool" where
  "loop_round L s t \<longleftrightarrow> (\<exists>u. (client_step L)\<^sup>*\<^sup>* s u \<and> t = startup_step u)"

text \<open>The number of steps the loop needs to return once \<open>kill_\<close> is set.\<close>

fun steps_left :: "startup_pc \<Rightarrow> nat" where
  "steps_left StartupReturned = 0"
| "steps_left OuterTest = 1"
| "steps_left ShouldGetNext = 2"
| "steps_left InnerTest = 2"
| "steps_left (TestKill i) = 2"
| "steps_left GetNext = 3"
| "steps_left FindThread = 3"
| "steps_left (Dispatch i) = 3"
| "steps_left ShouldPause = 4"
| "steps_left PauseTest = 4"
| "steps_left StoreKill = 6"
| "steps_left StorePause = 7"

text \<open>\<open>kill_\<close> is set and no store of \<open>startup\<close> will undo that.\<close>

definition killed :: "TaskScheduler \<Rightarrow> bool" where
  "killed s \<longleftrightarrow> sch_kill s \<and> sch_pc s \<noteq> StorePause \<and> sch_pc s \<noteq> StoreKill"

lemma client_step_keeps:
  assumes "client_step L s t"
  shows "sch_pc t = sch_pc s" "sch_next t = sch_next s" "dispatched t = dispatched s" "killed s \<Longrightarrow> killed t"
  using assms by (cases; auto simp: sched_client_defs killed_def dest!: kill_task_queue_only)+

lemma client_steps_keep:
  assumes "(client_step L)\<^sup>*\<^sup>* s t"
  shows "sch_pc t = sch_pc s \<and> sch_next t = sch_next s \<and> dispatched t = dispatched s \<and> (killed s \<longrightarrow> killed t)"
  using assms by (induction rule: rtranclp_induct) (simp_all add: client_step_keeps)

text \<open>Only a loop that has reached \<open>Dispatch\<close> hands over a task once \<open>kill_\<close> is set.\<close>

lemma killed_step:
  assumes "killed s"
  shows "killed (startup_step s)" "steps_left (sch_pc (startup_step s)) \<le> steps_left (sch_pc s) - 1"
    "sch_pc (startup_step s) \<noteq> Dispatch i"
    "(\<And>i. sch_pc s \<noteq> Dispatch i) \<Longrightarrow> dispatched (startup_step s) = dispatched s"
    "length (dispatched (startup_step s)) \<le> Suc (length (dispatched s))"
proof -
  have "killed (startup_step s) \<and> steps_left (sch_pc (startup_step s)) \<le> steps_left (sch_pc s) - 1 \<and>
    sch_pc (startup_step s) \<noteq> Dispatch i \<and>
    ((\<forall>i. sch_pc s \<noteq> Dispatch i) \<longrightarrow> dispatched (startup_step s) = dispatched s) \<and>
    length (dispatched (startup_step s)) \<le> Suc (length (dispatched s))"
    using assms
    by (cases "sch_pc s"; cases "wait_for_and_pop None (sch_queue s)"; cases "sch_next s")
      (auto simp: killed_def startup_step_def Let_def split: prod.split)
  then show "killed (startup_step s)" "steps_left (sch_pc (startup_step s)) \<le> steps_left (sch_pc s) - 1"
    "sch_pc (startup_step s) \<noteq> Dispatch i"
    "(\<And>i. sch_pc s \<noteq> Dispatch i) \<Longrightarrow> dispatched (startup_step s) = dispatched s"
    "length (dispatched (startup_step s)) \<le> Suc (length (dispatched s))" by blast+
qed

lemma killed_round:
  assumes "loop_round L s t" "killed s"
  shows "killed t" "steps_left (sch_pc t) \<le> steps_left (sch_pc s) - 1" "\<And>i. sch_pc t \<noteq> Dispatch i"
    "(\<And>i. sch_pc s \<noteq> Dispatch i) \<Longrightarrow> dispatched t = dispatched s" "length (dispatched t) \<le> Suc (length (dispatched s))"
proof -
  from assms(1) obtain u where u: "(client_step L)\<^sup>*\<^sup>* s u" "t = startup_step u" by (auto simp: loop_round_def)
  note same = client_steps_keep [OF u(1)]
  with assms(2) have "killed u" by blast
  note step = killed_step [OF this, folded u(2)]
  show "killed t" "steps_left (sch_pc t) \<le> steps_left (sch_pc s) - 1" "\<And>i. sch_pc t \<noteq> Dispatch i"
    "(\<And>i. sch_pc s \<noteq> Dispatch i) \<Longrightarrow> dispatched t = dispatched s" "length (dispatched t) \<le> Suc (length (dispatched s))"
    using step same by simp_all
qed

lemma killed_rounds_quiet:
  assumes "(loop_round L ^^ n) s t" "killed s" "\<And>i. sch_pc s \<noteq> Dispatch i"
  shows "killed t \<and> steps_left (sch_pc t) \<le> steps_left (sch_pc s) - n \<and> dispatched t = dispatched s"
  using assms
proof (induction n arbitrary: s)
  case (Suc n)
  obtain u where u: "loop_round L s u" "(loop_round L ^^ n) u t"
    using relpowp_Suc_D2 [OF Suc.prems(1)] by blast
  note r = killed_round [OF u(1) Suc.prems(2)]
  from Suc.IH [OF u(2) r(1,3)] r(2) r(4) [OF Suc.prems(3)] show ?case by auto
qed simp

lemma steps_left_0: "steps_left pc = 0 \<longleftrightarrow> pc = StartupReturned"
  by (cases pc) simp_all

lemma killed_rounds:
  assumes "(loop_round L ^^ Suc n) s t" "killed s"
  shows "killed t \<and> steps_left (sch_pc t) \<le> steps_left (sch_pc s) - Suc n \<and>
    length (dispatched t) \<le> length (dispatched s) + (case sch_pc s of Dispatch i \<Rightarrow> 1 | _ \<Rightarrow> 0)"
proof -
  obtain u where u: "loop_round L s u" "(loop_round L ^^ n) u t"
    using relpowp_Suc_D2 [OF assms(1)] by blast
  note r = killed_round [OF u(1) assms(2)]
  from killed_rounds_quiet [OF u(2) r(1,3)] r(2,4,5) show ?thesis by (cases "sch_pc s") auto
qed

end
