(* ===== verification/Queue_Waiting.thy ===== *)
theory Queue_Waiting
  imports Task_Queue "HOL-Library.Sublist"
begin

text \<open>
  \<open>ConcurrentTaskQueue\<close> with the threads that wait in it (\<open>lib/concurrent_task_queue.cxx\<close> and its header).
  Every step is what one thread does while it holds the mutex; \<open>wait\<close> gives the mutex back, so a consumer that
  finds the queue empty sleeps until it is notified, by \<open>notify_all\<close> or by nobody, and then takes the mutex and
  tests the predicate again. The lists of what was pushed and popped are ghosts, and so is \<open>discarded\<close>, which
  says that \<open>clear\<close> or \<open>remove_task_from_queue\<close> was called.
\<close>

datatype consumer =
    Outside \<comment> \<open>not in a wait\<close>
  | Asleep \<comment> \<open>waiting for a notification, without the mutex\<close>
  | Awake \<comment> \<open>woken, and waiting for the mutex\<close>

record waiting_queue =
  wq_queue :: task_queue
  wq_consumer :: "nat \<Rightarrow> consumer"
  wq_pushed :: "task_ptr list"
  wq_popped :: "task_ptr list"
  discarded :: bool

section \<open>The program\<close>

definition notify_all :: "(nat \<Rightarrow> consumer) \<Rightarrow> nat \<Rightarrow> consumer" where
  "notify_all c i = (if c i = Asleep then Awake else c i)"

definition wq_push :: "task_ptr \<Rightarrow> waiting_queue \<Rightarrow> waiting_queue" where
  "wq_push data s = s\<lparr>wq_queue := queue_push data (wq_queue s), wq_consumer := notify_all (wq_consumer s),
     wq_pushed := wq_pushed s @ [data]\<rparr>"

definition wq_clear :: "waiting_queue \<Rightarrow> waiting_queue" where
  "wq_clear s = s\<lparr>wq_queue := queue_clear (wq_queue s), wq_consumer := notify_all (wq_consumer s), discarded := True\<rparr>"

definition wq_remove :: "('z) libuuid_scheme \<Rightarrow> uuid_t \<Rightarrow> waiting_queue \<Rightarrow> waiting_queue" where
  "wq_remove L u s = (case remove_task_from_queue L u None (wq_queue s) of
     Inl e \<Rightarrow> s | Inr (r, q) \<Rightarrow> s\<lparr>wq_queue := q, discarded := True\<rparr>)"

definition wq_try_pop :: "waiting_queue \<Rightarrow> waiting_queue" where
  "wq_try_pop s = (case try_pop None (wq_queue s) of
     (found, t, q) \<Rightarrow> s\<lparr>wq_queue := q, wq_popped := (if found then wq_popped s @ [t] else wq_popped s)\<rparr>)"

text \<open>The test of the predicate in \<open>wait\<close> and what follows, on entry or after a wake-up of consumer \<open>i\<close>.\<close>

definition wq_wait :: "nat \<Rightarrow> waiting_queue \<Rightarrow> waiting_queue" where
  "wq_wait i s = (case wait_and_pop (wq_queue s) of
     None \<Rightarrow> s\<lparr>wq_consumer := (wq_consumer s)(i := Asleep)\<rparr>
   | Some (t, q) \<Rightarrow> s\<lparr>wq_queue := q, wq_consumer := (wq_consumer s)(i := Outside), wq_popped := wq_popped s @ [t]\<rparr>)"

text \<open>The end of \<open>wait_for\<close> when the time is up: the predicate is tested a last time.\<close>

definition wq_timeout :: "nat \<Rightarrow> waiting_queue \<Rightarrow> waiting_queue" where
  "wq_timeout i s = (case wait_for_and_pop None (wq_queue s) of
     (found, t, q) \<Rightarrow> s\<lparr>wq_queue := q, wq_consumer := (wq_consumer s)(i := Outside),
       wq_popped := (if found then wq_popped s @ [t] else wq_popped s)\<rparr>)"

definition wq_new :: waiting_queue where
  "wq_new = \<lparr>wq_queue = ConcurrentTaskQueue_new, wq_consumer = (\<lambda>_. Outside), wq_pushed = [], wq_popped = [], discarded = False\<rparr>"

inductive wq_step :: "('z) libuuid_scheme \<Rightarrow> waiting_queue \<Rightarrow> waiting_queue \<Rightarrow> bool" for L where
  step_push: "wq_step L s (wq_push data s)"
| step_clear: "wq_step L s (wq_clear s)"
| step_remove: "wq_step L s (wq_remove L u s)"
| step_try_pop: "wq_step L s (wq_try_pop s)"
| step_wait: "wq_consumer s i \<noteq> Asleep \<Longrightarrow> wq_step L s (wq_wait i s)"
| step_timeout: "wq_consumer s i \<noteq> Outside \<Longrightarrow> wq_step L s (wq_timeout i s)"
| step_spurious: "wq_consumer s i = Asleep \<Longrightarrow> wq_step L s (s\<lparr>wq_consumer := (wq_consumer s)(i := Awake)\<rparr>)"

section \<open>The invariant\<close>

text \<open>
  Nobody sleeps while there is a task, and what was popped, followed by what is left, is what was pushed, with
  gaps only where something was discarded.
\<close>

definition wq_inv :: "waiting_queue \<Rightarrow> bool" where
  "wq_inv s \<longleftrightarrow> (wq_queue s \<noteq> [] \<longrightarrow> (\<forall>i. wq_consumer s i \<noteq> Asleep)) \<and>
     subseq (wq_popped s @ wq_queue s) (wq_pushed s) \<and>
     (\<not> discarded s \<longrightarrow> wq_popped s @ wq_queue s = wq_pushed s)"

lemma remove_scan_queue_subseq: "remove_scan_queue L u q r = Inr (r', q') \<Longrightarrow> subseq q' q"
  by (induction q arbitrary: r r' q') (auto simp: rbind_def split: option.splits if_splits sum.splits)

lemma remove_task_subseq: "remove_task_from_queue L u r q = Inr (r', q') \<Longrightarrow> subseq q' q"
  by (auto simp: remove_task_from_queue_def queue_empty_def dest: remove_scan_queue_subseq split: if_splits)

lemma subseq_append_left: "subseq ys xs \<Longrightarrow> subseq (zs @ xs) us \<Longrightarrow> subseq (zs @ ys) us"
  by (meson subseq_order.trans list_emb_append_mono subseq_order.refl)

lemma wq_inv_new: "wq_inv wq_new"
  by (simp add: wq_inv_def wq_new_def ConcurrentTaskQueue_new_def)

lemma wq_inv_step:
  assumes inv: "wq_inv s" and step: "wq_step L s t"
  shows "wq_inv t"
  using step
proof cases
  case (step_push data)
  with inv show ?thesis
    by (auto simp: wq_inv_def wq_push_def queue_push_def notify_all_def simp flip: append_assoc intro: subseq_append')
next
  case step_clear
  have "subseq (wq_popped s) (wq_pushed s)"
    using inv subseq_append_left [of "[]" "wq_queue s" "wq_popped s"] by (simp add: wq_inv_def)
  with step_clear show ?thesis by (simp add: wq_inv_def wq_clear_def queue_clear_def ConcurrentTaskQueue_new_def)
next
  case (step_remove u)
  then show ?thesis
  proof (cases "remove_task_from_queue L u None (wq_queue s)")
    case (Inr p)
    obtain r q where p: "p = (r, q)" by (cases p)
    with Inr have q: "subseq q (wq_queue s)" by (simp add: remove_task_subseq)
    then have "q \<noteq> [] \<Longrightarrow> wq_queue s \<noteq> []" by auto
    with subseq_append_left [OF q] inv step_remove Inr p show ?thesis by (auto simp: wq_inv_def wq_remove_def)
  qed (use inv in \<open>simp add: wq_remove_def\<close>)
next
  case step_try_pop
  with inv show ?thesis by (cases "wq_queue s") (auto simp: wq_inv_def wq_try_pop_def try_pop_def)
next
  case (step_wait i)
  with inv show ?thesis
    by (cases "wq_queue s") (auto simp: wq_inv_def wq_wait_def wait_and_pop_def queue_not_empty_def)
next
  case (step_timeout i)
  with inv show ?thesis
    by (cases "wq_queue s") (auto simp: wq_inv_def wq_timeout_def wait_for_and_pop_def queue_not_empty_def)
next
  case (step_spurious i)
  with inv show ?thesis by (auto simp: wq_inv_def)
qed

interpretation waiting: step_invariant "\<lambda>_. True" "\<lambda>_ s. s = wq_new" wq_step "\<lambda>_. wq_inv"
  by unfold_locales (auto intro: wq_inv_new wq_inv_step)

end
