(* ===== verification/Scheduler_Claims.thy ===== *)
theory Scheduler_Claims
  imports Task_Scheduler Queue_Waiting Sample_Graph
begin

text \<open>
  The properties of the queue, the threads and the scheduler (theories \<open>Task_Queue\<close>, \<open>Queue_Waiting\<close>, \<open>Task_Thread\<close>,
  \<open>Task_Scheduler\<close>), with concrete runs as witnesses.
\<close>

definition stage :: "uuid_t \<Rightarrow> string \<Rightarrow> TaskStage" where
  "stage u l = \<lparr>s_class = PrintStage, s_label = l, s_uuid = u, s_running = False\<rparr>"

section \<open>Queue, threads, scheduler\<close>

text \<open>A run of the loop on a queue with two tasks.\<close>

lemma sample_run:
  "\<exists>s. (sched_step (sample_env False))\<^sup>*\<^sup>* (startup_begin (TaskScheduler_new\<lparr>sch_queue :=
        [Some (sample_task 1 ''first'' []), Some (sample_task 2 ''second'' [])]\<rparr>)) s \<and>
     dispatched s = [sample_task 1 ''first'' []] \<and> sch_queue s = [Some (sample_task 2 ''second'' [])] \<and> sch_pc s = InnerTest \<and>
     \<not> is_shutdown s \<and>
     sch_pool s = (replicate 10 TaskThread_new)[0 := TaskThread_new\<lparr>th_task := Some (sample_task 1 ''first'' []), th_joinable := True\<rparr>]"
proof -
  let ?q = "[Some (sample_task 1 ''first'' []), Some (sample_task 2 ''second'' [])]"
  let ?s0 = "startup_begin (TaskScheduler_new\<lparr>sch_queue := ?q\<rparr>)"
  let ?s6 = "?s0\<lparr>sch_pause := False, sch_kill := False, sch_queue := [Some (sample_task 2 ''second'' [])], sch_pc := InnerTest,
      sch_pool := (replicate 10 TaskThread_new)[0 := TaskThread_new\<lparr>th_task := Some (sample_task 1 ''first'' []), th_joinable := True\<rparr>],
      dispatched := [sample_task 1 ''first'' []]\<rparr>"
  have "(startup_step ^^ 11) ?s0 = ?s6"
    by (simp add: numeral_eq_Suc startup_step_def startup_begin_def TaskScheduler_new_def wait_for_and_pop_def
        queue_not_empty_def first_unused_thread_def pool_size_def thread_is_running_def TaskThread_new_def
        set_task_and_run_def)
  moreover have "(sched_step (sample_env False))\<^sup>*\<^sup>* ?s0 ((startup_step ^^ 11) ?s0)"
  proof (rule startup_steps)
    fix j :: nat assume "j < 11"
    then have "j \<in> {0, 1, 2, 3, 4, 5, 6, 7, 8, 9, 10}" by (auto simp: numeral_eq_Suc less_Suc_eq)
    then show "sch_pc ((startup_step ^^ j) ?s0) \<noteq> StartupReturned"
      by (elim insertE emptyE; simp add: numeral_eq_Suc startup_step_def startup_begin_def TaskScheduler_new_def
          wait_for_and_pop_def queue_not_empty_def first_unused_thread_def pool_size_def thread_is_running_def
          TaskThread_new_def)
  qed
  ultimately have run: "(sched_step (sample_env False))\<^sup>*\<^sup>* ?s0 ?s6" by simp
  show ?thesis by (intro exI [of _ ?s6]) (use run in \<open>simp add: is_shutdown_def startup_begin_def\<close>)
qed

text \<open>
  C11. A call of \<open>TaskScheduler::startup\<close> hands at most one task to the thread pool, whatever other
  threads do meanwhile (queue, pause, resume, kill, shut down, finish tasks). Once a task was handed
  over, the loop is stuck in its inner loop, with nothing to hand over, until shutdown.
\<close>

theorem startup_dispatches_at_most_one:
  assumes "(sched_step L)\<^sup>*\<^sup>* (startup_begin (TaskScheduler_new\<lparr>sch_queue := q\<rparr>)) s"
  shows "length (dispatched s) \<le> 1 \<and>
    (dispatched s \<noteq> [] \<and> \<not> is_shutdown s \<longrightarrow> inner_loop (sch_pc s) \<and> sch_next s = None)"
proof -
  have "sched_init L (startup_begin (TaskScheduler_new\<lparr>sch_queue := q\<rparr>))" by (auto simp: sched_init_def)
  from sched.reachable_inv [OF TrueI this assms] show ?thesis
    by (auto simp: dispatch_inv_def is_shutdown_def split: if_splits)
qed

theorem startup_dispatches_at_most_one_witness:
  "\<exists>s. (sched_step (sample_env False))\<^sup>*\<^sup>* (startup_begin (TaskScheduler_new\<lparr>sch_queue :=
        [Some (sample_task 1 ''first'' []), Some (sample_task 2 ''second'' [])]\<rparr>)) s \<and>
     dispatched s = [sample_task 1 ''first'' []] \<and> sch_queue s = [Some (sample_task 2 ''second'' [])] \<and>
     \<not> is_shutdown s \<and> inner_loop (sch_pc s)"
proof -
  obtain s where run: "(sched_step (sample_env False))\<^sup>*\<^sup>* (startup_begin (TaskScheduler_new\<lparr>sch_queue :=
        [Some (sample_task 1 ''first'' []), Some (sample_task 2 ''second'' [])]\<rparr>)) s"
      "dispatched s = [sample_task 1 ''first'' []]" "sch_queue s = [Some (sample_task 2 ''second'' [])]" "\<not> is_shutdown s"
    using sample_run by blast
  with startup_dispatches_at_most_one [OF run(1)] show ?thesis by (intro exI [of _ s]) simp
qed

text \<open>
  C18. Shutdown ends \<open>startup\<close>: once \<open>kill_\<close> is set and the two stores at the beginning of \<open>startup\<close> are done, the
  loop returns within four of its own steps, whatever the other threads do between them (also when they resume
  the scheduler). It may still hand over the task it was about to hand over, and nothing else. A call of
  \<open>shutdown\<close> that comes before the store of \<open>kill_\<close>, however, is forgotten. That each step of the loop ends
  presumes that the new thread's notification is not lost (C29).
\<close>

theorem shutdown_ends_startup:
  assumes "is_shutdown s" "sch_pc s \<noteq> StorePause" "sch_pc s \<noteq> StoreKill" "(loop_round L ^^ 4) s t"
  shows "sch_pc t = StartupReturned \<and> is_shutdown t \<and>
    length (dispatched t) \<le> length (dispatched s) + (case sch_pc s of Dispatch i \<Rightarrow> 1 | _ \<Rightarrow> 0) \<and>
    idle_loop ((startup_step ^^ 2) (sched_shutdown (startup_begin s)))"
proof -
  have "steps_left (sch_pc s) \<le> 4" using assms(2,3) by (cases "sch_pc s") simp_all
  moreover have "(loop_round L ^^ Suc 3) s t" using assms(4) by (simp add: numeral_eq_Suc)
  moreover have "killed s" using assms(1-3) by (simp add: killed_def is_shutdown_def)
  moreover have "idle_loop ((startup_step ^^ 2) (sched_shutdown (startup_begin s)))"
    by (simp add: idle_loop_def startup_begin_def sched_shutdown_def sched_client_defs startup_step_def numeral_eq_Suc)
  ultimately show ?thesis using killed_rounds [of 3 L s t] by (auto simp: steps_left_0 [symmetric] killed_def is_shutdown_def)
qed

theorem shutdown_ends_startup_witness:
  "\<exists>s t. is_shutdown s \<and> sch_pc s = PauseTest \<and> (loop_round (sample_env False) ^^ 4) s t \<and>
     sch_pc t = StartupReturned \<and> dispatched t = [] \<and> sch_queue t = []"
proof -
  let ?s = "(sched_shutdown TaskScheduler_new)\<lparr>sch_pause := False, sch_pc := PauseTest, sch_next := Some (sample_task 1 ''lost'' [])\<rparr>"
  let ?t = "(startup_step ^^ 4) ?s"
  have round: "loop_round (sample_env False) u (startup_step u)" for u by (auto simp: loop_round_def)
  have rounds: "(loop_round (sample_env False) ^^ n) u ((startup_step ^^ n) u)" for n u
  proof (induction n)
    case (Suc n)
    then show ?case using round by auto
  qed simp
  have s: "is_shutdown ?s" "sch_pc ?s = PauseTest" "dispatched ?s = []"
    by (simp_all add: is_shutdown_def sched_shutdown_def sched_client_defs TaskScheduler_new_def)
  have "sch_queue ?t = []"
    by (simp add: startup_step_def numeral_eq_Suc sched_shutdown_def sched_client_defs TaskScheduler_new_def
        first_unused_thread_def pool_size_def thread_is_running_def TaskThread_new_def ConcurrentTaskQueue_new_def Let_def)
  with shutdown_ends_startup [OF s(1) _ _ rounds] s rounds [of 4 ?s] show ?thesis
    by (intro exI [of _ ?s] exI [of _ ?t]) simp
qed

text \<open>
  C28. The scheduler cannot be restarted after it ran a task: if \<open>startup\<close> has handed over a task and has
  returned after a shutdown, and the first thread has finished its task, then the next call of \<open>startup\<close> that
  finds a task in the queue chooses the same thread again and ends the program with \<open>std::terminate\<close>, as nothing
  joined the thread.
\<close>

theorem restart_terminates:
  assumes "(sched_step L)\<^sup>*\<^sup>* (startup_begin (TaskScheduler_new\<lparr>sch_queue := q\<rparr>)) s"
    and "sch_pc s = StartupReturned" "dispatched s \<noteq> []" "\<not> thread_is_running (sch_pool s ! 0)"
    and "dropWhile is_null (sch_queue s) \<noteq> []" "4 * length (sch_queue s) + 11 \<le> n"
  shows "\<not> terminated s \<and> terminated ((startup_step ^^ n) (startup_begin s))"
proof -
  have "sched_init L (startup_begin (TaskScheduler_new\<lparr>sch_queue := q\<rparr>))" by (auto simp: sched_init_def)
  from sched.reachable_inv [OF TrueI this assms(1)] assms(3)
  have s: "sch_pool s \<noteq> []" "th_joinable (sch_pool s ! 0)" "\<not> terminated s"
    by (auto simp: dispatch_inv_def pool_size_def)
  obtain t r where "dropWhile is_null (sch_queue s) = Some t # r"
    using assms(5) by (metis dropWhile_null_cases)
  with startup_alone [of s n] assms(4,6) s show ?thesis by (auto simp: thread_is_running_def)
qed

theorem restart_terminates_witness:
  "\<exists>s. (sched_step (sample_env False))\<^sup>*\<^sup>* (startup_begin (TaskScheduler_new\<lparr>sch_queue :=
        [Some (sample_task 1 ''first'' []), Some (sample_task 2 ''second'' [])]\<rparr>)) s \<and>
     sch_pc s = StartupReturned \<and> dispatched s = [sample_task 1 ''first'' []] \<and>
     terminated ((startup_step ^^ 15) (startup_begin s))"
proof -
  let ?q = "[Some (sample_task 1 ''first'' []), Some (sample_task 2 ''second'' [])]"
  obtain s where run: "(sched_step (sample_env False))\<^sup>*\<^sup>* (startup_begin (TaskScheduler_new\<lparr>sch_queue := ?q\<rparr>)) s"
      "dispatched s = [sample_task 1 ''first'' []]" "sch_queue s = [Some (sample_task 2 ''second'' [])]"
      "sch_pc s = InnerTest" "sch_pool s = (replicate 10 TaskThread_new)[0 := TaskThread_new\<lparr>th_task := Some (sample_task 1 ''first'' []), th_joinable := True\<rparr>]"
    using sample_run by blast
  let ?u = "startup_step (startup_step (sched_shutdown s))"
  have "sched_step (sample_env False) s (sched_pause s)" "sched_step (sample_env False) (sched_pause s) (sched_shutdown s)"
    unfolding sched_shutdown_def by (intro sched_client client_set_pause client_set_kill)+
  moreover have "sched_step (sample_env False) (sched_shutdown s) (startup_step (sched_shutdown s))"
      "sched_step (sample_env False) (startup_step (sched_shutdown s)) ?u"
    using run(4) by (intro sched_loop; simp add: sched_shutdown_def sched_client_defs startup_step_def)+
  ultimately have "(sched_step (sample_env False))\<^sup>*\<^sup>* (startup_begin (TaskScheduler_new\<lparr>sch_queue := ?q\<rparr>)) ?u"
    using run(1) by (meson rtranclp.rtrancl_into_rtrancl)
  moreover have "sch_pc ?u = StartupReturned" "dispatched ?u = [sample_task 1 ''first'' []]"
      "sch_queue ?u = [Some (sample_task 2 ''second'' [])]" "sch_pool ?u = sch_pool s"
    using run by (simp_all add: sched_shutdown_def sched_client_defs startup_step_def)
  ultimately show ?thesis
    using restart_terminates [of "sample_env False" ?q ?u 15] run(5)
    by (intro exI [of _ ?u]) (simp add: thread_is_running_def TaskThread_new_def is_null_def)
qed

text \<open>
  C25. Nothing is lost in the queue, whatever threads push, pop, wait (with or without a time limit), clear and remove
  in whatever order, and whenever \<open>wait\<close> returns without a notification: no consumer sleeps in a wait while there is a task
  in the queue, and the tasks that came out, followed by those still inside, are those pushed, in this order,
  with gaps only if \<open>clear\<close> or \<open>remove_task_from_queue\<close> was called.
\<close>

theorem queue_no_lost_wakeup:
  assumes "(wq_step L)\<^sup>*\<^sup>* wq_new s"
  shows "(wq_queue s \<noteq> [] \<longrightarrow> (\<forall>i. wq_consumer s i \<noteq> Asleep)) \<and>
    (if discarded s then subseq (wq_popped s @ wq_queue s) (wq_pushed s) else wq_popped s @ wq_queue s = wq_pushed s)"
  using waiting.reachable_inv [OF TrueI refl assms] by (simp add: wq_inv_def)

theorem queue_no_lost_wakeup_witness:
  "\<exists>s. (wq_step (sample_env False))\<^sup>*\<^sup>* wq_new s \<and> wq_consumer s 0 = Awake \<and> wq_consumer s 1 \<noteq> Asleep \<and>
     wq_queue s = [Some (sample_task 1 ''t'' [])] \<and> wq_popped (wq_wait 0 s) = wq_pushed s"
proof -
  let ?t = "Some (sample_task 1 ''t'' [])" and ?R = "wq_step (sample_env False)"
  let ?s1 = "wq_wait 0 wq_new" and ?s = "wq_push (Some (sample_task 1 ''t'' [])) (wq_wait 0 wq_new)"
  have "?R wq_new ?s1" by (rule step_wait) (simp add: wq_new_def)
  moreover have "?R ?s1 ?s" by (rule step_push)
  ultimately have run: "?R\<^sup>*\<^sup>* wq_new ?s" by (meson converse_rtranclp_into_rtranclp r_into_rtranclp)
  have s1: "?s1 = wq_new\<lparr>wq_consumer := (\<lambda>_. Outside)(0 := Asleep)\<rparr>"
    by (simp add: wq_wait_def wq_new_def wait_and_pop_def queue_not_empty_def ConcurrentTaskQueue_new_def)
  have s: "wq_queue ?s = [?t]" "wq_consumer ?s 0 = Awake" "\<not> discarded ?s" "wq_popped ?s = []"
    unfolding s1 by (simp_all add: wq_push_def wq_new_def queue_push_def ConcurrentTaskQueue_new_def notify_all_def)
  have "wq_popped (wq_wait 0 u) = [?t]" if "wq_queue u = [?t]" "wq_popped u = []" for u
    using that by (simp add: wq_wait_def wait_and_pop_def queue_not_empty_def)
  from this [OF s(1,4)] have "wq_popped (wq_wait 0 ?s) = [?t]" .
  moreover have "wq_consumer ?s 1 \<noteq> Asleep" "wq_pushed ?s = [?t]"
    using queue_no_lost_wakeup [OF run] s by auto
  ultimately show ?thesis using run s by (intro exI [of _ ?s]) simp
qed

text \<open>
  One after the other, the operations are first-in first-out and lose nothing: after any sequence of pushes and pops, the
  tasks that came out followed by those still inside are those that were inside followed by those pushed.
\<close>

theorem task_queue_fifo:
  "fst (run_queue ops q) @ snd (run_queue ops q) = q @ concat (map (\<lambda>c. case c of Push t \<Rightarrow> [t] | Pop \<Rightarrow> []) ops)"
  using run_queue_conservation [of ops q "fst (run_queue ops q)" "snd (run_queue ops q)"] by simp

text \<open>
  \<open>kill_task\<close> dereferences a null pointer if the queue holds one; \<open>process_dag\<close> puts one there for
  every vertex without a task.
\<close>

lemma kill_task_null_task:
  assumes "None \<in> set (sch_queue s)"
  shows "kill_task_uuid L u s = (Inl NullDeref, s)"
  using assms by (auto simp: kill_task_uuid_def remove_task_from_queue_def queue_empty_def remove_scan_queue_null)

text \<open>
  C26. \<open>kill_task\<close> on a queue without null pointers removes every task with the given identifier and keeps the
  others in order; it returns \<open>true\<close> even if there was no such task, and touches no task that already left the
  queue. If there is a null pointer anywhere in the queue, which \<open>process_dag\<close> puts there for a vertex without a
  task, it is dereferenced.
\<close>

theorem kill_task_filters_queue:
  assumes "libuuid_ok L"
  shows "if None \<in> set (sch_queue s) then fst (kill_task_uuid L u s) = Inl NullDeref
    else kill_task_uuid L u s = (Inr True, s\<lparr>sch_queue := filter (\<lambda>t. map_option t_uuid t \<noteq> Some u) (sch_queue s)\<rparr>)"
  using remove_scan_queue_ok [OF assms, of "sch_queue s" u None] kill_task_null_task [of s L u]
  by (simp add: kill_task_uuid_def remove_task_from_queue_def queue_empty_def)

theorem kill_task_filters_queue_witness:
  "kill_task_uuid (sample_env False) 2 (TaskScheduler_new\<lparr>sch_queue := [Some (sample_task 1 ''a'' []), Some (sample_task 2 ''b'' [])]\<rparr>) =
     (Inr True, TaskScheduler_new\<lparr>sch_queue := [Some (sample_task 1 ''a'' [])]\<rparr>) \<and>
   fst (kill_task_uuid (sample_env False) 1 (queue_task None TaskScheduler_new)) = Inl NullDeref"
  using kill_task_filters_queue [of "sample_env False" "TaskScheduler_new\<lparr>sch_queue := [Some (sample_task 1 ''a'' []), Some (sample_task 2 ''b'' [])]\<rparr>" 2]
    kill_task_filters_queue [of "sample_env False" "queue_task None TaskScheduler_new" 1]
  by (simp add: env_ok_libuuid [OF sample_env_ok] sample_task_def queue_task_def queue_push_def)

text \<open>
  \<open>first_unused_thread\<close> returns the least index of a thread of the pool that is not running, and
  \<open>static_cast<std::size_t>(-1)\<close> if all are.
\<close>

theorem first_unused_thread_least:
  assumes "length (sch_pool s) = pool_size"
  shows "first_unused_thread s = (if \<exists>i < pool_size. \<not> thread_is_running (sch_pool s ! i)
    then of_nat (LEAST i. i < pool_size \<and> \<not> thread_is_running (sch_pool s ! i)) else - 1)"
proof -
  let ?P = "\<lambda>i. \<not> thread_is_running (sch_pool s ! i)"
  have spec: "first_unused_thread s = (case List.find ?P [0..<pool_size] of None \<Rightarrow> - 1 | Some i \<Rightarrow> of_nat i)"
    using first_unused_from_spec [of 0 "sch_pool s"] assms
    by (simp add: first_unused_thread_def pool_size_def split: option.split)
  show ?thesis
  proof (cases "List.find ?P [0..<pool_size]")
    case None
    moreover from this have "\<not> (\<exists>i < pool_size. ?P i)" by (auto simp: find_None_iff)
    ultimately show ?thesis by (auto simp: spec)
  next
    case (Some i)
    then have i: "i < pool_size" "?P i" "\<And>j. j < i \<Longrightarrow> \<not> ?P j" by (auto simp: find_Some_iff)
    then have "(LEAST i. i < pool_size \<and> ?P i) = i"
      by (intro Least_equality) (auto simp: not_less [symmetric])
    with i show ?thesis unfolding spec Some by auto
  qed
qed

theorem first_unused_thread_least_witness:
  "first_unused_thread (TaskScheduler_new\<lparr>sch_pool := (replicate 10 TaskThread_new)[0 := TaskThread_new\<lparr>th_running := True\<rparr>]\<rparr>) = 1"
proof -
  let ?s = "TaskScheduler_new\<lparr>sch_pool := (replicate 10 TaskThread_new)[0 := TaskThread_new\<lparr>th_running := True\<rparr>]\<rparr>"
  have one: "\<not> thread_is_running (sch_pool ?s ! 1)" "thread_is_running (sch_pool ?s ! 0)"
    by (simp_all add: thread_is_running_def TaskThread_new_def)
  then have "(LEAST i. i < pool_size \<and> \<not> thread_is_running (sch_pool ?s ! i)) = 1"
    by (intro Least_equality) (auto simp: pool_size_def not_less_eq_eq [symmetric] intro: gr0I)
  moreover have "\<exists>i < pool_size. \<not> thread_is_running (sch_pool ?s ! i)" 
    using one(1) by (intro exI [of _ 1]) (simp add: pool_size_def)
  ultimately show ?thesis using first_unused_thread_least [of ?s] by (simp add: pool_size_def)
qed

text \<open>
  C27. The thread function runs the stages of its task in order: each is run, cleaned up and, if it ran,
  ended; the first stage that fails is the last. The task is completed with \<open>true\<close> exactly if all
  stages ran and ended; the callback and the plugin that are set are called once each, and the
  thread is idle afterwards.
\<close>

theorem thread_runs_stages:
  assumes "th_task th = Some t" "\<not> t_iterating t"
  shows "threaded_func no_log (run_log ok) (\<lambda>_. False) (log_vt ends (\<lambda>_. False)) th [] =
    (list_all (\<lambda>st. ok st \<and> ends st) (t_stages t),
     Task_complete (list_all (\<lambda>st. ok st \<and> ends st) (t_stages t)) t,
     th\<lparr>th_task := None, th_running := False\<rparr>,
     concat (map (stage_events ok)
       (takeWhile (\<lambda>st. ok st \<and> ends st) (t_stages t) @
        (case dropWhile (\<lambda>st. ok st \<and> ends st) (t_stages t) of [] \<Rightarrow> [] | st # _ \<Rightarrow> [st]))))"
  unfolding threaded_func_log [OF assms] all_of_stages_log by simp

theorem thread_runs_stages_witness:
  "threaded_func no_log (run_log (\<lambda>st. s_label st \<noteq> ''bad'')) (\<lambda>_. False) (log_vt (\<lambda>_. True) (\<lambda>_. False))
     (TaskThread_new\<lparr>th_task := Some ((sample_task 1 ''t'' [stage 2 ''good'', stage 3 ''bad'', stage 4 ''never''])\<lparr>t_callback := Some 7\<rparr>)\<rparr>) [] =
   (False, [CallbackCalled 7 False], TaskThread_new,
    [StageRan (stage 2 ''good''), StageCleaned (stage 2 ''good''), StageEnded (stage 2 ''good''),
     StageRan (stage 3 ''bad''), StageCleaned (stage 3 ''bad'')])"
  using thread_runs_stages [of "TaskThread_new\<lparr>th_task := Some ((sample_task 1 ''t'' [stage 2 ''good'', stage 3 ''bad'', stage 4 ''never''])\<lparr>t_callback := Some 7\<rparr>)\<rparr>"
      "(sample_task 1 ''t'' [stage 2 ''good'', stage 3 ''bad'', stage 4 ''never''])\<lparr>t_callback := Some 7\<rparr>"
      "\<lambda>st. s_label st \<noteq> ''bad''" "\<lambda>_. True"]
  by (simp add: sample_task_def stage_def stage_events_def Task_complete_def callback_is_set_def
      callback_plugin_is_set_def TaskThread_new_def)

text \<open>
  A task that was killed before it starts still runs its first stage, whole, and only then stops;
  it completes with \<open>false\<close>.
\<close>

theorem killed_task_runs_first_stage:
  assumes "th_task th = Some t" "\<not> t_iterating t" "t_stages t = st # sts"
  shows "threaded_func no_log (run_log ok) (\<lambda>_. False) (log_vt ends (\<lambda>_. True)) th [] =
    (False, Task_complete False t, th\<lparr>th_task := None, th_running := False\<rparr>, stage_events ok st)"
  unfolding threaded_func_log [OF assms(1,2)] assms(3) all_of_stages_killed by simp

theorem killed_task_runs_first_stage_witness:
  "threaded_func no_log (run_log (\<lambda>_. True)) (\<lambda>_. False) (log_vt (\<lambda>_. True) (\<lambda>_. True))
     (TaskThread_new\<lparr>th_task := Some (sample_task 1 ''t'' [stage 2 ''a'', stage 3 ''b''])\<rparr>) [] =
   (False, [], TaskThread_new, [StageRan (stage 2 ''a''), StageCleaned (stage 2 ''a''), StageEnded (stage 2 ''a'')])"
  using killed_task_runs_first_stage [of "TaskThread_new\<lparr>th_task := Some (sample_task 1 ''t'' [stage 2 ''a'', stage 3 ''b''])\<rparr>"
      "sample_task 1 ''t'' [stage 2 ''a'', stage 3 ''b'']" "stage 2 ''a''" "[stage 3 ''b'']" "\<lambda>_. True" "\<lambda>_. True"]
  by (simp add: sample_task_def stage_events_def Task_complete_def callback_is_set_def callback_plugin_is_set_def
      TaskThread_new_def)

text \<open>
  A thread object runs one task: after the first has finished, the thread reports that it is not
  running, so the scheduler may choose it again, but a second \<open>set_task_and_run\<close> assigns to a
  \<open>std::thread\<close> that was never joined and ends the program.
\<close>

theorem second_task_terminates:
  assumes "set_task_and_run a TaskThread_new = (r1, th1)"
    and "threaded_func log run interrupt_load vt th1 w = (r, cs, th2, w')"
  shows "\<not> thread_is_running th2 \<and> fst (set_task_and_run b th2) = Inl StdTerminate"
proof -
  have "r1 = Inr ()" using assms(1) by (auto simp: set_task_and_run_def TaskThread_new_def)
  with assms(1) have "set_task_and_run a TaskThread_new = (Inr (), th1)" by simp
  note twice = set_task_and_run_twice [OF this assms(2)]
  show ?thesis using twice(1) twice(2) by (auto simp: TaskThread_new_def)
qed

theorem second_task_terminates_witness:
  "\<exists>th1 th2. set_task_and_run (Some (sample_task 1 ''t'' [])) TaskThread_new = (Inr (), th1) \<and>
     \<not> thread_is_running th2 \<and> fst (set_task_and_run (Some (sample_task 2 ''u'' [])) th2) = Inl StdTerminate"
proof -
  let ?th1 = "TaskThread_new\<lparr>th_task := Some (sample_task 1 ''t'' []), th_joinable := True\<rparr>"
  have one: "set_task_and_run (Some (sample_task 1 ''t'' [])) TaskThread_new = (Inr (), ?th1)"
    by (simp add: set_task_and_run_def TaskThread_new_def)
  obtain r cs th2 w' where "threaded_func no_log (run_log (\<lambda>_. True)) (\<lambda>_. False) (log_vt (\<lambda>_. True) (\<lambda>_. False)) ?th1 [] = (r, cs, th2, w')"
    by (metis prod.exhaust)
  from second_task_terminates [OF one this, of "Some (sample_task 2 ''u'' [])"] one show ?thesis by blast
qed

text \<open>
  C29. The handshake of \<open>set_task_and_run\<close> is wrong in two ways. It can lose its wake-up: there is an interleaving
  after which the caller waits, the new thread has sent its only notification, and no step of either is left.
  And as the wait has no predicate, after a spurious wake-up the caller may return before the thread has started,
  which then uses the caller's locals; without spurious wake-ups this does not happen.
\<close>

theorem handshake_can_deadlock:
  "handshake_step\<^sup>*\<^sup>* (Starting, NotStarted, False) (Waiting, DidNotify, False) \<and>
   (\<nexists>q. handshake_step (Waiting, DidNotify, False) q) \<and>
   noisy_step\<^sup>*\<^sup>* (Starting, NotStarted, False) (CallReturned, DidStart, True) \<and>
   {x. \<exists>c w. handshake_step\<^sup>*\<^sup>* (Starting, NotStarted, False) (c, w, x)} = {False}"
  using lost_wakeup_reachable lost_wakeup_stuck spurious_dangles by (fastforce dest: handshake_safe)

end
