(* ===== verification/Dag_Yaml.thy ===== *)
theory Dag_Yaml
  imports Dag_Safety
begin

text \<open>
  \<open>YAMLDagDeserializer\<close> (\<open>lib/dag_serialization.cxx\<close>) and \<open>DynamicLibraryRegistry\<close>
  (\<open>lib/dynamic_library_registry.cxx\<close>): a graph is built from a YAML document whose tasks name shared
  libraries. yaml-cpp, rapidjson's parser and Boost.DLL are parameters: the record \<open>yaml_api\<close> on a type
  \<open>'n\<close> of nodes and the record \<open>dll_api\<close>. Log messages are left out.

  The state of a run is the registry of loaded libraries and the store.
\<close>

record 'n yaml_api =
  y_sub :: "'n \<Rightarrow> string \<Rightarrow> 'n res" \<comment> \<open>\<open>node[key]\<close>, may throw\<close>
  y_defined :: "'n \<Rightarrow> bool" \<comment> \<open>\<open>if (node)\<close>\<close>
  y_is_map :: "'n \<Rightarrow> bool"
  y_is_sequence :: "'n \<Rightarrow> bool"
  y_as_string :: "'n \<Rightarrow> string res"
  y_as_vector :: "'n \<Rightarrow> 'n list res"
  y_text :: "'n \<Rightarrow> string" \<comment> \<open>\<open>stream << node\<close>\<close>
  y_to_json :: "'n \<Rightarrow> json option" \<comment> \<open>emit and parse; \<open>None\<close> is a parse error\<close>

record dll_api =
  dll_open :: "string \<Rightarrow> string option" \<comment> \<open>\<open>shared_library(name)\<close>; \<open>Some what\<close> is a \<open>system_error\<close>\<close>
  dll_symbols :: "string \<Rightarrow> string \<Rightarrow> string + string list" \<comment> \<open>\<open>library_info(name).symbols(section)\<close>\<close>
  dll_function :: "string \<Rightarrow> string \<Rightarrow> nat res" \<comment> \<open>\<open>get_alias<void(bool)>\<close>\<close>
  dll_plugin :: "string \<Rightarrow> string \<Rightarrow> nat res" \<comment> \<open>\<open>import_alias<TaskCallbackPlugin>\<close>\<close>
  dll_stage :: "string \<Rightarrow> string \<Rightarrow> nat \<Rightarrow> string \<Rightarrow> TaskStage option res" \<comment> \<open>a stage creator, called\<close>

record deser_state =
  registry :: "string list"
  heap :: store

section \<open>Keys and sample texts\<close>

definition DAG_KEY :: string where "DAG_KEY = ''DAG''"

definition VERTICES_KEY :: string where "VERTICES_KEY = ''Vertices''"

definition TASK_KEY :: string where "TASK_KEY = ''Task''"

definition STAGES_KEY :: string where "STAGES_KEY = ''Stages''"

definition CONFIGURATION_KEY :: string where "CONFIGURATION_KEY = ''Configuration''"

definition INITIAL_INPUTS_KEY :: string where "INITIAL_INPUTS_KEY = ''InitialInputs''"

definition TITLE_KEY :: string where "TITLE_KEY = ''Title''"

definition NAME_KEY :: string where "NAME_KEY = ''Name''"

definition UUID_KEY :: string where "UUID_KEY = ''UUID''"

definition CALLBACK_KEY :: string where "CALLBACK_KEY = ''Callback''"

definition LIBRARY_NAME_KEY :: string where "LIBRARY_NAME_KEY = ''LibraryName''"

definition SYMBOL_NAME_KEY :: string where "SYMBOL_NAME_KEY = ''SymbolName''"

definition CALLBACK_TYPE_KEY :: string where "CALLBACK_TYPE_KEY = ''Type''"

datatype UpTo = CONNECTIONS | EMPTY | UpToDAG | VERTICES | VERTEX | TASK | STAGES | STAGE

datatype CallbackType = FUNCTION | PLUGIN | DNE

definition ln :: "string \<Rightarrow> string" where
  "ln t = t @ endl"

definition stage_str :: "string \<Rightarrow> string" where
  "stage_str ret =
     ln ''            - Name: <optional string>'' @
     ln ''              LibraryName: <string>'' @
     ln ''              SymbolName: <string>'' @
     ln ''          ...'' @ ln ''    ...''"

definition stages_str :: "string \<Rightarrow> string" where
  "stages_str ret =
     (if ret = [] then ln ''        Stages:'' @ ''          ...''
      else ln ''        Stages:'' @ ret)"

definition task_str :: "string \<Rightarrow> string" where
  "task_str ret =
     (let head = ln ''      Task:'' @
                 ln ''        Name: <optional string>'' @
                 ln ''        InitialInputs: <optional YAML>'' @
                 ln ''          <valid YAML>'' @
                 ln ''        Configuration: <optional YAML>'' @
                 ln ''          <valid YAML>'' @
                 ln ''        Callback: <optional>'' @
                 ln ''            LibraryName: <string>'' @
                 ln ''            SymbolName: <string>'' @
                 ln ''            Type: <enum {Plugin, Function}>''
      in if ret = [] then head @ ''        ...'' else head @ ret)"

definition vertex_str :: "string \<Rightarrow> string" where
  "vertex_str ret =
     (let head = ln ''    - Vertex:'' @
                 ln ''      Name: <optional string>'' @
                 ln ''      UUID: <valid uuid4 string>''
      in if ret = [] then head @ ''        ...'' else head @ ret)"

definition verticies_str :: "string \<Rightarrow> string" where
  "verticies_str ret = (if ret = [] then ln ''  Vertices:'' @ ''    ...'' else ln ''  Vertices:'' @ ret)"

definition connections_str :: "string \<Rightarrow> string" where
  "connections_str ret =
     ln ''  Connections:'' @
     ln ''    - Connection:'' @
     ln ''      From: <valid uuid4 string from vertex>'' @
     ln ''      To: <valid uuid4 string from vertex>'' @
     ''    ...''"

definition dag_str :: "string \<Rightarrow> string" where
  "dag_str ret =
     (let head = ln ''DAG:'' @
                 ln ''  Title: <optional string>'' @
                 ln ''  Configuation: <optional YAML>'' @
                 ln ''    <valid YAML>''
      in if ret = [] then head @ ''  ...'' else head @ ret)"

text \<open>The cases of the \<open>switch\<close> fall through; \<open>ret.back()\<close> of an empty string is out of range.\<close>

definition sample_dag_output :: "UpTo \<Rightarrow> string res" where
  "sample_dag_output up_to =
     (let from_vertices = (\<lambda>r. dag_str (verticies_str r));
          from_task = (\<lambda>r. from_vertices (vertex_str (task_str r)));
          ret = (case up_to of
              STAGE \<Rightarrow> from_task (stages_str (stage_str []))
            | STAGES \<Rightarrow> from_task (stages_str [])
            | TASK \<Rightarrow> from_task []
            | VERTEX \<Rightarrow> from_vertices (vertex_str [])
            | VERTICES \<Rightarrow> from_vertices []
            | UpToDAG \<Rightarrow> dag_str []
            | EMPTY \<Rightarrow> []
            | CONNECTIONS \<Rightarrow> []);
          ret1 = (if up_to = CONNECTIONS then connections_str ret else ret)
      in if ret1 = [] then Inl OutOfRange
         else Inr (if last ret1 \<noteq> CHR 0x0A then ret1 @ endl else ret1))"

definition full_sample_output :: "string res" where
  "full_sample_output =
     rbind (sample_dag_output STAGE) (\<lambda>stage_output.
     rbind (sample_dag_output CONNECTIONS) (\<lambda>connections_output.
     Inr (stage_output @ connections_output)))"

definition callback_type_from_string :: "string \<Rightarrow> CallbackType" where
  "callback_type_from_string enum_str =
     (let to_lower = map tolower enum_str
      in if to_lower = ''function'' then FUNCTION
         else if to_lower = ''plugin'' then PLUGIN
         else DNE)"

definition throw_wrong_type :: "UpTo \<Rightarrow> string \<Rightarrow> ('s, 'a) exec" where
  "throw_wrong_type up_to error =
     ebind (elift (sample_dag_output up_to)) (\<lambda>up_to_example.
     eraise (ThrowWrongTypeError (error @ '' As in:'' @ endl @ up_to_example)))"

section \<open>The library registry\<close>

text \<open>The library is opened again for every call, also when it is registered already.\<close>

definition RegistryItem_new :: "dll_api \<Rightarrow> string \<Rightarrow> string res" where
  "RegistryItem_new D library_name =
     (case dll_open D library_name of
        None \<Rightarrow> Inr library_name
      | Some what \<Rightarrow>
          Inl (ThrowRuntimeError (''Could not load library from '' @ library_name @ '' with '' @ what @ '' with: '' @ what)))"

definition RegistryItem_eq :: "string \<Rightarrow> string \<Rightarrow> bool" where
  "RegistryItem_eq this item \<longleftrightarrow> this = item"

text \<open>The set of items is a hash set; \<open>H\<close> is \<open>std::hash<std::string>\<close>. Equal items have equal hashes.\<close>

definition RegistryItem_hash :: "(string \<Rightarrow> size_t) \<Rightarrow> string \<Rightarrow> size_t" where
  "RegistryItem_hash H item = H item"

definition RegistryItem_get_name :: "string \<Rightarrow> string" where
  "RegistryItem_get_name item = item"

definition register_dynamic_library :: "dll_api \<Rightarrow> string \<Rightarrow> (deser_state, string) exec" where
  "register_dynamic_library D name s =
     (case RegistryItem_new D name of
        Inl e \<Rightarrow> (Inl e, s)
      | Inr item \<Rightarrow>
          (case List.find (RegistryItem_eq item) (registry s) of
             None \<Rightarrow> (Inr item, s\<lparr>registry := registry s @ [item]\<rparr>)
           | Some found \<Rightarrow> (Inr found, s)))"

text \<open>\<open>stream << symbols\<close> ends every symbol with a comma.\<close>

definition symbols_text :: "string list \<Rightarrow> string" where
  "symbols_text names = concat (map (\<lambda>x. x @ '','') names)"

definition verify_symbol_present :: "dll_api \<Rightarrow> string \<Rightarrow> string \<Rightarrow> string \<Rightarrow> (bool \<times> string) res" where
  "verify_symbol_present D shared_library symbol_name section_name =
     (case dll_symbols D shared_library section_name of
        Inl what \<Rightarrow> Inl (ThrowDeserializerError (''Could not load symbol info from '' @ shared_library @ '' with '' @ what))
      | Inr task_cb_funcs \<Rightarrow>
          Inr (List.find (\<lambda>exported. exported = symbol_name) task_cb_funcs \<noteq> None, symbols_text task_cb_funcs))"

section \<open>Stages and callbacks\<close>

text \<open>The place of the next generated identifier.\<close>

definition fresh_draw :: "(deser_state, nat) exec" where
  "fresh_draw s = (Inr (draws (heap s)), s\<lparr>heap := (heap s)\<lparr>draws := Suc (draws (heap s))\<rparr>\<rparr>)"

text \<open>\<open>try { m } catch\<close> where the handler throws again, possibly another exception.\<close>

definition rethrow_as :: "(cpp_error \<Rightarrow> cpp_error) \<Rightarrow> ('s, 'a) exec \<Rightarrow> ('s, 'a) exec" where
  "rethrow_as f m s = (case m s of (Inl e, t) \<Rightarrow> (Inl (f e), t) | (Inr a, t) \<Rightarrow> (Inr a, t))"

definition dynamically_load_stage ::
    "dll_api \<Rightarrow> string \<Rightarrow> string \<Rightarrow> string \<Rightarrow> (deser_state, TaskStage option) exec" where
  "dynamically_load_stage D shared_library symbol_name stage_name =
     ebind (elift (verify_symbol_present D shared_library symbol_name ''Stages'')) (\<lambda>(symbol_present, cb_symbols).
     if symbol_present \<and> cb_symbols \<noteq> []
     then ebind fresh_draw (\<lambda>n. elift (dll_stage D shared_library symbol_name n stage_name))
     else eraise (ThrowDeserializerError (''Failed to load '' @ symbol_name @ '' from '' @ shared_library @
            ''. It could not be found'' @ '' in available symbols of --'' @ cb_symbols @ ''--.'')))"

definition required_key_error :: "'n yaml_api \<Rightarrow> string \<Rightarrow> 'n \<Rightarrow> cpp_error" where
  "required_key_error Y key node =
     ThrowDeserializerError (''The required key of '' @ [CHR 0x22] @ key @ [CHR 0x22] @ '' was not present in '' @ y_text Y node)"

text \<open>An optional string: the text of \<open>node[key]\<close>, empty when the key is missing.\<close>

definition optional_string :: "'n yaml_api \<Rightarrow> 'n \<Rightarrow> string \<Rightarrow> string res" where
  "optional_string Y node key =
     rbind (y_sub Y node key) (\<lambda>m. if y_defined Y m then y_as_string Y m else Inr [])"

text \<open>
  The key \<open>LibraryName\<close> is read when the key \<open>Name\<close> is present; only \<open>system_error\<close>s of the loading are
  turned into errors of the deserializer.
\<close>

definition load_stage :: "'n yaml_api \<Rightarrow> dll_api \<Rightarrow> 'n \<Rightarrow> TaskStage list \<Rightarrow> (deser_state, TaskStage list) exec" where
  "load_stage Y D stage_node out_stages =
     ebind (elift (optional_string Y stage_node NAME_KEY)) (\<lambda>stage_name.
     ebind (elift (rbind (y_sub Y stage_node NAME_KEY) (\<lambda>m.
        if y_defined Y m then rbind (y_sub Y stage_node LIBRARY_NAME_KEY) (y_as_string Y)
        else Inl (required_key_error Y LIBRARY_NAME_KEY stage_node)))) (\<lambda>library_name.
     ebind (elift (rbind (y_sub Y stage_node SYMBOL_NAME_KEY) (\<lambda>m.
        if y_defined Y m then y_as_string Y m
        else Inl (required_key_error Y SYMBOL_NAME_KEY stage_node)))) (\<lambda>symbol_name.
     rethrow_as (\<lambda>e. case e of
           ThrowSystemError what \<Rightarrow> ThrowDeserializerError (''Could not load library from '' @ library_name @ '' with '' @ what)
         | _ \<Rightarrow> e)
       (ebind (register_dynamic_library D library_name) (\<lambda>shared_library.
        ebind (dynamically_load_stage D shared_library symbol_name stage_name) (\<lambda>next_stage.
        case next_stage of
          None \<Rightarrow> eraise (ThrowDeserializerError (''Could not load library from '' @ library_name @ '' with unknown error''))
        | Some st \<Rightarrow> eret (out_stages @ [st])))))))"

definition load_stages :: "'n yaml_api \<Rightarrow> dll_api \<Rightarrow> 'n \<Rightarrow> (deser_state, TaskStage list) exec" where
  "load_stages Y D stages_node =
     ebind (elift (y_as_vector Y stages_node)) (\<lambda>stages_vector.
     efold (load_stage Y D) stages_vector [])"

definition make_task_function_callback :: "dll_api \<Rightarrow> string \<Rightarrow> string \<Rightarrow> nat res" where
  "make_task_function_callback D shared_library symbol_name =
     rbind (verify_symbol_present D shared_library symbol_name ''TaskCb'') (\<lambda>(symbol_present, cb_symbols).
     if symbol_present \<and> cb_symbols \<noteq> [] then dll_function D shared_library symbol_name
     else Inl (ThrowDeserializerError (''Failed to load '' @ symbol_name @ '' from '' @ shared_library @
            ''. It could not be found in available '' @ '' symbols of '' @ cb_symbols)))"

text \<open>
  The imported plugin is copied into a new object of the class \<open>TaskCallbackPlugin\<close>, whatever class it
  had: only the base class is left.
\<close>

definition make_task_function_callback_plugin :: "dll_api \<Rightarrow> string \<Rightarrow> string \<Rightarrow> plugin option res" where
  "make_task_function_callback_plugin D shared_library symbol_name =
     rbind (verify_symbol_present D shared_library symbol_name ''TaskCb'') (\<lambda>(symbol_present, cb_symbols).
     if symbol_present \<and> cb_symbols \<noteq> []
     then rbind (dll_plugin D shared_library symbol_name) (\<lambda>callback_plugin. Inr (Some BasePlugin))
     else Inl (ThrowDeserializerError (''Failed to load '' @ symbol_name @ '' from '' @ shared_library @
            ''. It could not be found '' @ '' in available symbols of '' @ cb_symbols)))"

text \<open>What \<open>catch (std::runtime_error &)\<close> catches, and the message.\<close>

definition runtime_error_what :: "cpp_error \<Rightarrow> string option" where
  "runtime_error_what e = (case e of
      ThrowRuntimeError what \<Rightarrow> Some what | ThrowSystemError what \<Rightarrow> Some what | ThrowYamlException what \<Rightarrow> Some what
    | _ \<Rightarrow> None)"

definition callback_type_error :: string where
  "callback_type_error = ''Unspported callback type specified. Currently '' @
     ''only '' @ [CHR 0x22] @ ''FUNCTION'' @ [CHR 0x22] @ '' or '' @ [CHR 0x22] @ ''PLUGIN'' @ [CHR 0x22] @
     '' are accepted. '' @ ''Note these values are case insensitive.''"

definition make_task_callback ::
    "('z) env_scheme \<Rightarrow> 'n yaml_api \<Rightarrow> dll_api \<Rightarrow> string \<Rightarrow> TaskStage list \<Rightarrow> 'n \<Rightarrow> json \<Rightarrow> json \<Rightarrow> (deser_state, Task) exec" where
  "make_task_callback E Y D task_name stages callback_node json_config json_initial_inputs =
     ebind (elift (rbind (y_sub Y callback_node LIBRARY_NAME_KEY) (y_as_string Y))) (\<lambda>library_name.
     rethrow_as (\<lambda>e. case runtime_error_what e of
             None \<Rightarrow> e
           | Some what \<Rightarrow> ThrowDeserializerError (''Could not load library from '' @ library_name @ '' with '' @ what))
          (ebind (register_dynamic_library D library_name) (\<lambda>shared_library.
           ebind (elift (y_sub Y callback_node CALLBACK_TYPE_KEY)) (\<lambda>type_node.
           if y_defined Y type_node
           then ebind (elift (y_as_string Y type_node)) (\<lambda>type_str.
                let type = callback_type_from_string type_str
                in if type = FUNCTION
                   then ebind (elift (rbind (y_sub Y callback_node SYMBOL_NAME_KEY) (y_as_string Y))) (\<lambda>symbol_name.
                        ebind (elift (make_task_function_callback D shared_library symbol_name)) (\<lambda>task_callback.
                        ebind fresh_draw (\<lambda>n.
                        eret (Task_callback_config E n stages task_name (Some task_callback) json_config json_initial_inputs))))
                   else if type = PLUGIN
                   then ebind (elift (rbind (y_sub Y callback_node SYMBOL_NAME_KEY) (y_as_string Y))) (\<lambda>symbol_name.
                        ebind (elift (make_task_function_callback_plugin D shared_library symbol_name)) (\<lambda>task_callback_plugin.
                        if task_callback_plugin = None
                        then eraise (ThrowDeserializerError (''Unable to properly deserialize'' @ y_text Y callback_node))
                        else ebind fresh_draw (\<lambda>n.
                        eret (Task_plugin_config E n stages task_name task_callback_plugin json_config json_initial_inputs))))
                   else eraise (ThrowNonSupportedCallbackType callback_type_error))
           else ebind (elift (y_sub Y callback_node CALLBACK_KEY)) (\<lambda>m.
                eraise (ThrowDeserializerError (''If a callback is to be used in:'' @ endl @ y_text Y m @
                  '' it must contain a Callback Type.'')))))))"

section \<open>Tasks, vertices, graphs\<close>

text \<open>The document under an optional key; null when the key is missing.\<close>

definition optional_json :: "'n yaml_api \<Rightarrow> 'n \<Rightarrow> string \<Rightarrow> string \<Rightarrow> json res" where
  "optional_json Y node key what =
     rbind (y_sub Y node key) (\<lambda>m.
     if y_defined Y m
     then (case y_to_json Y m of
             None \<Rightarrow> Inl (ThrowDeserializerError (what @ y_text Y m))
           | Some j \<Rightarrow> Inr j)
     else Inr JNull)"

definition make_task :: "('z) env_scheme \<Rightarrow> 'n yaml_api \<Rightarrow> dll_api \<Rightarrow> 'n \<Rightarrow> (deser_state, Task) exec" where
  "make_task E Y D task_node =
     ebind (elift (optional_string Y task_node NAME_KEY)) (\<lambda>task_name.
     ebind (elift (y_sub Y task_node STAGES_KEY)) (\<lambda>stages_node.
     ebind (if y_defined Y stages_node then load_stages Y D stages_node
            else ebind (elift (y_sub Y task_node TASK_KEY)) (\<lambda>_. eret [])) (\<lambda>stages.
     ebind (elift (optional_json Y task_node CONFIGURATION_KEY ''Could not parse task configuration from '')) (\<lambda>json_config.
     ebind (elift (optional_json Y task_node INITIAL_INPUTS_KEY ''Could not parse task initial inputs from '')) (\<lambda>json_initial_inputs.
     ebind (elift (y_sub Y task_node CALLBACK_KEY)) (\<lambda>callback_node.
     if y_defined Y callback_node
     then make_task_callback E Y D task_name stages callback_node json_config json_initial_inputs
     else ebind fresh_draw (\<lambda>n. eret (Task_label_config E n stages task_name json_config json_initial_inputs))))))))"

definition optional_task :: "('z) env_scheme \<Rightarrow> 'n yaml_api \<Rightarrow> dll_api \<Rightarrow> 'n \<Rightarrow> (deser_state, Task option) exec" where
  "optional_task E Y D task_node =
     (if y_defined Y task_node then ebind (make_task E Y D task_node) (\<lambda>t. eret (Some t)) else eret None)"

text \<open>The verdict of \<open>add_vertex\<close> is not looked at.\<close>

definition insert_vertex :: "('z) env_scheme \<Rightarrow> DAGVertex \<Rightarrow> DAG \<Rightarrow> (deser_state, DAG) exec" where
  "insert_vertex E next_vertex dag s =
     (let ((_, dag', _), h) = add_vertex E dag next_vertex (heap s) in (Inr dag', s\<lparr>heap := h\<rparr>))"

definition make_vertex :: "('z) env_scheme \<Rightarrow> 'n yaml_api \<Rightarrow> dll_api \<Rightarrow> 'n \<Rightarrow> DAG \<Rightarrow> (deser_state, DAG) exec" where
  "make_vertex E Y D vertex_node dag =
     ebind (elift (optional_string Y vertex_node NAME_KEY)) (\<lambda>name.
     ebind (elift (rbind (y_sub Y vertex_node UUID_KEY) (y_as_string Y))) (\<lambda>uuid_str.
     ebind (elift (UUID_from_string E uuid_str)) (\<lambda>uuid.
     ebind (elift (y_sub Y vertex_node TASK_KEY)) (\<lambda>task_node.
     ebind (optional_task E Y D task_node) (\<lambda>task.
       insert_vertex E (DAGVertex_label_task_uuid name task uuid) dag)))))"

definition make_vertices :: "('z) env_scheme \<Rightarrow> 'n yaml_api \<Rightarrow> dll_api \<Rightarrow> 'n \<Rightarrow> DAG \<Rightarrow> (deser_state, DAG) exec" where
  "make_vertices E Y D vertices_node dag =
     (if y_is_sequence Y vertices_node
      then ebind (elift (y_as_vector Y vertices_node)) (\<lambda>vertices. efold (make_vertex E Y D) vertices dag)
      else throw_wrong_type VERTEX ([CHR 0x22] @ ''Vertices'' @ [CHR 0x22] @ '' must be a YAML Sequence.''))"

text \<open>A graph with the title of the document, or with an empty one.\<close>

definition titled_dag :: "'n yaml_api \<Rightarrow> 'n \<Rightarrow> json \<Rightarrow> (deser_state, DAG) exec" where
  "titled_dag Y dag_definition_node json_dag_configuration =
     ebind (elift (y_sub Y dag_definition_node TITLE_KEY)) (\<lambda>title_node.
     if y_defined Y title_node
     then ebind (elift (y_as_string Y title_node)) (\<lambda>title. eret (DAG_title_config title json_dag_configuration))
     else ebind (elift full_sample_output) (\<lambda>_. eret (DAG_config json_dag_configuration)))"

text \<open>The value of the root element. Nothing of it under the key \<open>Connections\<close> is read.\<close>

definition make_defined_dag :: "('z) env_scheme \<Rightarrow> 'n yaml_api \<Rightarrow> dll_api \<Rightarrow> 'n \<Rightarrow> (deser_state, DAG) exec" where
  "make_defined_dag E Y D dag_definition_node =
     ebind (elift (optional_json Y dag_definition_node CONFIGURATION_KEY ''Could not parse dag configuration from '')) (\<lambda>json_dag_configuration.
     ebind (titled_dag Y dag_definition_node json_dag_configuration) (\<lambda>ret.
     ebind (elift (y_sub Y dag_definition_node VERTICES_KEY)) (\<lambda>vertex_node.
     if y_defined Y vertex_node then make_vertices E Y D vertex_node ret
     else ebind (elift full_sample_output) (\<lambda>_. eret ret))))"

definition make_dag_body :: "('z) env_scheme \<Rightarrow> 'n yaml_api \<Rightarrow> dll_api \<Rightarrow> 'n \<Rightarrow> (deser_state, DAG) exec" where
  "make_dag_body E Y D dag_node =
     ebind (elift (y_sub Y dag_node DAG_KEY)) (\<lambda>dag_definition_node.
     if y_defined Y dag_definition_node
     then if \<not> y_is_map Y dag_definition_node
          then throw_wrong_type UpToDAG ([CHR 0x22] @ ''DAG'' @ [CHR 0x22] @ '' the root elment must be a '' @ ''YAML map.'')
          else make_defined_dag E Y D dag_definition_node
     else ebind (elift (sample_dag_output UpToDAG)) (\<lambda>sample.
          eraise (ThrowDeserializerError (''Root element of '' @ [CHR 0x22] @ ''DAG'' @ [CHR 0x22] @ '' not found in'' @ endl @
            y_text Y dag_node @ endl @ ''For example, as in'' @ endl @ sample))))"

text \<open>An exception destroys the graph built so far.\<close>

definition make_dag :: "('z) env_scheme \<Rightarrow> 'n yaml_api \<Rightarrow> dll_api \<Rightarrow> 'n \<Rightarrow> (deser_state, DAG) exec" where
  "make_dag E Y D dag_node s =
     (case make_dag_body E Y D dag_node s of
        (Inr d, s') \<Rightarrow> (Inr d, s')
      | (Inl e, s') \<Rightarrow> (Inl e, s'\<lparr>heap := free_from (brk (heap s)) (heap s')\<rparr>))"

text \<open>\<open>YAML::convert<std::unique_ptr<DAG>>::decode\<close>\<close>

definition decode_dag :: "('z) env_scheme \<Rightarrow> 'n yaml_api \<Rightarrow> dll_api \<Rightarrow> 'n \<Rightarrow> (deser_state, bool \<times> DAG) exec" where
  "decode_dag E Y D node = ebind (make_dag E Y D node) (\<lambda>rhs. eret (True, rhs))"

section \<open>What the deserializer keeps\<close>

text \<open>Computations that allocate no vertex and change none; they may draw identifiers.\<close>

definition keeps_heap :: "(deser_state, 'a) exec \<Rightarrow> bool" where
  "keeps_heap m \<longleftrightarrow> (\<forall>s. same_cells (heap s) (heap (snd (m s))))"

named_theorems keeps_heap_intros \<open>computations that keep the heap\<close>

lemma keeps_heapD: "keeps_heap m \<Longrightarrow> m s = (r, t) \<Longrightarrow> same_cells (heap s) (heap t)"
  unfolding keeps_heap_def by (metis snd_conv)

lemma keeps_heapI: "(\<And>s r t. m s = (r, t) \<Longrightarrow> same_cells (heap s) (heap t)) \<Longrightarrow> keeps_heap m"
  unfolding keeps_heap_def by (metis surjective_pairing)

lemma keeps_heap_ebind [keeps_heap_intros]:
  assumes "keeps_heap m" "\<And>a. keeps_heap (k a)"
  shows "keeps_heap (ebind m k)"
proof (rule keeps_heapI)
  fix s r t
  assume run: "ebind m k s = (r, t)"
  obtain x u where m: "m s = (x, u)" by (cases "m s")
  note keeps_heapD [OF assms(1) m]
  moreover have "same_cells (heap u) (heap t)"
    using run m keeps_heapD [OF assms(2)] by (cases x) (auto simp: ebind_def)
  ultimately show "same_cells (heap s) (heap t)" by (rule same_cells_trans)
qed

lemma keeps_heap_rethrow_as [keeps_heap_intros]: "keeps_heap m \<Longrightarrow> keeps_heap (rethrow_as f m)"
  by (rule keeps_heapI) (auto simp: rethrow_as_def dest: keeps_heapD split: prod.splits sum.splits)

lemma keeps_heap_basic [keeps_heap_intros]:
  "keeps_heap (eret a)" "keeps_heap (eraise e)" "keeps_heap (elift r)" "keeps_heap fresh_draw"
  "keeps_heap (register_dynamic_library D l)"
  by (auto simp: keeps_heap_def same_cells_def fresh_draw_def register_dynamic_library_def
      split: sum.splits option.splits)

lemma keeps_heap_cases [keeps_heap_intros]:
  "keeps_heap m \<Longrightarrow> keeps_heap m' \<Longrightarrow> keeps_heap (if b then m else m')"
  "keeps_heap m \<Longrightarrow> (\<And>x. keeps_heap (k x)) \<Longrightarrow> keeps_heap (case z of None \<Rightarrow> m | Some x \<Rightarrow> k x)"
  "(\<And>x y. keeps_heap (q x y)) \<Longrightarrow> keeps_heap (case p of (x, y) \<Rightarrow> q x y)"
  by (simp_all split: option.split prod.split)

lemma keeps_heap_efold [keeps_heap_intros]:
  "(\<And>x b. keeps_heap (f x b)) \<Longrightarrow> keeps_heap (efold f xs b)"
  by (induction xs arbitrary: b) (simp_all add: keeps_heap_intros)

lemma keeps_heap_make_task [keeps_heap_intros]: "keeps_heap (make_task E Y D n)"
  unfolding make_task_def load_stages_def load_stage_def dynamically_load_stage_def make_task_callback_def Let_def
  by (intro keeps_heap_intros)

section \<open>Libraries\<close>

lemma RegistryItem_hash_eq: "RegistryItem_eq a b \<Longrightarrow> RegistryItem_hash H a = RegistryItem_hash H b"
  by (simp add: RegistryItem_eq_def RegistryItem_hash_def)

lemma RegistryItem_new_name: "RegistryItem_new D l = Inr item \<Longrightarrow> RegistryItem_get_name item = l"
  by (auto simp: RegistryItem_new_def RegistryItem_get_name_def split: option.splits)

lemma register_opens:
  assumes "dll_open D l = None"
  shows "\<exists>s'. register_dynamic_library D l s = (Inr l, s') \<and> heap s' = heap s"
proof (cases "List.find (RegistryItem_eq l) (registry s)")
  case (Some x)
  then have "x = l" by (auto simp: find_Some_iff RegistryItem_eq_def)
  with Some assms show ?thesis by (simp add: register_dynamic_library_def RegistryItem_new_def)
qed (simp add: assms register_dynamic_library_def RegistryItem_new_def)

lemma symbol_present:
  assumes "dll_symbols D l sec = Inr symbols" "symbol \<in> set symbols"
  shows "\<exists>t. verify_symbol_present D l symbol sec = Inr (True, t) \<and> t \<noteq> []"
proof -
  have "List.find (\<lambda>e. e = symbol) symbols \<noteq> None" using assms(2) by (auto simp: find_None_iff)
  moreover have "symbols_text symbols \<noteq> []" using assms(2) by (auto simp: symbols_text_def)
  ultimately show ?thesis using assms(1) by (simp add: verify_symbol_present_def)
qed

section \<open>The graph a document describes\<close>

text \<open>What a vertex node says of its vertex, and what the document's list of vertices means.\<close>

definition vertex_key :: "('z) libuuid_scheme \<Rightarrow> 'n yaml_api \<Rightarrow> 'n \<Rightarrow> (string \<times> uuid_t) res" where
  "vertex_key E Y vertex_node =
     rbind (optional_string Y vertex_node NAME_KEY) (\<lambda>name.
     rbind (rbind (y_sub Y vertex_node UUID_KEY) (y_as_string Y)) (\<lambda>uuid_str.
     rbind (UUID_from_string E uuid_str) (\<lambda>uuid. Inr (name, uuid))))"

text \<open>The first vertex with an identifier stays, later ones with the same identifier are dropped.\<close>

definition add_key :: "string \<times> uuid_t \<Rightarrow> (string \<times> uuid_t) list \<Rightarrow> (string \<times> uuid_t) list" where
  "add_key k ks = (if snd k \<in> snd ` set ks then ks else ks @ [k])"

definition summary :: "DAG \<Rightarrow> store \<Rightarrow> (string \<times> uuid_t) list" where
  "summary d s = map (\<lambda>a. (v_label (the (vert s a)), uuid_of s a)) (graph_of d)"

text \<open>Every vertex is alive and has no edge in either direction.\<close>

definition unconnected :: "DAG \<Rightarrow> store \<Rightarrow> bool" where
  "unconnected d s \<longleftrightarrow> wf_store s \<and>
     (\<forall>a \<in> set (graph_of d). \<exists>v. vert s a = Some v \<and> v_edges v = [] \<and> v_in v = 0)"

lemma unconnected_arcs: "unconnected d s \<Longrightarrow> arcs s (graph_of d) = {}"
  by (force simp: unconnected_def arcs_def succs_def)

lemma unconnected_same_cells: "same_cells s t \<Longrightarrow> unconnected d s \<Longrightarrow> unconnected d t"
  by (simp add: unconnected_def same_cells_facts same_cells_vert)

lemma summary_same_cells: "same_cells s t \<Longrightarrow> summary d t = summary d s"
  by (simp add: summary_def same_cells_facts same_cells_vert)

lemma snd_summary: "snd ` set (summary d s) = uuid_of s ` set (graph_of d)"
  by (force simp: summary_def)

lemma distinct_add_key: "distinct (map snd ks) \<Longrightarrow> distinct (map snd (add_key k ks))"
  by (simp add: add_key_def)

lemma distinct_fold_add_key: "distinct (map snd ks) \<Longrightarrow> distinct (map snd (fold add_key keys ks))"
  by (induction keys arbitrary: ks) (simp_all add: distinct_add_key)

lemma set_fold_add_key: "snd ` set (fold add_key keys ks) = snd ` set keys \<union> snd ` set ks"
  by (induction keys arbitrary: ks) (auto simp: add_key_def)

lemma fold_add_key_distinct: "distinct (map snd (ks @ keys)) \<Longrightarrow> fold add_key keys ks = ks @ keys"
proof (induction keys arbitrary: ks)
  case (Cons k keys)
  then have "add_key k ks = ks @ [k]" by (auto simp: add_key_def)
  with Cons.IH [of "ks @ [k]"] Cons.prems show ?case by auto
qed simp

lemma add_vertex_unconnected:
  assumes L: "libuuid_ok L" and un: "unconnected d s" and v: "v_edges v = []" "v_in v = 0"
    and add: "add_vertex L d v s = ((b, d', left), t)"
  shows "unconnected d' t \<and> summary d' t = add_key (v_label v, v_uuid v) (summary d s) \<and>
    title_of d' = title_of d \<and> config_of d' = config_of d"
proof -
  have alive: "\<forall>a \<in> set (graph_of d). vert s a \<noteq> None" using un by (force simp: unconnected_def)
  show ?thesis
  proof (cases "v_uuid v \<in> uuid_of s ` set (graph_of d)")
    case True
    with add_vertex_old [OF L alive True] add un show ?thesis by (simp add: add_key_def snd_summary)
  next
    case False
    have d': "d' = d\<lparr>graph_of := graph_of d @ [brk s]\<rparr>" "t = alloc v s"
      using add_vertex_new [OF L alive False] add by (auto simp: alloc_def)
    have "a \<noteq> brk s" if "a \<in> set (graph_of d)" for a
      using that alive un by (auto simp: unconnected_def wf_store_def)
    then have old: "vert t a = vert s a" if "a \<in> set (graph_of d)" for a
      using that by (auto simp: d' vert_alloc)
    have "unconnected d' t"
      using un v old by (auto simp: d' unconnected_def vert_alloc wf_store_def less_Suc_eq)
    moreover have "summary d' t = summary d s @ [(v_label v, v_uuid v)]"
      using old by (simp add: d' summary_def uuid_of_def vert_alloc)
    ultimately show ?thesis using False by (simp add: add_key_def snd_summary d')
  qed
qed

lemma make_vertex_adds:
  assumes L: "libuuid_ok E" and un: "unconnected d (heap s)" and run: "make_vertex E Y D n d s = (Inr d', t)"
  shows "\<exists>k. vertex_key E Y n = Inr k \<and> unconnected d' (heap t) \<and>
    summary d' (heap t) = add_key k (summary d (heap s)) \<and> title_of d' = title_of d \<and> config_of d' = config_of d"
proof -
  have "keeps_heap (optional_task E Y D m)" for m
    unfolding optional_task_def by (intro keeps_heap_intros)
  note keep = keeps_heapD [OF this]
  obtain name us u m task s1 where k: "optional_string Y n NAME_KEY = Inr name"
      "rbind (y_sub Y n UUID_KEY) (y_as_string Y) = Inr us" "UUID_from_string E us = Inr u"
    and task: "optional_task E Y D m s = (Inr task, s1)"
    and add: "insert_vertex E (DAGVertex_label_task_uuid name task u) d s1 = (Inr d', t)"
    using run unfolding make_vertex_def ebind_eq_Inr elift_def prod.inject by blast
  obtain b left h where "add_vertex E d (DAGVertex_label_task_uuid name task u) (heap s1) = ((b, d', left), h)" "heap t = h"
    using add by (auto simp: insert_vertex_def split: prod.splits)
  moreover note add_vertex_unconnected [OF L unconnected_same_cells [OF keep [OF task] un] _ _ this(1)]
  ultimately show ?thesis
    using k keep [OF task] by (simp add: vertex_key_def DAGVertex_label_task_uuid_def summary_same_cells)
qed

text \<open>The task of a vertex node, if it has one, can be made in every state.\<close>

definition task_loads :: "('z) env_scheme \<Rightarrow> 'n yaml_api \<Rightarrow> dll_api \<Rightarrow> 'n \<Rightarrow> bool" where
  "task_loads E Y D vertex_node \<longleftrightarrow>
     (\<exists>m. y_sub Y vertex_node TASK_KEY = Inr m \<and> (\<forall>s. \<exists>t s'. optional_task E Y D m s = (Inr t, s')))"

lemma task_loads_missing: "y_sub Y n TASK_KEY = Inr m \<Longrightarrow> \<not> y_defined Y m \<Longrightarrow> task_loads E Y D n"
  by (simp add: task_loads_def optional_task_def)

text \<open>A task without stages and callback needs no library.\<close>

lemma task_loads_plain:
  assumes "y_sub Y n TASK_KEY = Inr m" "y_defined Y m" "optional_string Y m NAME_KEY = Inr name"
    and "y_sub Y m STAGES_KEY = Inr a" "\<not> y_defined Y a" "y_sub Y m TASK_KEY = Inr b"
    and "optional_json Y m CONFIGURATION_KEY ''Could not parse task configuration from '' = Inr j"
    and "optional_json Y m INITIAL_INPUTS_KEY ''Could not parse task initial inputs from '' = Inr i"
    and "y_sub Y m CALLBACK_KEY = Inr c" "\<not> y_defined Y c"
  shows "task_loads E Y D n"
  using assms by (simp add: task_loads_def optional_task_def make_task_def ebind_def fresh_draw_def)

lemma make_vertex_loads:
  assumes "vertex_key E Y n = Inr k" "task_loads E Y D n"
  shows "\<exists>d' t. make_vertex E Y D n d s = (Inr d', t)"
proof -
  obtain name us u where key: "optional_string Y n NAME_KEY = Inr name"
      "rbind (y_sub Y n UUID_KEY) (y_as_string Y) = Inr us" "UUID_from_string E us = Inr u"
    using assms(1) unfolding vertex_key_def rbind_def [of "optional_string Y n NAME_KEY"]
      rbind_def [of "rbind _ _"] rbind_def [of "UUID_from_string _ _"]
    by (auto split: sum.splits)
  obtain m task s' where m: "y_sub Y n TASK_KEY = Inr m" "optional_task E Y D m s = (Inr task, s')"
    using assms(2) unfolding task_loads_def by blast
  with key show ?thesis by (simp add: make_vertex_def insert_vertex_def ebind_def split: prod.split)
qed

lemma efold_make_vertex:
  assumes L: "libuuid_ok E"
  shows "unconnected d (heap s) \<Longrightarrow> efold (make_vertex E Y D) ns d s = (Inr d', t) \<Longrightarrow>
    \<exists>ks. rmap (vertex_key E Y) ns = Inr ks \<and> unconnected d' (heap t) \<and>
      summary d' (heap t) = fold add_key ks (summary d (heap s)) \<and> title_of d' = title_of d \<and> config_of d' = config_of d"
proof (induction ns arbitrary: d s)
  case (Cons n ns)
  obtain d1 s1 where one: "make_vertex E Y D n d s = (Inr d1, s1)" and rest: "efold (make_vertex E Y D) ns d1 s1 = (Inr d', t)"
    using Cons.prems(2) by (auto simp: ebind_eq_Inr)
  from make_vertex_adds [OF L Cons.prems(1) one] obtain k where "vertex_key E Y n = Inr k" "unconnected d1 (heap s1)"
      "summary d1 (heap s1) = add_key k (summary d (heap s))" "title_of d1 = title_of d" "config_of d1 = config_of d"
    by blast
  with Cons.IH [OF this(2) rest] show ?case by auto
qed auto

lemma efold_make_vertex_loads:
  "rmap (vertex_key E Y) ns = Inr ks \<Longrightarrow> \<forall>n \<in> set ns. task_loads E Y D n \<Longrightarrow>
   \<exists>d' t. efold (make_vertex E Y D) ns d s = (Inr d', t)"
proof (induction ns arbitrary: d s ks)
  case (Cons n ns)
  then obtain k ks' where k: "vertex_key E Y n = Inr k" and ks': "rmap (vertex_key E Y) ns = Inr ks'"
    by (auto simp: rbind_def split: sum.splits)
  obtain d1 s1 where "make_vertex E Y D n d s = (Inr d1, s1)"
    using make_vertex_loads [OF k] Cons.prems(2) by (metis list.set_intros(1))
  with Cons.IH [OF ks', of d1 s1] Cons.prems(2) show ?case by (auto simp: ebind_def)
qed simp

lemma make_vertices_adds:
  assumes "libuuid_ok E" "unconnected d (heap s)" "make_vertices E Y D n d s = (Inr d', t)"
  shows "\<exists>ns ks. y_as_vector Y n = Inr ns \<and> rmap (vertex_key E Y) ns = Inr ks \<and> unconnected d' (heap t) \<and>
    summary d' (heap t) = fold add_key ks (summary d (heap s)) \<and> title_of d' = title_of d \<and> config_of d' = config_of d"
proof -
  obtain ns where "y_as_vector Y n = Inr ns" "efold (make_vertex E Y D) ns d s = (Inr d', t)"
    using assms(3) by (auto simp: make_vertices_def throw_wrong_type_def ebind_eq_Inr split: if_splits)
  with efold_make_vertex [OF assms(1,2) this(2)] show ?thesis by auto
qed

lemma unconnected_empty: "wf_store s \<Longrightarrow> graph_of d = [] \<Longrightarrow> unconnected d s"
  by (simp add: unconnected_def)

lemma titled_dag_empty:
  "titled_dag Y n j s = (Inr d, t) \<Longrightarrow> graph_of d = [] \<and> t = s"
  by (auto simp: titled_dag_def ebind_eq_Inr DAG_title_config_def DAG_config_def split: if_splits)

text \<open>Whatever is in the document, a graph that is returned has its vertices in order and no edge.\<close>

lemma make_defined_dag_summary:
  assumes L: "libuuid_ok E" and st: "wf_store (heap s)" and run: "make_defined_dag E Y D n s = (Inr d, t)"
  shows "unconnected d (heap t) \<and> (\<exists>ks. summary d (heap t) = fold add_key ks [])"
proof -
  obtain j ret s2 v where ret: "titled_dag Y n j s = (Inr ret, s2)"
      and rest: "(if y_defined Y v then make_vertices E Y D v ret
        else ebind (elift full_sample_output) (\<lambda>_. eret ret)) s2 = (Inr d, t)"
    using run unfolding make_defined_dag_def ebind_eq_Inr elift_def prod.inject by blast
  note e = titled_dag_empty [OF ret]
  then have un: "unconnected ret (heap s2)" using unconnected_empty [OF st] by simp
  show ?thesis
  proof (cases "y_defined Y v")
    case True
    with rest have "make_vertices E Y D v ret s2 = (Inr d, t)" by simp
    from make_vertices_adds [OF L un this] e show ?thesis by (auto simp: summary_def)
  next
    case False
    with rest have "d = ret" "t = s2" by (auto simp: ebind_eq_Inr)
    then show ?thesis using un e by (auto simp: summary_def intro: exI [of _ "[]"])
  qed
qed

lemma make_dag_summary:
  assumes "libuuid_ok E" "wf_store (heap s)" "make_dag E Y D n s = (Inr d, t)"
  shows "unconnected d (heap t) \<and> (\<exists>ks. summary d (heap t) = fold add_key ks [])"
proof -
  have "make_dag_body E Y D n s = (Inr d, t)"
    using assms(3) by (auto simp: make_dag_def split: prod.splits sum.splits)
  then obtain m where "make_defined_dag E Y D m s = (Inr d, t)"
    by (auto simp: make_dag_body_def ebind_eq_Inr throw_wrong_type_def split: if_splits)
  from make_defined_dag_summary [OF assms(1,2) this] show ?thesis .
qed

text \<open>A document is accepted when its title, names and identifiers can be read and its tasks can be made.\<close>

lemma make_dag_accepts:
  assumes L: "libuuid_ok E" and st: "wf_store (heap s)"
    and root: "y_sub Y n DAG_KEY = Inr m" "y_defined Y m" "y_is_map Y m"
    and config: "optional_json Y m CONFIGURATION_KEY ''Could not parse dag configuration from '' = Inr j"
    and title: "y_sub Y m TITLE_KEY = Inr tn" "y_defined Y tn" "y_as_string Y tn = Inr title"
    and vertices: "y_sub Y m VERTICES_KEY = Inr v" "y_defined Y v" "y_is_sequence Y v" "y_as_vector Y v = Inr ns"
    and keys: "rmap (vertex_key E Y) ns = Inr ks"
    and tasks: "\<forall>n \<in> set ns. task_loads E Y D n"
  shows "\<exists>d t. make_dag E Y D n s = (Inr d, t) \<and> unconnected d (heap t) \<and>
    summary d (heap t) = fold add_key ks [] \<and> title_of d = title \<and> config_of d = Some j"
proof -
  let ?d = "DAG_title_config title j"
  obtain d t where all: "efold (make_vertex E Y D) ns ?d s = (Inr d, t)"
    using efold_make_vertex_loads [OF keys tasks] by blast
  have "make_dag_body E Y D n s = (Inr d, t)"
    using all root config title vertices
    by (simp add: make_dag_body_def make_defined_dag_def titled_dag_def make_vertices_def ebind_def)
  then have "make_dag E Y D n s = (Inr d, t)" by (simp add: make_dag_def)
  moreover have "unconnected ?d (heap s)" using unconnected_empty [OF st] by (simp add: DAG_title_config_def)
  note efold_make_vertex [OF L this all]
  ultimately show ?thesis using keys by (auto simp: summary_def DAG_title_config_def)
qed

end
