(* ===== verification/Yaml_Claims.thy ===== *)
theory Yaml_Claims
  imports Dag_Yaml
begin

text \<open>
  The properties of the deserializer (theory \<open>Dag_Yaml\<close>), with an instance of its parameters: a small
  type of YAML nodes and a linker that knows one library. \<open>yaml_sub\<close> follows yaml-cpp: a missing key of a
  map gives an undefined node, a subscript of a scalar throws.
\<close>

section \<open>An instance of yaml-cpp and of the linker\<close>

datatype ynode = YScalar string | YMap "(string \<times> ynode) list" | YSeq "ynode list" | YUndefined

definition yaml_sub :: "ynode \<Rightarrow> string \<Rightarrow> ynode res" where
  "yaml_sub n k = (case n of
      YMap kvs \<Rightarrow> Inr (case map_of kvs k of Some v \<Rightarrow> v | None \<Rightarrow> YUndefined)
    | YSeq _ \<Rightarrow> Inr YUndefined
    | YScalar _ \<Rightarrow> Inl (ThrowYamlException ''operator[] call on a scalar'')
    | YUndefined \<Rightarrow> Inl (ThrowYamlException ''invalid node''))"

definition sample_yaml :: "ynode yaml_api" where
  "sample_yaml = \<lparr>y_sub = yaml_sub,
     y_defined = (\<lambda>n. n \<noteq> YUndefined),
     y_is_map = (\<lambda>n. case n of YMap _ \<Rightarrow> True | _ \<Rightarrow> False),
     y_is_sequence = (\<lambda>n. case n of YSeq _ \<Rightarrow> True | _ \<Rightarrow> False),
     y_as_string = (\<lambda>n. case n of YScalar s \<Rightarrow> Inr s | _ \<Rightarrow> Inl (ThrowYamlException ''bad conversion'')),
     y_as_vector = (\<lambda>n. case n of YSeq ns \<Rightarrow> Inr ns | _ \<Rightarrow> Inl (ThrowYamlException ''bad conversion'')),
     y_text = (\<lambda>_. ''...''),
     y_to_json = (\<lambda>n. case n of YScalar s \<Rightarrow> Some (JString s) | _ \<Rightarrow> None)\<rparr>"

definition sample_dll :: dll_api where
  "sample_dll = \<lparr>dll_open = (\<lambda>l. if l = ''libetl'' then None else Some ''no such file''),
     dll_symbols = (\<lambda>l sec. if sec = ''TaskCb'' then Inr [''done_fn'', ''done_plugin''] else Inr [''make_stage'']),
     dll_function = (\<lambda>l sy. Inr 1), dll_plugin = (\<lambda>l sy. Inr 2), dll_stage = (\<lambda>l sy n name. Inr None)\<rparr>"

definition empty_deser :: deser_state where
  "empty_deser = \<lparr>registry = [], heap = \<lparr>cells = (\<lambda>_. None), brk = 0, draws = 0\<rparr>\<rparr>"

text \<open>
  A document with three vertices, the second with a task, the last with the identifier of the first, and a
  connection.
\<close>

definition sample_vertex_node :: "string \<Rightarrow> uuid_t \<Rightarrow> (string \<times> ynode) list \<Rightarrow> ynode" where
  "sample_vertex_node name u rest =
     YMap ([(NAME_KEY, YScalar name), (UUID_KEY, YScalar (as_string (sample_env False) u))] @ rest)"

definition sample_task_node :: ynode where
  "sample_task_node = YMap [(NAME_KEY, YScalar ''load'')]"

definition sample_vertex_nodes :: "ynode list" where
  "sample_vertex_nodes = [sample_vertex_node ''extract'' 1 [],
     sample_vertex_node ''load'' 2 [(TASK_KEY, sample_task_node)], sample_vertex_node ''again'' 1 []]"

definition sample_root :: ynode where
  "sample_root = YMap [(TITLE_KEY, YScalar ''etl''), (VERTICES_KEY, YSeq sample_vertex_nodes),
     (''Connections'', YSeq [YMap [(''From'', YScalar (as_string (sample_env False) 1)),
        (''To'', YScalar (as_string (sample_env False) 2))]])]"

definition sample_document :: ynode where
  "sample_document = YMap [(DAG_KEY, sample_root)]"

definition sample_stage_bad :: ynode where
  "sample_stage_bad = YMap [(LIBRARY_NAME_KEY, YScalar ''libetl''), (SYMBOL_NAME_KEY, YScalar ''make_stage'')]"

definition sample_stage_good :: ynode where
  "sample_stage_good = YMap [(NAME_KEY, YScalar ''s''), (LIBRARY_NAME_KEY, YScalar ''libnone''), (SYMBOL_NAME_KEY, YScalar ''make_stage'')]"

definition sample_callback :: ynode where
  "sample_callback = YMap [(LIBRARY_NAME_KEY, YScalar ''libetl''), (SYMBOL_NAME_KEY, YScalar ''done_plugin''),
     (CALLBACK_TYPE_KEY, YScalar ''Plugin'')]"

lemmas key_defs = DAG_KEY_def VERTICES_KEY_def TASK_KEY_def STAGES_KEY_def CONFIGURATION_KEY_def INITIAL_INPUTS_KEY_def
  TITLE_KEY_def NAME_KEY_def UUID_KEY_def CALLBACK_KEY_def LIBRARY_NAME_KEY_def SYMBOL_NAME_KEY_def CALLBACK_TYPE_KEY_def

lemma sample_vertex_key: "u \<noteq> 0 \<Longrightarrow>
  vertex_key (sample_env False) sample_yaml (sample_vertex_node name u rest) = Inr (name, u)"
  by (simp add: vertex_key_def optional_string_def sample_vertex_node_def sample_yaml_def yaml_sub_def key_defs
      UUID_from_string_as_string env_ok_libuuid [OF sample_env_ok])

lemma sample_keys:
  "rmap (vertex_key (sample_env False) sample_yaml) sample_vertex_nodes = Inr [(''extract'', 1), (''load'', 2), (''again'', 1)]"
  by (simp add: sample_vertex_nodes_def sample_vertex_key)

lemma sample_tasks: "\<forall>n \<in> set sample_vertex_nodes. task_loads E sample_yaml D n"
proof -
  have missing: "task_loads E sample_yaml D (sample_vertex_node name u [])" for name u
    by (rule task_loads_missing [of _ _ YUndefined]) (simp_all add: sample_yaml_def sample_vertex_node_def yaml_sub_def key_defs)
  have "task_loads E sample_yaml D (sample_vertex_node name u [(TASK_KEY, sample_task_node)])" for name u
    by (rule task_loads_plain [of _ _ sample_task_node "''load''" YUndefined YUndefined JNull JNull YUndefined])
      (simp_all add: sample_yaml_def sample_vertex_node_def sample_task_node_def yaml_sub_def optional_string_def optional_json_def key_defs)
  with missing show ?thesis by (simp add: sample_vertex_nodes_def)
qed

lemma sample_document_reads:
  "y_sub sample_yaml sample_document DAG_KEY = Inr sample_root" "y_defined sample_yaml sample_root" "y_is_map sample_yaml sample_root"
  "optional_json sample_yaml sample_root CONFIGURATION_KEY ''Could not parse dag configuration from '' = Inr JNull"
  "y_sub sample_yaml sample_root TITLE_KEY = Inr (YScalar ''etl'')" "y_defined sample_yaml (YScalar ''etl'')"
  "y_as_string sample_yaml (YScalar ''etl'') = Inr ''etl''"
  "y_sub sample_yaml sample_root VERTICES_KEY = Inr (YSeq sample_vertex_nodes)" "y_defined sample_yaml (YSeq sample_vertex_nodes)"
  "y_is_sequence sample_yaml (YSeq sample_vertex_nodes)" "y_as_vector sample_yaml (YSeq sample_vertex_nodes) = Inr sample_vertex_nodes"
  by (simp_all add: sample_yaml_def sample_document_def sample_root_def yaml_sub_def key_defs optional_json_def)

lemma sample_stage_reads:
  "y_sub sample_yaml sample_stage_bad NAME_KEY = Inr YUndefined" "\<not> y_defined sample_yaml YUndefined"
  "y_sub sample_yaml sample_stage_good NAME_KEY = Inr (YScalar ''s'')" "y_defined sample_yaml (YScalar ''s'')"
  "y_as_string sample_yaml (YScalar ''s'') = Inr ''s''"
  "rbind (y_sub sample_yaml sample_stage_good LIBRARY_NAME_KEY) (y_as_string sample_yaml) = Inr ''libnone''"
  "y_sub sample_yaml sample_stage_good SYMBOL_NAME_KEY = Inr (YScalar ''make_stage'')"
  "y_defined sample_yaml (YScalar ''make_stage'')" "y_as_string sample_yaml (YScalar ''make_stage'') = Inr ''make_stage''"
  "dll_open sample_dll ''libnone'' = Some ''no such file''"
  by (simp_all add: sample_yaml_def sample_stage_bad_def sample_stage_good_def sample_dll_def yaml_sub_def key_defs)

lemma callback_type_plugin: "callback_type_from_string ''Plugin'' = PLUGIN"
  by code_simp

lemma wf_empty_deser: "wf_store (heap empty_deser)"
  by (simp add: empty_deser_def wf_store_def vert_def)

lemmas sample_document_facts = env_ok_libuuid [OF sample_env_ok] wf_empty_deser sample_document_reads sample_keys sample_tasks

lemma sample_document_accepted:
  "\<exists>d t. make_dag (sample_env False) sample_yaml sample_dll sample_document empty_deser = (Inr d, t) \<and>
     length (graph_of d) = 2"
proof -
  obtain d t where "make_dag (sample_env False) sample_yaml sample_dll sample_document empty_deser = (Inr d, t)"
      "summary d (heap t) = fold add_key [(''extract'', 1), (''load'', 2), (''again'', 1)] []"
    using make_dag_accepts [OF sample_document_facts, of sample_dll] by blast
  moreover from this(2) have "length (summary d (heap t)) = 2" by (simp add: add_key_def)
  moreover have "length (graph_of d) = length (summary d (heap t))" by (simp add: summary_def)
  ultimately show ?thesis by metis
qed

section \<open>Graphs from documents\<close>

text \<open>
  C17. A document is accepted as soon as its title, names and identifiers can be read and its tasks can be
  made (\<open>task_loads\<close>; by \<open>task_loads_plain\<close> a task without stages and callback always can). The graph has the title and the configuration of the document, and its vertices are the ones
  listed, in order, where of several vertices with one identifier only the first is kept, silently.
\<close>

theorem make_dag_builds_vertices:
  assumes "libuuid_ok E" "wf_store (heap s)"
    and "y_sub Y n DAG_KEY = Inr m" "y_defined Y m" "y_is_map Y m"
    and "optional_json Y m CONFIGURATION_KEY ''Could not parse dag configuration from '' = Inr j"
    and "y_sub Y m TITLE_KEY = Inr tn" "y_defined Y tn" "y_as_string Y tn = Inr title"
    and "y_sub Y m VERTICES_KEY = Inr v" "y_defined Y v" "y_is_sequence Y v" "y_as_vector Y v = Inr ns"
    and "rmap (vertex_key E Y) ns = Inr ks"
    and "\<forall>n \<in> set ns. task_loads E Y D n"
  shows "\<exists>d t. make_dag E Y D n s = (Inr d, t) \<and> summary d (heap t) = fold add_key ks [] \<and>
    title_of d = title \<and> config_of d = Some j"
  using make_dag_accepts [OF assms] by blast

theorem make_dag_builds_vertices_witness:
  "\<exists>d t. make_dag (sample_env False) sample_yaml sample_dll sample_document empty_deser = (Inr d, t) \<and>
     summary d (heap t) = [(''extract'', 1), (''load'', 2)] \<and> title_of d = ''etl''"
  using make_dag_builds_vertices [OF sample_document_facts, of sample_dll] by (auto simp: add_key_def)

text \<open>
  Whatever the document says, a graph that the deserializer returns has no edge at all, and no two
  vertices with one identifier: the documented section \<open>Connections\<close> is not read.
\<close>

theorem make_dag_ignores_connections:
  assumes "libuuid_ok E" "wf_store (heap s)" "make_dag E Y D n s = (Inr d, t)"
  shows "arcs (heap t) (graph_of d) = {} \<and> distinct (map (uuid_of (heap t)) (graph_of d))"
proof -
  from make_dag_summary [OF assms] obtain ks where un: "unconnected d (heap t)" and ks: "summary d (heap t) = fold add_key ks []"
    by blast
  have "map (uuid_of (heap t)) (graph_of d) = map snd (summary d (heap t))" by (simp add: summary_def)
  then show ?thesis using unconnected_arcs [OF un] distinct_fold_add_key [of "[]" ks] ks by simp
qed

theorem make_dag_ignores_connections_witness:
  "\<exists>d t. make_dag (sample_env False) sample_yaml sample_dll sample_document empty_deser = (Inr d, t) \<and>
     length (graph_of d) = 2 \<and> arcs (heap t) (graph_of d) = {}"
proof -
  obtain d t where run: "make_dag (sample_env False) sample_yaml sample_dll sample_document empty_deser = (Inr d, t)" "length (graph_of d) = 2"
    using sample_document_accepted by blast
  from make_dag_ignores_connections [OF sample_document_facts(1,2) this(1)] run show ?thesis by blast
qed

section \<open>Libraries and callbacks\<close>

text \<open>
  C32. A stage without a \<open>Name\<close>, documented as optional, is refused with the message that its
  \<open>LibraryName\<close> is missing. When the library cannot be loaded, a stage lets the \<open>runtime_error\<close> of the
  registry escape, while a callback turns the same error into an error of the deserializer.
\<close>

theorem stage_loading_errors:
  assumes "y_sub Y bad NAME_KEY = Inr u" "\<not> y_defined Y u"
    and "y_sub Y good NAME_KEY = Inr m" "y_defined Y m" "y_as_string Y m = Inr name"
    and "rbind (y_sub Y good LIBRARY_NAME_KEY) (y_as_string Y) = Inr lib"
    and "y_sub Y good SYMBOL_NAME_KEY = Inr k" "y_defined Y k" "y_as_string Y k = Inr symbol"
    and "dll_open D lib = Some what"
  shows "load_stage Y D bad out s = (Inl (required_key_error Y LIBRARY_NAME_KEY bad), s) \<and>
    (\<exists>msg. load_stage Y D good out s = (Inl (ThrowRuntimeError msg), s)) \<and>
    (\<exists>msg. make_task_callback E Y D name stages good j i s = (Inl (ThrowDeserializerError msg), s))"
  using assms
  by (simp add: load_stage_def make_task_callback_def optional_string_def register_dynamic_library_def RegistryItem_new_def
      rethrow_as_def ebind_def runtime_error_what_def)

theorem stage_loading_errors_witness:
  "load_stage sample_yaml sample_dll sample_stage_bad [] empty_deser =
     (Inl (required_key_error sample_yaml LIBRARY_NAME_KEY sample_stage_bad), empty_deser) \<and>
   (\<exists>msg. load_stage sample_yaml sample_dll sample_stage_good [] empty_deser = (Inl (ThrowRuntimeError msg), empty_deser))"
  using stage_loading_errors [OF sample_stage_reads, of "[]" empty_deser "sample_env False" "[]" JNull JNull] by blast

text \<open>
  C33. A task whose callback is a plugin of a library gets a plugin of the base class instead: the
  library's object is copied by value into \<open>TaskCallbackPlugin\<close>, so completing the task calls the base
  class whatever the library overrides.
\<close>

theorem plugin_callback_sliced:
  assumes "rbind (y_sub Y c LIBRARY_NAME_KEY) (y_as_string Y) = Inr lib" "dll_open D lib = None"
    and "y_sub Y c CALLBACK_TYPE_KEY = Inr ty" "y_defined Y ty" "y_as_string Y ty = Inr ts"
    and "callback_type_from_string ts = PLUGIN"
    and "rbind (y_sub Y c SYMBOL_NAME_KEY) (y_as_string Y) = Inr symbol"
    and "dll_symbols D lib ''TaskCb'' = Inr symbols" "symbol \<in> set symbols" "dll_plugin D lib symbol = Inr p"
  shows "\<exists>t s'. make_task_callback E Y D name stages c j i s = (Inr t, s') \<and>
    t_stages t = stages \<and> t_label t = name \<and> Task_complete b t = [PluginCompleted BasePlugin b]"
proof -
  obtain tx where "verify_symbol_present D lib symbol ''TaskCb'' = Inr (True, tx)" "tx \<noteq> []"
    using symbol_present [OF assms(8,9)] by blast
  then have "make_task_function_callback_plugin D lib symbol = Inr (Some BasePlugin)"
    using assms(10) by (simp add: make_task_function_callback_plugin_def)
  moreover obtain u where "register_dynamic_library D lib s = (Inr lib, u)"
    using register_opens [OF assms(2)] by blast
  ultimately show ?thesis
    using assms(1,3-7)
    by (simp add: make_task_callback_def rethrow_as_def ebind_def fresh_draw_def Task_plugin_config_def task_members_def
        Task_complete_def callback_is_set_def callback_plugin_is_set_def)
qed

theorem plugin_callback_sliced_witness:
  "\<exists>t s'. make_task_callback (sample_env False) sample_yaml sample_dll ''t'' [] sample_callback JNull JNull empty_deser = (Inr t, s') \<and>
     Task_complete True t = [PluginCompleted BasePlugin True]"
  using plugin_callback_sliced [of sample_yaml sample_callback "''libetl''" sample_dll "YScalar ''Plugin''" "''Plugin''" "''done_plugin''"
      "[''done_fn'', ''done_plugin'']" 2 "sample_env False" "''t''" "[]" JNull JNull empty_deser True]
  by (simp add: sample_yaml_def sample_callback_def sample_dll_def yaml_sub_def key_defs callback_type_plugin) blast

text \<open>
  The sample texts: every level but \<open>EMPTY\<close> has one, which ends its last line; for \<open>EMPTY\<close> the last
  character of an empty string is read.
\<close>

lemma sample_dag_output_cases:
  "case sample_dag_output u of
     Inl e \<Rightarrow> e = OutOfRange \<and> u = EMPTY
   | Inr t \<Rightarrow> u \<noteq> EMPTY \<and> t \<noteq> [] \<and> last t = CHR 0x0A"
proof -
  have "dag_str r \<noteq> []" "connections_str r \<noteq> []" for r
    by (simp_all add: dag_str_def connections_str_def ln_def Let_def)
  then show ?thesis by (cases u) (simp_all add: sample_dag_output_def Let_def endl_def)
qed

end
