(* ===== verification/Stop_Watch.thy ===== *)
theory Stop_Watch
  imports Logging
begin

text \<open>
  \<open>StopWatch\<close> (\<open>lib/stop_watch.cxx\<close>). The clock is an argument: each operation that reads it takes the
  time \<open>now\<close>, a 64-bit count of nanoseconds. A duration is the difference, which wraps. The two atomic
  flags are fields; every operation is one step. What is written to the log is left out.
\<close>

type_synonym nanoseconds = "64 word"

record StopWatch =
  sw_tag :: LogTag
  sw_memo :: string
  was_stopped :: bool
  was_started :: bool
  sw_start :: nanoseconds

definition stop_watch_start :: "nanoseconds \<Rightarrow> StopWatch \<Rightarrow> StopWatch" where
  "stop_watch_start now w =
     (if was_stopped w then w\<lparr>was_stopped := False, was_started := True, sw_start := now\<rparr> else w)"

text \<open>The constructor reads the clock for \<open>start_\<close> and once more if it starts the watch.\<close>

definition StopWatch_new :: "nanoseconds \<Rightarrow> nanoseconds \<Rightarrow> LogTag \<Rightarrow> string \<Rightarrow> bool \<Rightarrow> StopWatch" where
  "StopWatch_new now now' tag memo start_on_construction =
     (let w = \<lparr>sw_tag = tag, sw_memo = memo, was_stopped = True, was_started = False, sw_start = now\<rparr>
      in if start_on_construction then stop_watch_start now' w else w)"

text \<open>Copies and moves of any kind take over tag and memo and start afresh.\<close>

definition StopWatch_copy :: "nanoseconds \<Rightarrow> StopWatch \<Rightarrow> StopWatch" where
  "StopWatch_copy now other =
     stop_watch_start now \<lparr>sw_tag = sw_tag other, sw_memo = sw_memo other, was_stopped = True, was_started = False, sw_start = 0\<rparr>"

definition StopWatch_assign :: "nanoseconds \<Rightarrow> StopWatch \<Rightarrow> StopWatch \<Rightarrow> StopWatch" where
  "StopWatch_assign now this rhs =
     stop_watch_start now (this\<lparr>sw_tag := sw_tag rhs, sw_memo := sw_memo rhs, was_stopped := True, was_started := False\<rparr>)"

definition StopWatch_move :: "nanoseconds \<Rightarrow> StopWatch \<Rightarrow> StopWatch" where
  "StopWatch_move now other =
     stop_watch_start now \<lparr>sw_tag = sw_tag other, sw_memo = sw_memo other, was_stopped = True, was_started = False, sw_start = 0\<rparr>"

definition StopWatch_move_assign :: "nanoseconds \<Rightarrow> StopWatch \<Rightarrow> StopWatch \<Rightarrow> StopWatch" where
  "StopWatch_move_assign now this rhs =
     stop_watch_start now (this\<lparr>sw_tag := sw_tag rhs, sw_memo := sw_memo rhs, was_stopped := True, was_started := False\<rparr>)"

definition stop_watch_print :: "nanoseconds \<Rightarrow> StopWatch \<Rightarrow> nanoseconds" where
  "stop_watch_print stop w = stop - sw_start w"

text \<open>The two stores after the \<open>return\<close> of \<open>stop\<close> are never reached.\<close>

definition stop_watch_stop :: "nanoseconds \<Rightarrow> StopWatch \<Rightarrow> nanoseconds \<times> StopWatch" where
  "stop_watch_stop now w =
     (if was_started w then (stop_watch_print now w, w) else (stop_watch_print (sw_start w) w, w))"

definition stop_watch_mark :: "nanoseconds \<Rightarrow> StopWatch \<Rightarrow> nanoseconds" where
  "stop_watch_mark now w = (if was_started w then stop_watch_print now w else stop_watch_print (sw_start w) w)"

definition stop_watch_reset :: "nanoseconds \<Rightarrow> StopWatch \<Rightarrow> StopWatch" where
  "stop_watch_reset now w = w\<lparr>sw_start := now\<rparr>"

text \<open>The destructor: what is left of the watch.\<close>

definition StopWatch_destroy :: "StopWatch \<Rightarrow> StopWatch" where
  "StopWatch_destroy w = w\<lparr>was_stopped := True, was_started := False\<rparr>"

section \<open>Lemmas\<close>

text \<open>Exactly one of the flags is set, in every watch.\<close>

definition stop_watch_ok :: "StopWatch \<Rightarrow> bool" where
  "stop_watch_ok w \<longleftrightarrow> was_started w \<noteq> was_stopped w"

lemma stop_watch_ok_ops:
  "stop_watch_ok (StopWatch_new n n' t m b)" "stop_watch_ok (StopWatch_copy n v)" "stop_watch_ok (StopWatch_move n v)"
  "stop_watch_ok (StopWatch_assign n v w)" "stop_watch_ok (StopWatch_move_assign n v w)"
  "stop_watch_ok w \<Longrightarrow> stop_watch_ok (stop_watch_start n w)" "stop_watch_ok w \<Longrightarrow> stop_watch_ok (snd (stop_watch_stop n w))"
  "stop_watch_ok w \<Longrightarrow> stop_watch_ok (stop_watch_reset n w)" "stop_watch_ok (StopWatch_destroy w)"
  by (simp_all add: StopWatch_destroy_def stop_watch_ok_def StopWatch_new_def StopWatch_copy_def StopWatch_move_def StopWatch_assign_def
      StopWatch_move_assign_def stop_watch_start_def stop_watch_stop_def stop_watch_reset_def Let_def)

text \<open>The calls a client can make on a watch, at given times, and the duration each of them reports.\<close>

datatype watch_call = CallStart nanoseconds | CallStop nanoseconds | CallMark nanoseconds | CallReset nanoseconds

definition watch_step :: "watch_call \<Rightarrow> StopWatch \<Rightarrow> nanoseconds option \<times> StopWatch" where
  "watch_step c w = (case c of
      CallStart now \<Rightarrow> (None, stop_watch_start now w)
    | CallStop now \<Rightarrow> (let (d, w') = stop_watch_stop now w in (Some d, w'))
    | CallMark now \<Rightarrow> (Some (stop_watch_mark now w), w)
    | CallReset now \<Rightarrow> (None, stop_watch_reset now w))"

fun run_watch :: "watch_call list \<Rightarrow> StopWatch \<Rightarrow> nanoseconds option list \<times> StopWatch" where
  "run_watch [] w = ([], w)"
| "run_watch (c # cs) w = (let (d, w1) = watch_step c w; (ds, w2) = run_watch cs w1 in (d # ds, w2))"

text \<open>What the calls report on a watch that was started at \<open>t0\<close> and never stops; only \<open>reset\<close> moves the start.\<close>

fun running_reports :: "watch_call list \<Rightarrow> nanoseconds \<Rightarrow> nanoseconds option list" where
  "running_reports [] t0 = []"
| "running_reports (CallStart now # cs) t0 = None # running_reports cs t0"
| "running_reports (CallStop now # cs) t0 = Some (now - t0) # running_reports cs t0"
| "running_reports (CallMark now # cs) t0 = Some (now - t0) # running_reports cs t0"
| "running_reports (CallReset now # cs) t0 = None # running_reports cs now"

lemma watch_step_running:
  assumes "was_started w" "stop_watch_ok w"
  shows "watch_step c w = (case c of
      CallStart now \<Rightarrow> (None, w)
    | CallStop now \<Rightarrow> (Some (now - sw_start w), w)
    | CallMark now \<Rightarrow> (Some (now - sw_start w), w)
    | CallReset now \<Rightarrow> (None, w\<lparr>sw_start := now\<rparr>))"
  using assms
  by (simp add: watch_step_def stop_watch_start_def stop_watch_stop_def stop_watch_mark_def stop_watch_reset_def
      stop_watch_print_def stop_watch_ok_def split: watch_call.split)

text \<open>
  C35. A watch that runs cannot be stopped: whatever sequence of calls follows, it is still running at the
  end, each \<open>stop\<close> and each \<open>mark\<close> report the time since the start of the watch or its last \<open>reset\<close>, and
  each \<open>start\<close> is ignored.
\<close>

theorem stop_watch_keeps_running:
  assumes "was_started w" "stop_watch_ok w"
  shows "fst (run_watch cs w) = running_reports cs (sw_start w) \<and> was_started (snd (run_watch cs w))"
  using assms
proof (induction cs arbitrary: w)
  case (Cons c cs)
  have reset: "stop_watch_ok (w\<lparr>sw_start := t\<rparr>)" for t using Cons.prems by (simp add: stop_watch_ok_def)
  show ?case
    using Cons.IH [of w] Cons.IH [of "w\<lparr>sw_start := t\<rparr>" for t] reset Cons.prems
    by (cases c) (simp_all add: watch_step_running case_prod_unfold Let_def)
qed simp

definition sample_watch :: StopWatch where
  "sample_watch = StopWatch_new 10 10 \<lparr>lt_buf = 0, lt_tag = ''dag''\<rparr> ''clone'' True"

theorem stop_watch_keeps_running_witness:
  "fst (run_watch [CallStop 30, CallStart 50, CallStop 70, CallReset 80, CallMark 85] sample_watch) =
     [Some 20, None, Some 60, None, Some 5] \<and>
   was_started (snd (run_watch [CallStop 30] sample_watch))"
proof -
  have w: "was_started sample_watch" "stop_watch_ok sample_watch" "sw_start sample_watch = 10"
    by (simp_all add: sample_watch_def stop_watch_ok_def StopWatch_new_def stop_watch_start_def)
  note run = stop_watch_keeps_running [OF w(1,2)]
  have "running_reports [CallStop 30, CallStart 50, CallStop 70, CallReset 80, CallMark 85] 10 =
     [Some 20, None, Some 60, None, Some 5]" by simp
  then show ?thesis using run [of "[CallStop 30, CallStart 50, CallStop 70, CallReset 80, CallMark 85]"] run [of "[CallStop 30]"]
    unfolding w(3) by metis
qed

end
