(* ===== verification/Http_Service.thy ===== *)
theory Http_Service
  imports Dag_Prelude Uuid
begin

text \<open>
  The helpers of the web service (\<open>lib/service_helpers.cxx\<close>), the endpoint handlers
  (\<open>lib/endpoints.cxx\<close>) and the router (\<open>WorkflowService::Router\<close>, \<open>lib/workflow_service.cxx\<close>).

  A message of Boost.Beast is recorded as the calls that filled it in: the fields in the order of the calls to
  \<open>set\<close>, and whether and how \<open>keep_alive\<close>, \<open>content_length\<close> and \<open>prepare_payload\<close> were called. The file
  system is the record \<open>file_api\<close>. A handler answers through a responder; it is the function from the
  request to its verdict and the list of the responses it sends.
\<close>

section \<open>Messages\<close>

datatype verb = Verb_get | Verb_head | Verb_other string

record request =
  rq_method :: verb
  rq_target :: string
  rq_version :: nat
  rq_keep_alive :: bool

datatype body = StringBody string | EmptyBody

record response =
  rs_status :: nat
  rs_version :: nat
  rs_fields :: "(string \<times> string) list"
  rs_keep_alive :: "bool option"
  rs_content_length :: "nat option"
  rs_body :: body
  rs_prepared :: bool

datatype open_error = NoSuchFileOrDirectory | OtherError string

record file_api =
  beast_version :: string
  file_open :: "string \<Rightarrow> open_error option" \<comment> \<open>\<open>body.open\<close>\<close>
  file_content :: "string \<Rightarrow> string"
  file_read_fails :: "string \<Rightarrow> bool"
  success_message :: string \<comment> \<open>\<open>message()\<close> of an error code without error\<close>

definition response_new :: "nat \<Rightarrow> nat \<Rightarrow> body \<Rightarrow> response" where
  "response_new status version b =
     \<lparr>rs_status = status, rs_version = version, rs_fields = [], rs_keep_alive = None, rs_content_length = None,
      rs_body = b, rs_prepared = False\<rparr>"

definition set_field :: "string \<Rightarrow> string \<Rightarrow> response \<Rightarrow> response" where
  "set_field f v res = res\<lparr>rs_fields := rs_fields res @ [(f, v)]\<rparr>"

section \<open>Helpers\<close>

text \<open>\<open>path.rfind(".")\<close> and \<open>path.substr(pos)\<close>: the text from the last dot on, empty without a dot.\<close>

definition extension :: "string \<Rightarrow> string" where
  "extension path =
     (if CHR ''.'' \<in> set path then CHR ''.'' # rev (takeWhile (\<lambda>c. c \<noteq> CHR ''.'') (rev path)) else [])"

definition iequals :: "string \<Rightarrow> string \<Rightarrow> bool" where
  "iequals a b \<longleftrightarrow> map tolower a = map tolower b"

definition mime_type :: "string \<Rightarrow> string" where
  "mime_type path =
     (let ext = extension path
      in if iequals ext ''.htm'' then ''text/html''
         else if iequals ext ''.html'' then ''text/html''
         else if iequals ext ''.php'' then ''text/html''
         else if iequals ext ''.css'' then ''text/css''
         else if iequals ext ''.txt'' then ''text/plain''
         else if iequals ext ''.js'' then ''application/javascript''
         else if iequals ext ''.json'' then ''application/json''
         else if iequals ext ''.xml'' then ''application/xml''
         else if iequals ext ''.swf'' then ''application/x-shockwave-flash''
         else if iequals ext ''.flv'' then ''video/x-flv''
         else if iequals ext ''.png'' then ''image/png''
         else if iequals ext ''.jpe'' then ''image/jpeg''
         else if iequals ext ''.jpeg'' then ''image/jpeg''
         else if iequals ext ''.jpg'' then ''image/jpeg''
         else if iequals ext ''.gif'' then ''image/gif''
         else if iequals ext ''.bmp'' then ''image/bmp''
         else if iequals ext ''.ico'' then ''image/vnd.microsoft.icon''
         else if iequals ext ''.tiff'' then ''image/tiff''
         else if iequals ext ''.tif'' then ''image/tiff''
         else if iequals ext ''.svg'' then ''image/svg+xml''
         else if iequals ext ''.sggz'' then ''image/svg+xml''
         else ''application/text'')"

definition path_cat :: "string \<Rightarrow> string \<Rightarrow> string" where
  "path_cat base path =
     (if base = [] then path
      else (let ret = (if last base = CHR ''/'' then butlast base else base) in ret @ path))"

text \<open>
  \<open>load_server_cert\<close> on the TLS context: one file is both the chain of certificates and the private key. The
  two arguments say why OpenSSL refuses a file for the one or the other use.
\<close>

datatype ssl_option = default_workarounds | no_sslv2 | single_dh_use

record ssl_context =
  ctx_password :: "string option"
  ctx_options :: "ssl_option set"
  ctx_chain_file :: "string option"
  ctx_key_file :: "string option"

definition ssl_context_new :: ssl_context where
  "ssl_context_new = \<lparr>ctx_password = None, ctx_options = {}, ctx_chain_file = None, ctx_key_file = None\<rparr>"

definition use_certificate_chain_file :: "(string \<Rightarrow> string option) \<Rightarrow> string \<Rightarrow> (ssl_context, unit) exec" where
  "use_certificate_chain_file chain_error path ctx = (case chain_error path of
      Some e \<Rightarrow> (Inl (ThrowSystemError e), ctx) | None \<Rightarrow> (Inr (), ctx\<lparr>ctx_chain_file := Some path\<rparr>))"

definition use_private_key_file :: "(string \<Rightarrow> string option) \<Rightarrow> string \<Rightarrow> (ssl_context, unit) exec" where
  "use_private_key_file key_error path ctx = (case key_error path of
      Some e \<Rightarrow> (Inl (ThrowSystemError e), ctx) | None \<Rightarrow> (Inr (), ctx\<lparr>ctx_key_file := Some path\<rparr>))"

definition load_server_cert ::
    "(string \<Rightarrow> string option) \<Rightarrow> (string \<Rightarrow> string option) \<Rightarrow> string \<Rightarrow> (ssl_context, unit) exec" where
  "load_server_cert chain_error key_error pem_path =
     ebind (\<lambda>ctx. (Inr (), ctx\<lparr>ctx_password := Some ''test''\<rparr>)) (\<lambda>_.
     ebind (\<lambda>ctx. (Inr (), ctx\<lparr>ctx_options := ctx_options ctx \<union> {default_workarounds, no_sslv2, single_dh_use}\<rparr>)) (\<lambda>_.
     ebind (use_certificate_chain_file chain_error pem_path) (\<lambda>_.
     use_private_key_file key_error pem_path)))"

definition bad_request_handler :: "file_api \<Rightarrow> string \<Rightarrow> request \<Rightarrow> response" where
  "bad_request_handler F why req =
     (let res = response_new 400 (rq_version req) (StringBody []);
          res = set_field ''Server'' (beast_version F) res;
          res = set_field ''Content-Script-Type'' ''text/html'' res;
          res = res\<lparr>rs_keep_alive := Some (rq_keep_alive req)\<rparr>;
          res = res\<lparr>rs_body := StringBody why\<rparr>
      in res\<lparr>rs_prepared := True\<rparr>)"

definition not_found_handler :: "file_api \<Rightarrow> string \<Rightarrow> request \<Rightarrow> response" where
  "not_found_handler F target req =
     (let res = response_new 404 (rq_version req) (StringBody []);
          res = set_field ''Server'' (beast_version F) res;
          res = set_field ''Content-Type'' ''text/html'' res;
          res = res\<lparr>rs_keep_alive := Some (rq_keep_alive req)\<rparr>;
          res = res\<lparr>rs_body := StringBody (''The resource '' @ [CHR 0x27] @ target @ [CHR 0x27] @ '' was not found.'' @ [CHR 0x0A])\<rparr>
      in res\<lparr>rs_prepared := True\<rparr>)"

definition server_error_handler :: "file_api \<Rightarrow> string \<Rightarrow> request \<Rightarrow> response" where
  "server_error_handler F what req =
     (let res = response_new 500 (rq_version req) (StringBody []);
          res = set_field ''Server'' (beast_version F) res;
          res = set_field ''Content-Type'' ''text/html'' res;
          res = res\<lparr>rs_keep_alive := Some (rq_keep_alive req)\<rparr>
      in res\<lparr>rs_body := StringBody (''An error occurred: '' @ [CHR 0x27] @ what @ [CHR 0x27] @ [CHR 0x0A])\<rparr>)"

section \<open>Endpoints\<close>

text \<open>\<open>s.find("..")\<close>\<close>

fun has_dotdot :: "string \<Rightarrow> bool" where
  "has_dotdot (a # b # s) \<longleftrightarrow> (a = CHR ''.'' \<and> b = CHR ''.'') \<or> has_dotdot (b # s)"
| "has_dotdot _ \<longleftrightarrow> False"

text \<open>
  \<open>DocRootEndpoint::handle_request\<close> with the directory that is served. The verdict and the responses come with
  the path that was opened, if one was.
\<close>

definition handle_request :: "file_api \<Rightarrow> string \<Rightarrow> request \<Rightarrow> (bool \<times> response list) \<times> string option" where
  "handle_request F doc_root req =
     (if rq_method req \<noteq> Verb_get \<and> rq_method req \<noteq> Verb_head
      then ((True, [bad_request_handler F (''Unknown HTTP-method'' @ [CHR 0x0A]) req]), None)
      else if rq_target req = [] \<or> hd (rq_target req) \<noteq> CHR ''/'' \<or> has_dotdot (rq_target req)
      then ((True, [bad_request_handler F (''Illegal request-target'' @ [CHR 0x0A]) req]), None)
      else (let path = path_cat doc_root (rq_target req);
                file = c_str path
            in case file_open F file of
                 Some NoSuchFileOrDirectory \<Rightarrow> ((True, [not_found_handler F (rq_target req) req]), Some file)
               | Some (OtherError message) \<Rightarrow> ((True, [server_error_handler F message req]), Some file)
               | None \<Rightarrow>
                   (let body_size = length (file_content F file)
                    in if rq_method req = Verb_head
                       then (let res = response_new 200 (rq_version req) EmptyBody;
                                 res = set_field ''Server'' (beast_version F) res;
                                 res = set_field ''Content-Type'' (mime_type path) res;
                                 res = res\<lparr>rs_content_length := Some body_size\<rparr>;
                                 res = res\<lparr>rs_keep_alive := Some (rq_keep_alive req)\<rparr>
                             in ((True, [res]), Some file))
                       else if \<not> file_read_fails F file
                       then ((True, [response_new 200 (rq_version req) (StringBody (file_content F file))]), Some file)
                       else ((True, [server_error_handler F (success_message F) req]), Some file))))"

text \<open>The classes of handlers.\<close>

datatype EndpointHandler = EndpointHandler | DocRootEndpoint string | RegisterDAGEndpoint

definition EndpointHandler_call :: "request \<Rightarrow> bool \<times> response list" where
  "EndpointHandler_call req = (False, [])"

definition DocRootEndpoint_call :: "file_api \<Rightarrow> string \<Rightarrow> request \<Rightarrow> bool \<times> response list" where
  "DocRootEndpoint_call F doc_root req = fst (handle_request F doc_root req)"

definition RegisterDAGEndpoint_call :: "request \<Rightarrow> bool \<times> response list" where
  "RegisterDAGEndpoint_call req = (True, [])"

text \<open>The virtual \<open>operator()\<close>.\<close>

definition call_handler :: "file_api \<Rightarrow> EndpointHandler \<Rightarrow> request \<Rightarrow> bool \<times> response list" where
  "call_handler F h req = (case h of
      EndpointHandler \<Rightarrow> EndpointHandler_call req
    | DocRootEndpoint doc_root \<Rightarrow> DocRootEndpoint_call F doc_root req
    | RegisterDAGEndpoint \<Rightarrow> RegisterDAGEndpoint_call req)"

section \<open>Router\<close>

text \<open>A registered handler may be a null pointer.\<close>

type_synonym Router = "(string \<times> EndpointHandler option) list"

definition register_endpoint :: "string \<Rightarrow> EndpointHandler option \<Rightarrow> Router \<Rightarrow> bool \<times> Router" where
  "register_endpoint endpoint handler r =
     (if map_of r endpoint \<noteq> None then (False, r) else (True, (endpoint, handler) # r))"

definition router_at :: "Router \<Rightarrow> string \<Rightarrow> EndpointHandler option res" where
  "router_at r endpoint = (case map_of r endpoint of
      None \<Rightarrow> Inl (ThrowRuntimeError (''No handler for '' @ endpoint @ '' was found.''))
    | Some h \<Rightarrow> Inr h)"

definition router_ok :: "Router \<Rightarrow> bool" where
  "router_ok r \<longleftrightarrow> distinct (map fst r)"

interpretation router: insert_once router_ok map_of fst "\<lambda>(endpoint, handler). register_endpoint endpoint handler"
  by (unfold_locales; auto simp: router_ok_def register_endpoint_def map_of_eq_None_iff split: if_splits; metis fst_conv imageI)

section \<open>Lemmas\<close>

lemma has_dotdot_append: "has_dotdot (u @ CHR ''.'' # CHR ''.'' # v)"
  by (induction u rule: has_dotdot.induct) auto

lemma has_dotdot_iff: "has_dotdot s \<longleftrightarrow> (\<exists>u v. s = u @ ''..'' @ v)"
proof
  show "has_dotdot s \<Longrightarrow> \<exists>u v. s = u @ ''..'' @ v"
  proof (induction s rule: has_dotdot.induct)
    case (1 a b s)
    then show ?case
    proof (cases "a = CHR ''.'' \<and> b = CHR ''.''")
      case True
      then show ?thesis by (intro exI [of _ "[]"] exI [of _ s]) simp
    next
      case False
      with 1 obtain u v where "b # s = u @ ''..'' @ v" by auto
      then have "a # b # s = (a # u) @ ''..'' @ v" by simp
      then show ?thesis by blast
    qed
  qed auto
qed (auto simp: has_dotdot_append)

lemma DocRootEndpoint_answers: "\<exists>res. DocRootEndpoint_call F doc_root req = (True, [res])"
  by (simp add: DocRootEndpoint_call_def handle_request_def Let_def split: option.split open_error.split)

text \<open>A handler answers at most once, and not at all if it declines.\<close>

lemma call_handler_answers:
  "length (snd (call_handler F h req)) \<le> 1 \<and> (fst (call_handler F h req) \<or> snd (call_handler F h req) = [])"
proof (cases h)
  case (DocRootEndpoint doc_root)
  then show ?thesis using DocRootEndpoint_answers [of F doc_root req] by (auto simp: call_handler_def)
qed (simp_all add: call_handler_def EndpointHandler_call_def RegisterDAGEndpoint_call_def)

text \<open>What is opened is below the directory that is served.\<close>

lemma handle_request_opens:
  assumes "handle_request F doc_root req = (r, Some file)"
  shows "file = c_str (path_cat doc_root (rq_target req)) \<and> rq_method req \<in> {Verb_get, Verb_head} \<and>
    (\<exists>rest. rq_target req = CHR ''/'' # rest) \<and> \<not> has_dotdot (rq_target req)"
proof -
  have ok: "rq_method req \<in> {Verb_get, Verb_head}" "rq_target req \<noteq> []" "hd (rq_target req) = CHR ''/''" "\<not> has_dotdot (rq_target req)"
    using assms by (auto simp: handle_request_def split: if_splits)
  moreover have "file = c_str (path_cat doc_root (rq_target req))"
    using assms ok by (auto simp: handle_request_def Let_def split: option.splits open_error.splits if_splits)
  ultimately show ?thesis by (cases "rq_target req") auto
qed

end
