(* ===== verification/Workflow_Service.thy ===== *)
theory Workflow_Service
  imports Http_Service Dag_Yaml
begin

text \<open>
  The web service as a state machine: \<open>WorkflowService\<close> and its listener (\<open>lib/workflow_service.cxx\<close>) and the
  sessions (\<open>lib/https_session.cxx\<close>).

  Boost.Asio runs one handler at a time: the constructor of the service makes one thread only (see
  \<open>spawn_threads\<close>). The state has the asynchronous operations that are outstanding; a step takes one of
  them, completed with an outcome that the network chooses, and runs its handler to the end. A session object
  lives as long as an operation of it is outstanding. An exception that leaves a handler leaves
  \<open>io_context::run\<close> and ends the service. The wait for \<open>SIGINT\<close> is outstanding beside the other operations;
  its handler ends the process.
\<close>

datatype acceptor_call = AccClose | AccOpen | AccReuseAddress | AccKeepAlive | AccBind "string \<times> 16 word" | AccListen

datatype operation =
    Accept
  | AcceptAborted
  | RunSession nat
  | Handshake nat
  | Read nat
  | Write nat bool
  | Shutdown nat

datatype read_result = EndOfStream | ReadError string | ReadOk request

record server =
  sv_acceptor :: "acceptor_call list" \<comment> \<open>the calls that succeeded since it was last closed\<close>
  sv_attempts :: nat
  sv_pending :: "operation list"
  sv_router :: Router
  sv_next_session :: nat
  sv_sent :: "(nat \<times> response) list"
  sv_error :: "cpp_error option"
  sv_ctx :: ssl_context
  sv_endpoint :: "string \<times> 16 word"
  sv_doc_root :: string
  sv_signal_wait :: bool
  sv_exit :: "int option" \<comment> \<open>the argument of \<open>exit\<close>\<close>

text \<open>
  The environment: the file system, whether a call on the acceptor fails in the n-th attempt to set it up,
  Beast's \<open>need_eof\<close>, why OpenSSL refuses a file, and whether a text is an address.
\<close>

record service_env =
  se_files :: file_api
  se_acceptor :: "nat \<Rightarrow> acceptor_call \<Rightarrow> string option"
  se_need_eof :: "response \<Rightarrow> bool"
  se_chain_error :: "string \<Rightarrow> string option"
  se_key_error :: "string \<Rightarrow> string option"
  se_make_address :: "string \<Rightarrow> string option"

definition start_operation :: "operation \<Rightarrow> server \<Rightarrow> server" where
  "start_operation p s = s\<lparr>sv_pending := sv_pending s @ [p]\<rparr>"

section \<open>The listener\<close>

definition acceptor_step :: "service_env \<Rightarrow> acceptor_call \<Rightarrow> (server, unit) exec" where
  "acceptor_step V c s = (case se_acceptor V (sv_attempts s) c of
      Some ec \<Rightarrow> (Inl (ThrowSystemError ec), s)
    | None \<Rightarrow> (Inr (), s\<lparr>sv_acceptor := sv_acceptor s @ [c]\<rparr>))"

definition create_acceptor :: "service_env \<Rightarrow> (server, unit) exec" where
  "create_acceptor V s =
     ebind (acceptor_step V AccOpen) (\<lambda>_.
     ebind (acceptor_step V AccReuseAddress) (\<lambda>_.
     ebind (acceptor_step V AccKeepAlive) (\<lambda>_.
     ebind (acceptor_step V (AccBind (sv_endpoint s))) (\<lambda>_.
     acceptor_step V AccListen)))) (s\<lparr>sv_attempts := Suc (sv_attempts s)\<rparr>)"

definition do_accept :: "server \<Rightarrow> server" where
  "do_accept s = start_operation Accept s"

definition listener_run :: "server \<Rightarrow> server" where
  "listener_run s = do_accept s"

definition HTTPSListener_new :: "service_env \<Rightarrow> string \<times> 16 word \<Rightarrow> string \<Rightarrow> (server, unit) exec" where
  "HTTPSListener_new V endpoint doc_root s =
     create_acceptor V (s\<lparr>sv_endpoint := endpoint, sv_doc_root := doc_root\<rparr>)"

definition make_https_listener :: "service_env \<Rightarrow> string \<Rightarrow> string \<Rightarrow> 16 word \<Rightarrow> (server, unit) exec" where
  "make_https_listener V doc_root address port =
     (let endpoint = (address, port) in HTTPSListener_new V endpoint doc_root)"

text \<open>Closing the acceptor aborts the operations that wait on it.\<close>

definition acceptor_close :: "service_env \<Rightarrow> (server, unit) exec" where
  "acceptor_close V s = (case se_acceptor V (sv_attempts s) AccClose of
      Some ec \<Rightarrow> (Inl (ThrowSystemError ec), s)
    | None \<Rightarrow> (Inr (), s\<lparr>sv_acceptor := [],
        sv_pending := map (\<lambda>p. if p = Accept then AcceptAborted else p) (sv_pending s)\<rparr>))"

definition listener_reset :: "service_env \<Rightarrow> (server, unit) exec" where
  "listener_reset V = ebind (acceptor_close V) (\<lambda>_. ebind (create_acceptor V) (\<lambda>_ t. (Inr (), listener_run t)))"

section \<open>Sessions\<close>

definition session_run :: "nat \<Rightarrow> server \<Rightarrow> server" where
  "session_run i s = start_operation (RunSession i) s"

text \<open>A new session gets the next number; its members are those of the listener.\<close>

definition HTTPSSession_new :: "server \<Rightarrow> nat \<times> server" where
  "HTTPSSession_new s = (sv_next_session s, s\<lparr>sv_next_session := Suc (sv_next_session s)\<rparr>)"

definition on_accept :: "string option \<Rightarrow> string option \<Rightarrow> server \<Rightarrow> server" where
  "on_accept ec set_option_ec s =
     (if ec \<noteq> None then s
      else if set_option_ec = None
      then (let (i, s1) = HTTPSSession_new s in session_run i s1)
      else s)"

definition on_run :: "nat \<Rightarrow> server \<Rightarrow> server" where
  "on_run i s = start_operation (Handshake i) s"

definition do_read :: "nat \<Rightarrow> server \<Rightarrow> server" where
  "do_read i s = start_operation (Read i) s"

definition do_close :: "nat \<Rightarrow> server \<Rightarrow> server" where
  "do_close i s = start_operation (Shutdown i) s"

definition on_handshake :: "nat \<Rightarrow> string option \<Rightarrow> server \<Rightarrow> server" where
  "on_handshake i ec s = (if ec \<noteq> None then do_close i s else do_read i s)"

definition responder_send :: "service_env \<Rightarrow> nat \<Rightarrow> response \<Rightarrow> server \<Rightarrow> server" where
  "responder_send V i msg s =
     start_operation (Write i (se_need_eof V msg)) (s\<lparr>sv_sent := sv_sent s @ [(i, msg)]\<rparr>)"

text \<open>The responses to a request; a missing or null handler is a \<open>runtime_error\<close> that is caught.\<close>

definition session_answer :: "file_api \<Rightarrow> Router \<Rightarrow> request \<Rightarrow> response list" where
  "session_answer F r req = (case router_at r (rq_target req) of
      Inl _ \<Rightarrow> [not_found_handler F (rq_target req) req]
    | Inr None \<Rightarrow> [not_found_handler F (rq_target req) req]
    | Inr (Some handler) \<Rightarrow>
        (let (status, sent) = call_handler F handler req
         in if \<not> status then sent @ [server_error_handler F ''Internal Server error'' req] else sent))"

definition on_read :: "service_env \<Rightarrow> nat \<Rightarrow> read_result \<Rightarrow> server \<Rightarrow> server" where
  "on_read V i result s = (case result of
      EndOfStream \<Rightarrow> do_close i s
    | ReadError _ \<Rightarrow> s
    | ReadOk req \<Rightarrow> fold (responder_send V i) (session_answer (se_files V) (sv_router s) req) s)"

definition on_shutdown :: "service_env \<Rightarrow> nat \<Rightarrow> string option \<Rightarrow> (server, unit) exec" where
  "on_shutdown V i ec = listener_reset V"

definition on_write :: "nat \<Rightarrow> bool \<Rightarrow> string option \<Rightarrow> server \<Rightarrow> server" where
  "on_write i close ec s =
     (if ec \<noteq> None then s else if close then do_close i s else do_read i s)"

section \<open>The service\<close>

record ConnectionInfo =
  ci_address :: string
  ci_port :: "32 word"
  ci_doc_root :: string
  ci_threads :: "16 word"
  ci_pem :: string

text \<open>
  \<open>for (auto i = v.size(); i > 0; --i) v.emplace_back(...)\<close>: \<open>reserve\<close> leaves the size of the vector alone.
\<close>

primrec spawn_loop :: "nat \<Rightarrow> unit list \<Rightarrow> unit list" where
  "spawn_loop 0 v = v"
| "spawn_loop (Suc i) v = spawn_loop i (v @ [()])"

text \<open>\<open>ci.threads_ - 1\<close> is computed as an \<open>int\<close>; a negative one becomes a size no vector can have.\<close>

definition spawn_threads :: "16 word \<Rightarrow> unit list res" where
  "spawn_threads threads =
     (if int (unat threads) - 1 < 0 then Inl (ThrowLogicError ''vector::reserve'')
      else (let v = [] in Inr (spawn_loop (length v) v)))"

definition server_new :: server where
  "server_new = \<lparr>sv_acceptor = [], sv_attempts = 0, sv_pending = [], sv_router = [], sv_next_session = 0,
     sv_sent = [], sv_error = None, sv_ctx = ssl_context_new, sv_endpoint = ([], 0), sv_doc_root = [],
     sv_signal_wait = False, sv_exit = None\<rparr>"

text \<open>A computation on the TLS context of the service.\<close>

definition on_ctx :: "(ssl_context, 'a) exec \<Rightarrow> (server, 'a) exec" where
  "on_ctx m s = (let (r, ctx) = m (sv_ctx s) in (r, s\<lparr>sv_ctx := ctx\<rparr>))"

definition SIGINT :: int where
  "SIGINT = 2"

definition signals_async_wait :: "server \<Rightarrow> server" where
  "signals_async_wait s = s\<lparr>sv_signal_wait := True\<rparr>"

definition sig_handler :: "int \<Rightarrow> server \<Rightarrow> server" where
  "sig_handler signum s = s\<lparr>sv_exit := Some signum\<rparr>"

text \<open>The constructor up to \<open>ioc_.run()\<close>, with the port that is bound and the additional threads.\<close>

definition WorkflowService_new :: "service_env \<Rightarrow> ConnectionInfo \<Rightarrow> (server, 16 word \<times> unit list) exec" where
  "WorkflowService_new V ci =
     ebind (on_ctx (load_server_cert (se_chain_error V) (se_key_error V) (ci_pem ci))) (\<lambda>_.
     ebind (elift (case se_make_address V (ci_address ci) of None \<Rightarrow> Inr () | Some e \<Rightarrow> Inl (ThrowSystemError e))) (\<lambda>_ s.
     let port = ucast (ci_port ci) :: 16 word;
         s1 = s\<lparr>sv_router := snd (register_endpoint ''/index.html'' (Some (DocRootEndpoint (ci_doc_root ci))) (sv_router s))\<rparr>;
         s2 = signals_async_wait s1
     in ebind (make_https_listener V (ci_doc_root ci) (ci_address ci) port) (\<lambda>_.
        ebind (elift (spawn_threads (ci_threads ci))) (\<lambda>v t. (Inr (port, v), listener_run t))) s2))"

text \<open>\<open>YAML::convert<ConnectionInfo>::decode\<close>; \<open>false\<close> leaves the object as it was.\<close>

record 'n yaml_num_api = "'n yaml_api" +
  y_size :: "'n \<Rightarrow> nat"
  y_as_uint32 :: "'n \<Rightarrow> 32 word res"
  y_as_uint16 :: "'n \<Rightarrow> 16 word res"

definition decode_connection_info :: "'n yaml_num_api \<Rightarrow> 'n \<Rightarrow> ConnectionInfo \<Rightarrow> (bool \<times> ConnectionInfo) res" where
  "decode_connection_info Y node rhs =
     (if y_size Y node \<noteq> 5 then Inr (False, rhs)
      else rbind (rbind (y_sub Y node ''address'') (y_as_string Y)) (\<lambda>address.
           let address = (if address = ''localhost'' then ''127.0.0.1'' else address) in
           rbind (rbind (y_sub Y node ''port'') (y_as_uint32 Y)) (\<lambda>port.
           rbind (rbind (y_sub Y node ''doc-root'') (y_as_string Y)) (\<lambda>doc_root.
           rbind (rbind (y_sub Y node ''threads'') (y_as_uint16 Y)) (\<lambda>threads.
           rbind (rbind (y_sub Y node ''pem'') (y_as_string Y)) (\<lambda>pem.
           Inr (True, \<lparr>ci_address = address, ci_port = port, ci_doc_root = doc_root, ci_threads = threads, ci_pem = pem\<rparr>)))))))"

section \<open>Steps\<close>

definition finish :: "operation \<Rightarrow> server \<Rightarrow> server" where
  "finish p s = s\<lparr>sv_pending := remove1 p (sv_pending s)\<rparr>"

text \<open>An exception that leaves a handler.\<close>

definition escape :: "unit res \<times> server \<Rightarrow> server" where
  "escape r = (case r of (Inr _, s) \<Rightarrow> s | (Inl e, s) \<Rightarrow> s\<lparr>sv_error := Some e\<rparr>)"

definition alive :: "server \<Rightarrow> bool" where
  "alive s \<longleftrightarrow> sv_error s = None \<and> sv_exit s = None"

definition ready :: "operation \<Rightarrow> server \<Rightarrow> bool" where
  "ready p s \<longleftrightarrow> alive s \<and> p \<in> set (sv_pending s)"

inductive service_step :: "service_env \<Rightarrow> server \<Rightarrow> server \<Rightarrow> bool" for V where
  accepted: "ready Accept s \<Longrightarrow> service_step V s (on_accept ec opt (finish Accept s))"
| accept_aborted: "ready AcceptAborted s \<Longrightarrow>
    service_step V s (on_accept (Some ''operation_aborted'') opt (finish AcceptAborted s))"
| session_started: "ready (RunSession i) s \<Longrightarrow> service_step V s (on_run i (finish (RunSession i) s))"
| handshake_done: "ready (Handshake i) s \<Longrightarrow> service_step V s (on_handshake i ec (finish (Handshake i) s))"
| read_done: "ready (Read i) s \<Longrightarrow> service_step V s (on_read V i result (finish (Read i) s))"
| write_done: "ready (Write i close) s \<Longrightarrow> service_step V s (on_write i close ec (finish (Write i close) s))"
| shutdown_done: "ready (Shutdown i) s \<Longrightarrow> service_step V s (escape (on_shutdown V i ec (finish (Shutdown i) s)))"
| interrupted: "alive s \<Longrightarrow> sv_signal_wait s \<Longrightarrow> service_step V s (sig_handler SIGINT (s\<lparr>sv_signal_wait := False\<rparr>))"

section \<open>Reachable states\<close>

lemmas operation_defs = start_operation_def do_accept_def listener_run_def session_run_def on_accept_def on_run_def
  HTTPSSession_new_def do_read_def do_close_def on_handshake_def responder_send_def on_write_def finish_def

text \<open>
  At most one operation is outstanding: either the listener waits for a connection, on an acceptor that
  listens, or one session waits for the network. The wait for a signal is outstanding until the process ends.
\<close>

definition service_ok :: "server \<Rightarrow> bool" where
  "service_ok s \<longleftrightarrow> sv_error s \<noteq> None \<or>
     (length (sv_pending s) \<le> 1 \<and> AcceptAborted \<notin> set (sv_pending s) \<and> AccListen \<in> set (sv_acceptor s) \<and>
      (if sv_signal_wait s then sv_exit s = None else sv_exit s = Some SIGINT))"

lemma session_answer_length: "length (session_answer F r req) \<le> 1"
  using call_handler_answers [of F _ req]
  by (auto simp: session_answer_def router_at_def split: option.split prod.split)
    (metis fst_conv snd_conv length_Cons list.size(3) order_refl append_Nil One_nat_def)+

lemma create_acceptor_result:
  "\<exists>r t. create_acceptor V s = (r, t) \<and> sv_pending t = sv_pending s \<and> sv_error t = sv_error s \<and> sv_router t = sv_router s \<and>
     sv_ctx t = sv_ctx s \<and> sv_endpoint t = sv_endpoint s \<and> sv_doc_root t = sv_doc_root s \<and>
     sv_signal_wait t = sv_signal_wait s \<and> sv_exit t = sv_exit s \<and> (r = Inr () \<longrightarrow> {AccBind (sv_endpoint s), AccListen} \<subseteq> set (sv_acceptor t))"
  by (simp add: create_acceptor_def ebind_def acceptor_step_def split: option.split)

lemma fold_responder_send:
  "sv_pending (fold (responder_send V i) rs s) = sv_pending s @ map (\<lambda>r. Write i (se_need_eof V r)) rs"
  "sv_error (fold (responder_send V i) rs s) = sv_error s" "sv_acceptor (fold (responder_send V i) rs s) = sv_acceptor s"
  "sv_router (fold (responder_send V i) rs s) = sv_router s" "sv_exit (fold (responder_send V i) rs s) = sv_exit s"
  "sv_signal_wait (fold (responder_send V i) rs s) = sv_signal_wait s"
  "sv_sent (fold (responder_send V i) rs s) = sv_sent s @ map (Pair i) rs"
  by (induction rs arbitrary: s) (simp_all add: responder_send_def start_operation_def)

lemma service_ok_ready:
  assumes "service_ok s" "ready p s"
  shows "sv_pending s = [p]" "sv_pending (finish p s) = []" "p \<noteq> AcceptAborted" "AccListen \<in> set (sv_acceptor s)"
    "sv_error s = None" "sv_exit s = None" "sv_signal_wait s"
proof -
  from assms have e: "sv_exit s = None" "sv_signal_wait s" "sv_error s = None" "p \<in> set (sv_pending s)" "length (sv_pending s) \<le> 1"
      "AcceptAborted \<notin> set (sv_pending s)" "AccListen \<in> set (sv_acceptor s)"
    by (auto simp: service_ok_def ready_def alive_def split: if_splits)
  then show "sv_pending s = [p]" by (cases "sv_pending s") auto
  with e show "sv_pending (finish p s) = []" "p \<noteq> AcceptAborted" "AccListen \<in> set (sv_acceptor s)" "sv_error s = None"
    "sv_exit s = None" "sv_signal_wait s"
    by (auto simp: finish_def)
qed

lemma finish_simps [simp]:
  "sv_error (finish p s) = sv_error s" "sv_exit (finish p s) = sv_exit s" "sv_signal_wait (finish p s) = sv_signal_wait s"
  "sv_acceptor (finish p s) = sv_acceptor s" "sv_router (finish p s) = sv_router s"
  by (simp_all add: finish_def)

lemma on_shutdown_result:
  assumes "sv_pending s = []" "sv_error s = None"
  shows "\<exists>t. escape (on_shutdown V i ec s) = t \<and> sv_router t = sv_router s \<and> sv_signal_wait t = sv_signal_wait s \<and>
    sv_exit t = sv_exit s \<and>
    (sv_error t \<noteq> None \<or> sv_pending t = [Accept] \<and> AccListen \<in> set (sv_acceptor t))"
proof (cases "se_acceptor V (sv_attempts s) AccClose")
  case (Some e)
  then show ?thesis by (simp add: on_shutdown_def listener_reset_def acceptor_close_def escape_def ebind_def)
next
  case None
  let ?s = "s\<lparr>sv_acceptor := [], sv_pending := map (\<lambda>p. if p = Accept then AcceptAborted else p) (sv_pending s)\<rparr>"
  from create_acceptor_result [of V ?s] obtain r t where "create_acceptor V ?s = (r, t)" "sv_pending t = []"
      "sv_error t = None" "sv_router t = sv_router s" "sv_signal_wait t = sv_signal_wait s" "sv_exit t = sv_exit s" "r = Inr () \<longrightarrow> AccListen \<in> set (sv_acceptor t)"
    using assms by auto
  with None show ?thesis
    by (cases r) (simp_all add: on_shutdown_def listener_reset_def acceptor_close_def escape_def ebind_def
        listener_run_def do_accept_def start_operation_def)
qed

lemma service_step_ok:
  assumes ok: "service_ok s" and step: "service_step V s t"
  shows "service_ok t \<and> sv_router t = sv_router s"
proof (cases "\<exists>p. ready p s")
  case False
  with step have "t = sig_handler SIGINT (s\<lparr>sv_signal_wait := False\<rparr>)" by cases blast+
  with ok show ?thesis by (auto simp: service_ok_def sig_handler_def)
next
  case True
  then obtain p where p: "ready p s" by blast
  note r = service_ok_ready [OF ok p]
  from step show ?thesis
  proof cases
    case (read_done i result)
    with r have "sv_pending (finish (Read i) s) = []" by (simp add: ready_def)
    with r session_answer_length show ?thesis
      by (auto simp: read_done(1) on_read_def service_ok_def fold_responder_send do_close_def start_operation_def
          split: read_result.split)
  next
    case (shutdown_done i ec)
    with r have "sv_pending (finish (Shutdown i) s) = []" by (simp add: ready_def)
    from on_shutdown_result [OF this, of V i ec] r show ?thesis
      by (auto simp: shutdown_done(1) service_ok_def)
  qed (use r in \<open>auto simp: service_ok_def ready_def operation_defs sig_handler_def\<close>)
qed

text \<open>What the constructor leaves behind.\<close>

definition service_started :: "service_env \<times> ConnectionInfo \<Rightarrow> server \<Rightarrow> bool" where
  "service_started E s \<longleftrightarrow> (\<exists>r. WorkflowService_new (fst E) (snd E) server_new = (Inr r, s))"

lemma load_server_cert_ok:
  assumes "load_server_cert chain_error key_error pem ctx = (Inr (), ctx')"
  shows "ctx' = ctx\<lparr>ctx_password := Some ''test'', ctx_options := ctx_options ctx \<union> {default_workarounds, no_sslv2, single_dh_use},
    ctx_chain_file := Some pem, ctx_key_file := Some pem\<rparr>"
  using assms by (auto simp: load_server_cert_def ebind_eq_Inr use_certificate_chain_file_def use_private_key_file_def
      split: option.splits)

lemma WorkflowService_new_runs:
  assumes "WorkflowService_new V ci server_new = (Inr (port, v), s)"
  obtains ctx t where "load_server_cert (se_chain_error V) (se_key_error V) (ci_pem ci) ssl_context_new = (Inr (), ctx)"
    "create_acceptor V (server_new\<lparr>sv_ctx := ctx, sv_router := [(''/index.html'', Some (DocRootEndpoint (ci_doc_root ci)))],
       sv_signal_wait := True, sv_endpoint := (ci_address ci, port), sv_doc_root := ci_doc_root ci\<rparr>) = (Inr (), t)"
    "s = listener_run t" "port = ucast (ci_port ci)" "spawn_threads (ci_threads ci) = Inr v"
proof -
  have reg: "snd (register_endpoint ''/index.html'' h []) = [(''/index.html'', h)]" for h
    by (simp add: register_endpoint_def)
  have new: "sv_ctx server_new = ssl_context_new" "sv_router server_new = []" by (simp_all add: server_new_def)
  show thesis
    using assms that
    by (auto simp: WorkflowService_new_def on_ctx_def make_https_listener_def HTTPSListener_new_def signals_async_wait_def ebind_eq_Inr Let_def reg new
        split: prod.splits option.splits)
qed

lemma WorkflowService_new_ok:
  assumes "WorkflowService_new V ci server_new = (Inr (port, v), s)"
  shows "sv_pending s = [Accept]" "sv_error s = None" "sv_exit s = None" "sv_signal_wait s" "AccListen \<in> set (sv_acceptor s)"
    "sv_router s = [(''/index.html'', Some (DocRootEndpoint (ci_doc_root ci)))]"
    "port = ucast (ci_port ci)" "v = []" "ci_threads ci \<noteq> 0"
    "sv_endpoint s = (ci_address ci, port)" "sv_doc_root s = ci_doc_root ci"
    "ctx_key_file (sv_ctx s) = Some (ci_pem ci)" "ctx_password (sv_ctx s) = Some ''test''"
    "AccBind (ci_address ci, port) \<in> set (sv_acceptor s)"
proof -
  obtain ctx t where run: "load_server_cert (se_chain_error V) (se_key_error V) (ci_pem ci) ssl_context_new = (Inr (), ctx)"
      "create_acceptor V (server_new\<lparr>sv_ctx := ctx, sv_router := [(''/index.html'', Some (DocRootEndpoint (ci_doc_root ci)))],
         sv_signal_wait := True, sv_endpoint := (ci_address ci, port), sv_doc_root := ci_doc_root ci\<rparr>) = (Inr (), t)"
      "s = listener_run t" "port = ucast (ci_port ci)" "spawn_threads (ci_threads ci) = Inr v"
    using assms by (rule WorkflowService_new_runs)
  have new: "sv_pending server_new = []" "sv_error server_new = None" "sv_exit server_new = None" by (simp_all add: server_new_def)
  have "v = []" "ci_threads ci \<noteq> 0" using run(5) by (auto simp: spawn_threads_def Let_def split: if_splits)
  moreover note create_acceptor_result [of V "server_new\<lparr>sv_ctx := ctx, sv_router := [(''/index.html'', Some (DocRootEndpoint (ci_doc_root ci)))],
         sv_signal_wait := True, sv_endpoint := (ci_address ci, port), sv_doc_root := ci_doc_root ci\<rparr>", unfolded run(2)]
  ultimately show "sv_pending s = [Accept]" "sv_error s = None" "sv_exit s = None" "sv_signal_wait s" "AccListen \<in> set (sv_acceptor s)"
    "sv_router s = [(''/index.html'', Some (DocRootEndpoint (ci_doc_root ci)))]"
    "port = ucast (ci_port ci)" "v = []" "ci_threads ci \<noteq> 0"
    "sv_endpoint s = (ci_address ci, port)" "sv_doc_root s = ci_doc_root ci"
    "ctx_key_file (sv_ctx s) = Some (ci_pem ci)" "ctx_password (sv_ctx s) = Some ''test''"
    "AccBind (ci_address ci, port) \<in> set (sv_acceptor s)"
    using run(3,4) load_server_cert_ok [OF run(1)] by (auto simp: listener_run_def do_accept_def start_operation_def new)
qed

definition service_inv :: "service_env \<times> ConnectionInfo \<Rightarrow> server \<Rightarrow> bool" where
  "service_inv E s \<longleftrightarrow> service_ok s \<and> sv_router s = [(''/index.html'', Some (DocRootEndpoint (ci_doc_root (snd E))))]"

interpretation service: step_invariant "\<lambda>_. True" service_started "\<lambda>E. service_step (fst E)" service_inv
proof
  fix E s t
  show "service_started E s \<Longrightarrow> service_inv E s"
    by (auto simp: service_started_def service_inv_def service_ok_def dest: WorkflowService_new_ok)
  show "service_inv E s \<Longrightarrow> service_step (fst E) s t \<Longrightarrow> service_inv E t"
    using service_step_ok [of s "fst E" t] by (auto simp: service_inv_def)
qed

lemma service_reachable:
  assumes "WorkflowService_new V ci server_new = (Inr r, s0)" "(service_step V)\<^sup>*\<^sup>* s0 s"
  shows "service_inv (V, ci) s"
  using service.reachable_inv [of "(V, ci)" s0 s] assms by (auto simp: service_started_def)

text \<open>Without an outstanding operation of listener or session only the signal can happen.\<close>

definition server_exited :: "server \<Rightarrow> server" where
  "server_exited s = sig_handler SIGINT (s\<lparr>sv_signal_wait := False\<rparr>)"

lemma dead_no_step: "\<not> alive s \<Longrightarrow> \<not> service_step V s t"
  by (auto simp: ready_def elim: service_step.cases)

lemma not_alive_exited [simp]: "\<not> alive (server_exited s)"
  by (simp add: server_exited_def sig_handler_def alive_def)

lemma no_operation_step: "sv_pending s = [] \<Longrightarrow> service_step V s t \<longleftrightarrow> alive s \<and> sv_signal_wait s \<and> t = server_exited s"
  by (auto simp: ready_def server_exited_def elim: service_step.cases intro: interrupted)

lemma no_operation_forever:
  assumes "sv_pending s = []" "alive s" "sv_signal_wait s"
  shows "Collect ((service_step V)\<^sup>*\<^sup>* s) = {s, server_exited s}"
proof -
  have dead: "u = server_exited s" if "(service_step V)\<^sup>*\<^sup>* (server_exited s) u" for u
    using that by (rule converse_rtranclpE) (simp_all add: dead_no_step)
  have "u = s \<or> u = server_exited s" if "(service_step V)\<^sup>*\<^sup>* s u" for u
    using that by (rule converse_rtranclpE) (use dead no_operation_step [OF assms(1)] in auto)
  moreover have "(service_step V)\<^sup>*\<^sup>* s (server_exited s)" using assms no_operation_step by blast
  ultimately show ?thesis by blast
qed

section \<open>The way back to the listener\<close>

definition waits_on :: "operation \<Rightarrow> server \<Rightarrow> bool" where
  "waits_on p s \<longleftrightarrow> sv_pending s = [p] \<and> alive s"

lemma waits_on_finish: "waits_on p s \<Longrightarrow> ready p s \<and> sv_pending (finish p s) = [] \<and> alive (finish p s) \<and>
    sv_error (finish p s) = None \<and> sv_exit (finish p s) = None"
  by (simp add: waits_on_def ready_def finish_def alive_def)

lemma shutdown_returns:
  assumes "waits_on (Shutdown i) s" "\<forall>n c. se_acceptor V n c = None"
  shows "\<exists>t. service_step V s t \<and> waits_on Accept t \<and> AccListen \<in> set (sv_acceptor t)"
proof -
  let ?t = "escape (on_shutdown V i None (finish (Shutdown i) s))"
  note f = waits_on_finish [OF assms(1)]
  have "waits_on Accept ?t \<and> AccListen \<in> set (sv_acceptor ?t)"
    using f assms(2)
    by (simp add: on_shutdown_def listener_reset_def acceptor_close_def create_acceptor_def acceptor_step_def ebind_def
        escape_def listener_run_def do_accept_def start_operation_def waits_on_def alive_def)
  then show ?thesis using f service_step.shutdown_done [of i s V None] by blast
qed

lemma operation_steps:
  "waits_on (Read i) s \<Longrightarrow> \<exists>t. service_step V s t \<and> waits_on (Shutdown i) t"
  "waits_on (Handshake i) s \<Longrightarrow> \<exists>t. service_step V s t \<and> waits_on (Shutdown i) t"
  "waits_on (RunSession i) s \<Longrightarrow> \<exists>t. service_step V s t \<and> waits_on (Handshake i) t"
  "waits_on (Write i c) s \<Longrightarrow> \<exists>t. service_step V s t \<and> (waits_on (Shutdown i) t \<or> waits_on (Read i) t)"
proof -
  show "\<exists>t. service_step V s t \<and> waits_on (Shutdown i) t" if "waits_on (Read i) s"
    using waits_on_finish [OF that] read_done [of i s V EndOfStream]
    by (intro exI conjI) (auto simp: on_read_def waits_on_def alive_def do_close_def start_operation_def)
  show "\<exists>t. service_step V s t \<and> waits_on (Shutdown i) t" if "waits_on (Handshake i) s"
    using waits_on_finish [OF that] handshake_done [of i s V "Some []"]
    by (intro exI conjI) (auto simp: on_handshake_def waits_on_def alive_def do_close_def start_operation_def)
  show "\<exists>t. service_step V s t \<and> waits_on (Handshake i) t" if "waits_on (RunSession i) s"
    using waits_on_finish [OF that] session_started [of i s V]
    by (intro exI conjI) (auto simp: on_run_def waits_on_def alive_def start_operation_def)
  show "\<exists>t. service_step V s t \<and> (waits_on (Shutdown i) t \<or> waits_on (Read i) t)" if "waits_on (Write i c) s"
    using waits_on_finish [OF that] write_done [of i c s V None]
    by (intro exI conjI) (auto simp: on_write_def do_close_def do_read_def waits_on_def alive_def start_operation_def split: if_splits)
qed

lemma service_returns:
  assumes "waits_on p s" "service_ok s" "\<forall>n c. se_acceptor V n c = None"
  shows "\<exists>t. (service_step V)\<^sup>*\<^sup>* s t \<and> waits_on Accept t \<and> AccListen \<in> set (sv_acceptor t)"
proof -
  let ?good = "\<lambda>s. \<exists>t. (service_step V)\<^sup>*\<^sup>* s t \<and> waits_on Accept t \<and> AccListen \<in> set (sv_acceptor t)"
  have onward: "?good s" if "service_step V s t" "?good t" for s t
    using that by (blast intro: converse_rtranclp_into_rtranclp)
  have shut: "?good s" if "waits_on (Shutdown i) s" for s i
    using shutdown_returns [OF that assms(3)] onward by blast
  have read: "?good s" if "waits_on (Read i) s" for s i
    using operation_steps(1) [OF that] shut onward by blast
  have hand: "?good s" if "waits_on (Handshake i) s" for s i
    using operation_steps(2) [OF that] shut onward by blast
  show ?thesis
  proof (cases p)
    case Accept
    with assms show ?thesis by (intro exI [of _ s]) (auto simp: waits_on_def alive_def service_ok_def)
  next
    case AcceptAborted
    with assms show ?thesis by (auto simp: waits_on_def alive_def service_ok_def)
  next
    case (RunSession i)
    with assms(1) operation_steps(3) [of i s] show ?thesis using hand onward by blast
  next
    case (Write i c)
    with assms(1) operation_steps(4) [of i c s] show ?thesis using shut read onward by blast
  qed (use assms(1) shut read hand in auto)
qed

text \<open>An accept, a read or a write that fails leaves no operation outstanding.\<close>

lemma failure_stops:
  assumes "waits_on p s" "p = Accept \<or> (\<exists>i. p = Read i) \<or> (\<exists>i c. p = Write i c)"
  shows "\<exists>t. service_step V s t \<and> sv_pending t = [] \<and> alive t \<and> sv_acceptor t = sv_acceptor s \<and>
    sv_signal_wait t = sv_signal_wait s"
proof -
  note f = waits_on_finish [OF assms(1)]
  have "service_step V s (finish p s)"
    using assms(2) f accepted [of s V "Some []" None] read_done [of _ s V "ReadError []"] write_done [of _ _ s V "Some []"]
    by (auto simp: on_accept_def on_read_def on_write_def)
  with f show ?thesis by (intro exI [of _ "finish p s"]) simp
qed

end
