(* ===== verification/Service_Claims.thy ===== *)
theory Service_Claims
  imports Workflow_Service
begin

text \<open>
  The properties of the web service (theories \<open>Http_Service\<close> and \<open>Workflow_Service\<close>), with an instance of its
  environment: a file system with the one file \<open>/srv/index.html\<close> and an acceptor that never fails.
\<close>

section \<open>An instance of the environment\<close>

definition sample_files :: file_api where
  "sample_files = \<lparr>beast_version = ''Boost.Beast/345'',
     file_open = (\<lambda>f. if f = ''/srv/index.html'' then None else Some NoSuchFileOrDirectory),
     file_content = (\<lambda>_. ''<html/>''), file_read_fails = (\<lambda>_. False), success_message = ''Success''\<rparr>"

definition sample_service_env :: service_env where
  "sample_service_env = \<lparr>se_files = sample_files, se_acceptor = (\<lambda>_ _. None),
     se_need_eof = (\<lambda>res. rs_content_length res = None), se_chain_error = (\<lambda>_. None), se_key_error = (\<lambda>_. None), se_make_address = (\<lambda>_. None)\<rparr>"

definition sample_ci :: ConnectionInfo where
  "sample_ci = \<lparr>ci_address = ''127.0.0.1'', ci_port = 65616, ci_doc_root = ''/srv/'', ci_threads = 4, ci_pem = ''server.pem''\<rparr>"

definition sample_server :: server where
  "sample_server = server_new\<lparr>sv_acceptor := [AccOpen, AccReuseAddress, AccKeepAlive, AccBind (''127.0.0.1'', 80), AccListen], sv_attempts := 1,
     sv_pending := [Accept], sv_router := [(''/index.html'', Some (DocRootEndpoint ''/srv/''))],
     sv_ctx := \<lparr>ctx_password = Some ''test'', ctx_options = {default_workarounds, no_sslv2, single_dh_use},
       ctx_chain_file = Some ''server.pem'', ctx_key_file = Some ''server.pem''\<rparr>,
     sv_endpoint := (''127.0.0.1'', 80), sv_doc_root := ''/srv/'', sv_signal_wait := True\<rparr>"

lemma ucast_65616: "(ucast (65616 :: 32 word) :: 16 word) = 80"
  by code_simp

lemma sample_service_started: "WorkflowService_new sample_service_env sample_ci server_new = (Inr (80, []), sample_server)"
  by (simp add: WorkflowService_new_def sample_service_env_def sample_ci_def create_acceptor_def acceptor_step_def ebind_def
      spawn_threads_def register_endpoint_def listener_run_def do_accept_def start_operation_def sample_server_def server_new_def
      ucast_65616 on_ctx_def load_server_cert_def use_certificate_chain_file_def use_private_key_file_def ssl_context_new_def
      make_https_listener_def HTTPSListener_new_def signals_async_wait_def)

lemma sample_server_waits: "waits_on Accept sample_server"
  by (simp add: waits_on_def alive_def sample_server_def server_new_def)

section \<open>One connection at a time\<close>

text \<open>
  C36. In every state the running service can reach, at most one asynchronous operation is outstanding (beside the
  wait for \<open>SIGINT\<close>), and the acceptor listens: either the service waits for one connection, or it is busy with one.
\<close>

theorem service_one_operation:
  assumes "WorkflowService_new V ci server_new = (Inr r, s0)" "(service_step V)\<^sup>*\<^sup>* s0 s" "sv_error s = None"
  shows "length (sv_pending s) \<le> 1 \<and> AccListen \<in> set (sv_acceptor s)"
  using service_reachable [OF assms(1,2)] assms(3) by (simp add: service_inv_def service_ok_def)

theorem service_one_operation_witness:
  "length (sv_pending sample_server) \<le> 1 \<and> AccListen \<in> set (sv_acceptor sample_server)"
  by (rule service_one_operation [OF sample_service_started]) (simp_all add: sample_server_def server_new_def)



text \<open>
  C38. As long as an operation is outstanding and the acceptor can be set up again, the network can bring the
  service back to waiting for a connection: a session that ends with a shutdown makes the listener accept anew.
\<close>

theorem service_recovers:
  assumes "WorkflowService_new V ci server_new = (Inr r, s0)" "(service_step V)\<^sup>*\<^sup>* s0 s"
    and "sv_pending s \<noteq> []" "alive s" "\<forall>n c. se_acceptor V n c = None"
  shows "\<exists>t. (service_step V)\<^sup>*\<^sup>* s t \<and> sv_pending t = [Accept] \<and> alive t \<and> AccListen \<in> set (sv_acceptor t)"
proof -
  have ok: "service_ok s" using service_reachable [OF assms(1,2)] by (simp add: service_inv_def)
  with assms(3,4) obtain p where "waits_on p s"
    by (cases "sv_pending s") (auto simp: service_ok_def waits_on_def alive_def)
  from service_returns [OF this ok assms(5)] show ?thesis by (auto simp: waits_on_def)
qed

text \<open>A connection whose handshake is outstanding.\<close>

definition handshaking_server :: server where
  "handshaking_server = on_run 0 (finish (RunSession 0) (on_accept None None (finish Accept sample_server)))"

lemma handshaking_reachable: "(service_step sample_service_env)\<^sup>*\<^sup>* sample_server handshaking_server"
proof -
  have "ready Accept sample_server" using waits_on_finish [OF sample_server_waits] by blast
  from accepted [OF this, of sample_service_env None None]
  have "service_step sample_service_env sample_server (on_accept None None (finish Accept sample_server))" .
  moreover have "ready (RunSession 0) (on_accept None None (finish Accept sample_server))"
    by (simp add: ready_def alive_def operation_defs sample_server_def server_new_def)
  from session_started [OF this, of sample_service_env]
  have "service_step sample_service_env (on_accept None None (finish Accept sample_server)) handshaking_server"
    by (simp add: handshaking_server_def)
  ultimately show ?thesis by (meson rtranclp.simps)
qed

theorem service_recovers_witness:
  "\<exists>t. (service_step sample_service_env)\<^sup>*\<^sup>* handshaking_server t \<and> sv_pending t = [Accept] \<and> alive t"
  using service_recovers [OF sample_service_started handshaking_reachable]
  by (auto simp: handshaking_server_def alive_def operation_defs sample_server_def server_new_def sample_service_env_def)

section \<open>What is served\<close>

text \<open>
  C39. The service answers every request with exactly one response, \<open>404\<close> unless the target is
  \<open>/index.html\<close>, and the only file it ever opens is \<open>index.html\<close> in the directory it was configured with.
\<close>

theorem service_serves_index_only:
  assumes "WorkflowService_new V ci server_new = (Inr r, s0)" "(service_step V)\<^sup>*\<^sup>* s0 s"
  shows "\<exists>res. session_answer F (sv_router s) req = [res] \<and>
    (if rq_target req = ''/index.html''
     then DocRootEndpoint_call F (ci_doc_root ci) req = (True, [res]) \<and>
       snd (handle_request F (ci_doc_root ci) req) \<in> {None, Some (c_str (path_cat (ci_doc_root ci) ''/index.html''))}
     else res = not_found_handler F (rq_target req) req)"
proof -
  have router: "sv_router s = [(''/index.html'', Some (DocRootEndpoint (ci_doc_root ci)))]"
    using service_reachable [OF assms] by (simp add: service_inv_def)
  show ?thesis
  proof (cases "rq_target req = ''/index.html''")
    case True
    obtain res where res: "DocRootEndpoint_call F (ci_doc_root ci) req = (True, [res])" using DocRootEndpoint_answers by blast
    have "snd (handle_request F (ci_doc_root ci) req) \<in> {None, Some (c_str (path_cat (ci_doc_root ci) (rq_target req)))}"
      using handle_request_opens [of F "ci_doc_root ci" req "fst (handle_request F (ci_doc_root ci) req)"]
      by (cases "snd (handle_request F (ci_doc_root ci) req)") (auto simp: prod_eq_iff)
    with True res router show ?thesis
      by (simp add: session_answer_def router_at_def call_handler_def)
  next
    case False
    with router show ?thesis by (simp add: session_answer_def router_at_def)
  qed
qed

definition get_request :: "string \<Rightarrow> request" where
  "get_request target = \<lparr>rq_method = Verb_get, rq_target = target, rq_version = 11, rq_keep_alive = True\<rparr>"

theorem service_serves_index_only_witness:
  "session_answer sample_files (sv_router sample_server) (get_request ''/secret.txt'') =
     [not_found_handler sample_files ''/secret.txt'' (get_request ''/secret.txt'')]"
  using service_serves_index_only [OF sample_service_started rtranclp.rtrancl_refl, of sample_files "get_request ''/secret.txt''"]
  by (simp add: get_request_def)

text \<open>
  C40. The acceptor is bound to the configured address and the configured port modulo 65536, with the private key of
  the configured file, for which the password is always \<open>test\<close>. A number of threads of zero is refused, and any
  other number leaves the service with its one thread: the loop that should start the others runs over an empty
  vector.
\<close>

theorem service_port_and_threads:
  assumes "WorkflowService_new V ci server_new = (Inr (port, v), s)"
  shows "sv_endpoint s = (ci_address ci, port) \<and> AccBind (ci_address ci, port) \<in> set (sv_acceptor s) \<and> unat port = unat (ci_port ci) mod 65536 \<and>
    ctx_key_file (sv_ctx s) = Some (ci_pem ci) \<and> ctx_password (sv_ctx s) = Some ''test'' \<and> v = [] \<and> ci_threads ci \<noteq> 0"
  using WorkflowService_new_ok [OF assms] by (simp add: unsigned_ucast_eq take_bit_eq_mod)

theorem service_port_and_threads_witness:
  "unat (80 :: 16 word) = unat (ci_port sample_ci) mod 65536 \<and> ci_threads sample_ci \<noteq> 0"
  using service_port_and_threads [OF sample_service_started] by blast

end
