(* ===== verification/Yaml_Types.thy ===== *)
theory Yaml_Types
  imports Dag_Yaml
begin

text \<open>
  What the values are that the deserializer returns: tasks that can be cloned, and graphs that satisfy the
  invariant \<open>wf_dag\<close> of the class \<open>DAG\<close>, so that every property of graphs applies to a graph read from a
  document.
\<close>

section \<open>Results of computations\<close>

definition returns :: "('a \<Rightarrow> bool) \<Rightarrow> ('s, 'a) exec \<Rightarrow> bool" where
  "returns P m \<longleftrightarrow> (\<forall>s a t. m s = (Inr a, t) \<longrightarrow> P a)"

named_theorems returns_intros \<open>what a computation returns\<close>

lemma returnsD: "returns P m \<Longrightarrow> m s = (Inr a, t) \<Longrightarrow> P a"
  unfolding returns_def by blast

lemma returns_basic [returns_intros]:
  "P a \<Longrightarrow> returns P (eret a)" "returns P (eraise e)" "(\<And>a. r = Inr a \<Longrightarrow> P a) \<Longrightarrow> returns P (elift r)"
  by (auto simp: returns_def eret_def eraise_def elift_def)

lemma returns_ebind: "returns Q m \<Longrightarrow> (\<And>a. Q a \<Longrightarrow> returns P (k a)) \<Longrightarrow> returns P (ebind m k)"
  unfolding returns_def ebind_eq_Inr by blast

lemma returns_ebind_any [returns_intros]: "(\<And>a. returns P (k a)) \<Longrightarrow> returns P (ebind m k)"
  by (rule returns_ebind [of "\<lambda>_. True"]) (simp_all add: returns_def)

lemma returns_rethrow_as [returns_intros]: "returns P m \<Longrightarrow> returns P (rethrow_as f m)"
  by (auto simp: returns_def rethrow_as_def split: prod.splits sum.splits)

lemma returns_if [returns_intros]: "(b \<Longrightarrow> returns P m) \<Longrightarrow> (\<not> b \<Longrightarrow> returns P m') \<Longrightarrow> returns P (if b then m else m')"
  by simp

lemma returns_option [returns_intros]:
  "(z = None \<Longrightarrow> returns P m) \<Longrightarrow> (\<And>x. z = Some x \<Longrightarrow> returns P (k x)) \<Longrightarrow> returns P (case z of None \<Rightarrow> m | Some x \<Rightarrow> k x)"
  by (cases z) simp_all

lemma returns_prod [returns_intros]: "(\<And>x y. p = (x, y) \<Longrightarrow> returns P (q x y)) \<Longrightarrow> returns P (case p of (x, y) \<Rightarrow> q x y)"
  by (cases p) simp

lemma returns_efold: "(\<And>x b. P b \<Longrightarrow> returns P (f x b)) \<Longrightarrow> P b \<Longrightarrow> returns P (efold f xs b)"
  by (induction xs arbitrary: b) (auto intro: returns_basic returns_ebind)

section \<open>Tasks\<close>

text \<open>
  What is asked of the libraries: the stages their creators make have an identifier. The constructors of
  \<open>PrintStage\<close> generate one.
\<close>

definition creators_ok :: "dll_api \<Rightarrow> bool" where
  "creators_ok D \<longleftrightarrow> (\<forall>l symbol n name st. dll_stage D l symbol n name = Inr (Some st) \<longrightarrow> stage_ok st)"

lemma dynamically_load_stage_ok:
  "creators_ok D \<Longrightarrow> returns (\<lambda>z. \<forall>st. z = Some st \<longrightarrow> stage_ok st) (dynamically_load_stage D l symbol name)"
  unfolding dynamically_load_stage_def by (intro returns_intros) (auto simp: creators_ok_def)

lemma load_stage_ok:
  "creators_ok D \<Longrightarrow> list_all stage_ok sts \<Longrightarrow> returns (list_all stage_ok) (load_stage Y D n sts)"
  unfolding load_stage_def
  by (intro returns_intros returns_ebind [OF dynamically_load_stage_ok]) auto

lemma load_stages_ok: "creators_ok D \<Longrightarrow> returns (list_all stage_ok) (load_stages Y D n)"
  unfolding load_stages_def by (intro returns_intros returns_efold load_stage_ok) simp_all

lemma make_task_callback_ok:
  assumes "libuuid_ok E" "list_all stage_ok sts"
  shows "returns task_ok (make_task_callback E Y D name sts n j i)"
proof -
  have "task_ok (Task_callback_config E k sts name cb j i)" "task_ok (Task_plugin_config E k sts name pl j i)" for k cb pl
    using assms by (simp_all add: task_ok_def task_ctor_defs UUID_default_def libuuid_ok_def set_json_config_def
        set_json_initial_inputs_def)
  then show ?thesis unfolding make_task_callback_def Let_def by (intro returns_intros)
qed

lemma make_task_ok:
  assumes "libuuid_ok E" "creators_ok D"
  shows "returns task_ok (make_task E Y D n)"
proof -
  have "returns (list_all stage_ok) (if y_defined Y m then load_stages Y D m
      else ebind (elift (y_sub Y n TASK_KEY)) (\<lambda>_. eret []))" for m
    by (intro returns_intros load_stages_ok assms(2)) simp_all
  moreover have "task_ok (Task_label_config E k sts name j i)" if "list_all stage_ok sts" for k sts name j i
    using assms(1) that by (simp add: task_ok_def task_ctor_defs UUID_default_def libuuid_ok_def set_json_config_def
        set_json_initial_inputs_def)
  ultimately show ?thesis
    unfolding make_task_def
    by (intro returns_ebind_any returns_ebind [of "list_all stage_ok"])
      (auto intro!: returns_intros make_task_callback_ok assms(1))
qed

section \<open>Graphs\<close>

definition deserialized :: "DAG \<Rightarrow> store \<Rightarrow> bool" where
  "deserialized d s \<longleftrightarrow> unconnected d s \<and> distinct (graph_of d) \<and> config_of d \<noteq> None \<and>
     (\<forall>a \<in> set (graph_of d). owners s a = 1 \<and> vertex_ok (the (vert s a)))"

lemma deserialized_same_cells: "same_cells s t \<Longrightarrow> deserialized d s \<Longrightarrow> deserialized d t"
  unfolding deserialized_def using unconnected_same_cells [of s t d]
  by (auto simp: same_cells_vert same_cells_def owners_def)

lemma add_vertex_deserialized:
  assumes L: "libuuid_ok L" and d: "deserialized d s" and v: "v_edges v = []" "v_in v = 0" "vertex_ok v"
    and add: "add_vertex L d v s = ((b, d', left), t)"
  shows "deserialized d' t"
proof (cases "v_uuid v \<in> uuid_of s ` set (graph_of d)")
  case True
  have "\<forall>a \<in> set (graph_of d). vert s a \<noteq> None" using d by (force simp: deserialized_def unconnected_def)
  from add_vertex_old [OF L this True] add d show ?thesis by simp
next
  case False
  have un: "unconnected d s" and alive: "\<forall>a \<in> set (graph_of d). vert s a \<noteq> None"
    using d by (force simp: deserialized_def unconnected_def)+
  have d': "d' = d\<lparr>graph_of := graph_of d @ [brk s]\<rparr>" "t = alloc v s"
    using add_vertex_new [OF L alive False] add by (auto simp: alloc_def)
  have "brk s \<notin> set (graph_of d)" using alive un by (auto simp: unconnected_def wf_store_def)
  moreover have "unconnected d' t" using add_vertex_unconnected [OF L un v(1,2) add] by blast
  moreover have "owners (alloc v s) c = (if c = brk s then 1 else owners s c)" for c
    by (simp add: owners_def alloc_def)
  ultimately show ?thesis
    using d v(3) by (auto simp: deserialized_def d' vert_alloc)
qed

lemma make_vertex_deserialized:
  assumes L: "libuuid_ok E" "creators_ok D" and d: "deserialized d (heap s)" and run: "make_vertex E Y D n d s = (Inr d', t)"
  shows "deserialized d' (heap t)"
proof -
  have "keeps_heap (optional_task E Y D m)" for m
    unfolding optional_task_def by (intro keeps_heap_intros)
  note keep = keeps_heapD [OF this]
  have "returns (\<lambda>z. \<forall>t. z = Some t \<longrightarrow> task_ok t) (optional_task E Y D m)" for m
    unfolding optional_task_def by (intro returns_if returns_ebind [OF make_task_ok [OF L]] returns_basic) simp_all
  note task_ok = returnsD [OF this]
  obtain name u m task s1 where task: "optional_task E Y D m s = (Inr task, s1)"
    and add: "insert_vertex E (DAGVertex_label_task_uuid name task u) d s1 = (Inr d', t)"
    using run unfolding make_vertex_def ebind_eq_Inr elift_def prod.inject by blast
  obtain b left h where "add_vertex E d (DAGVertex_label_task_uuid name task u) (heap s1) = ((b, d', left), h)" "heap t = h"
    using add by (auto simp: insert_vertex_def split: prod.splits)
  moreover note add_vertex_deserialized [OF L(1) deserialized_same_cells [OF keep [OF task] d] _ _ _ this(1)]
  ultimately show ?thesis
    using task_ok [OF task] by (auto simp: DAGVertex_label_task_uuid_def vertex_ok_def split: option.split)
qed

lemma efold_make_vertex_deserialized:
  assumes L: "libuuid_ok E" "creators_ok D"
  shows "deserialized d (heap s) \<Longrightarrow> efold (make_vertex E Y D) ns d s = (Inr d', t) \<Longrightarrow> deserialized d' (heap t)"
proof (induction ns arbitrary: d s)
  case (Cons n ns)
  obtain d1 s1 where "make_vertex E Y D n d s = (Inr d1, s1)" "efold (make_vertex E Y D) ns d1 s1 = (Inr d', t)"
    using Cons.prems(2) by (auto simp: ebind_eq_Inr)
  with Cons.IH [OF make_vertex_deserialized [OF L Cons.prems(1) this(1)] this(2)] show ?case by simp
qed auto

lemma titled_dag_config: "titled_dag Y n j s = (Inr d, t) \<Longrightarrow> config_of d \<noteq> None"
  by (auto simp: titled_dag_def ebind_eq_Inr DAG_title_config_def DAG_config_def split: if_splits)

lemma make_defined_dag_deserialized:
  assumes L: "libuuid_ok E" "creators_ok D" and st: "wf_store (heap s)" and run: "make_defined_dag E Y D n s = (Inr d, t)"
  shows "deserialized d (heap t)"
proof -
  obtain j ret s2 v where ret: "titled_dag Y n j s = (Inr ret, s2)"
      and rest: "(if y_defined Y v then make_vertices E Y D v ret
        else ebind (elift full_sample_output) (\<lambda>_. eret ret)) s2 = (Inr d, t)"
    using run unfolding make_defined_dag_def ebind_eq_Inr elift_def prod.inject by blast
  note e = titled_dag_empty [OF ret]
  then have start: "deserialized ret (heap s2)"
    using unconnected_empty [OF st] titled_dag_config [OF ret] by (simp add: deserialized_def)
  show ?thesis
  proof (cases "y_defined Y v")
    case True
    with rest obtain ns where "efold (make_vertex E Y D) ns ret s2 = (Inr d, t)"
      by (auto simp: make_vertices_def throw_wrong_type_def ebind_eq_Inr split: if_splits)
    with efold_make_vertex_deserialized [OF L start] show ?thesis by blast
  next
    case False
    with rest start show ?thesis by (auto simp: ebind_eq_Inr)
  qed
qed

lemma make_dag_deserialized:
  assumes "libuuid_ok E" "creators_ok D" "wf_store (heap s)" "make_dag E Y D n s = (Inr d, t)"
  shows "deserialized d (heap t)"
proof -
  have "make_dag_body E Y D n s = (Inr d, t)"
    using assms(4) by (auto simp: make_dag_def split: prod.splits sum.splits)
  then obtain m where "make_defined_dag E Y D m s = (Inr d, t)"
    by (auto simp: make_dag_body_def ebind_eq_Inr throw_wrong_type_def split: if_splits)
  from make_defined_dag_deserialized [OF assms(1-3) this] show ?thesis .
qed

lemma deserialized_wf_dag:
  assumes d: "deserialized d s" and ids: "distinct (map (uuid_of s) (graph_of d))" "0 \<notin> uuid_of s ` set (graph_of d)"
    and len: "length (graph_of d) < 2 ^ 64"
  shows "wf_dag d s"
proof -
  have un: "unconnected d s" using d by (simp add: deserialized_def)
  have "wf_vertex s (graph_of d) a" if a: "a \<in> set (graph_of d)" for a
  proof -
    obtain v where v: "vert s a = Some v" "v_edges v = []" "v_in v = 0" using un a by (auto simp: unconnected_def)
    moreover have "vertex_ok v" using d a v(1) by (force simp: deserialized_def)
    moreover have "preds s (graph_of d) a = {}" by (simp add: preds_arcs unconnected_arcs [OF un])
    ultimately show ?thesis by (simp add: wf_vertex_def succs_def)
  qed
  then have "wf_graph s (graph_of d)" using d ids(1) len by (simp add: wf_graph_def deserialized_def)
  moreover have "wf_store s" using un by (simp add: unconnected_def)
  moreover have "owners s a = 1 \<and> uuid_of s a \<noteq> 0" if "a \<in> set (graph_of d)" for a
    using that d ids(2) by (metis deserialized_def imageI)
  ultimately show ?thesis using d unconnected_arcs [OF un] by (simp add: wf_dag_def deserialized_def acyclic_def)
qed

lemma make_dag_wf_dag:
  assumes L: "libuuid_ok E" "creators_ok D" and st: "wf_store (heap s)" and run: "make_dag E Y D n s = (Inr d, t)"
    and ids: "0 \<notin> uuid_of (heap t) ` set (graph_of d)" and len: "length (graph_of d) < 2 ^ 64"
  shows "wf_dag d (heap t)"
proof -
  from make_dag_summary [OF L(1) st run] obtain ks where "summary d (heap t) = fold add_key ks []" by blast
  moreover have "map (uuid_of (heap t)) (graph_of d) = map snd (summary d (heap t))" by (simp add: summary_def)
  ultimately have "distinct (map (uuid_of (heap t)) (graph_of d))" using distinct_fold_add_key [of "[]" ks] by simp
  with deserialized_wf_dag [OF make_dag_deserialized [OF L st run] _ ids len] show ?thesis by blast
qed

end
