(* ===== verification/Dag_Remove.thy ===== *)
theory Dag_Remove
  imports Dag_Safety
begin

text \<open>
  Removing vertices. The scan clears the edges of the vertex it removes and takes them off the
  counters of their targets, but the edges that point \<^emph>\<open>to\<close> the removed vertex stay in their owners
  and dangle. Removing a vertex that nothing points to keeps the invariant; that is the case
  \<open>process_dag\<close> relies on.
\<close>

section \<open>One removal\<close>

lemma vert_sub_fold:
  assumes "distinct (map e_connection es)" "None \<notin> set (map e_connection es)"
  shows "vert (fold (\<lambda>e s. case lock s (e_connection e) of None \<Rightarrow> s
      | Some a \<Rightarrow> upd_vertex a sub_incomming_edge s) es s) c =
    map_option (\<lambda>v. v\<lparr>v_in := v_in v - (if Some c \<in> set (map e_connection es) then 1 else 0)\<rparr>) (vert s c)"
  using assms
proof (induction es arbitrary: s)
  case Nil
  then show ?case by (cases "vert s c") simp_all
next
  case (Cons e es)
  then obtain b where b: "e_connection e = Some b" by (cases "e_connection e") auto
  let ?s = "case lock s (e_connection e) of None \<Rightarrow> s | Some a \<Rightarrow> upd_vertex a sub_incomming_edge s"
  have "vert ?s c = (if c = b then map_option sub_incomming_edge (vert s c) else vert s c)"
    by (cases "vert s b") (auto simp: b)
  moreover have "Some b \<notin> set (map e_connection es)" using Cons.prems b by auto
  ultimately show ?case
    using Cons.IH [of ?s] Cons.prems b by (cases "vert s c") (auto simp: sub_incomming_edge_def)
qed

lemma rewires_sub_fold:
  "rewires UNIV s (fold (\<lambda>e s. case lock s (e_connection e) of None \<Rightarrow> s
      | Some a \<Rightarrow> upd_vertex a sub_incomming_edge s) es s)"
proof (induction es arbitrary: s)
  case (Cons e es)
  have "rewires UNIV s (case lock s (e_connection e) of None \<Rightarrow> s | Some a \<Rightarrow> upd_vertex a sub_incomming_edge s)"
    by (auto split: option.split intro!: rewires_upd_vertex simp: sub_incomming_edge_def)
  with Cons.IH show ?case by (auto intro: rewires_trans)
qed simp

lemma rewires_remove_found: "rewires UNIV s (remove_found x s)"
  unfolding remove_found_def
  by (rule rewires_trans [OF rewires_sub_fold]) (auto intro!: rewires_upd_vertex simp: clear_edges_def)

lemma vert_remove_found:
  assumes "wf_graph s g" "a \<in> set g"
  shows "vert (remove_found a s) c = map_option (\<lambda>v. v\<lparr>v_in := v_in v - (if (a, c) \<in> arcs s g then 1 else 0),
      v_edges := (if c = a then [] else v_edges v)\<rparr>) (vert s c)"
proof -
  from assms obtain v where v: "vert s a = Some v" "distinct (succs s a)" "set (succs s a) \<subseteq> Some ` set g"
    by (rule wf_graphE)
  then have es: "distinct (map e_connection (v_edges v))" "None \<notin> set (map e_connection (v_edges v))"
    by (auto simp: succs_def)
  have "(a, c) \<in> arcs s g \<longleftrightarrow> Some c \<in> set (map e_connection (v_edges v))"
    using assms(2) v(1) by (simp add: arcs_def succs_def)
  then show ?thesis
    using v(1) vert_sub_fold [OF es, of s c]
    by (cases "vert s c") (auto simp: remove_found_def clear_edges_def)
qed

lemma remove_scan_one:
  assumes "distinct xs" "a \<in> set xs"
    and "\<And>x t. x \<in> set xs \<Longrightarrow> t = s \<or> t = remove_found a s \<Longrightarrow> x \<noteq> a \<Longrightarrow> \<not> found x t" "found a s"
  shows "remove_scan found xs s = ((filter (\<lambda>x. x \<noteq> a) xs, [a]), remove_found a s)"
proof -
  have none: "remove_scan found ys t = ((ys, []), t)" if "\<forall>y \<in> set ys. \<not> found y t" for ys t
    using that by (induction ys) auto
  show ?thesis using assms
  proof (induction xs)
    case (Cons x xs)
    show ?case
    proof (cases "x = a")
      case True
      with Cons.prems have "\<forall>y \<in> set xs. \<not> found y (remove_found a s)" by auto
      moreover have "filter (\<lambda>x. x \<noteq> a) xs = xs" using Cons.prems True by (auto simp: filter_id_conv)
      ultimately show ?thesis using True Cons.prems none by simp
    next
      case False
      with Cons.prems have "remove_scan found xs s = ((filter (\<lambda>x. x \<noteq> a) xs, [a]), remove_found a s)"
        by (intro Cons.IH) auto
      with False Cons.prems show ?thesis by simp
    qed
  qed simp
qed

text \<open>The graph and the store after \<open>a\<close> was removed.\<close>

definition without :: "DAG \<Rightarrow> addr \<Rightarrow> DAG" where
  "without d a = d\<lparr>graph_of := filter (\<lambda>x. x \<noteq> a) (graph_of d)\<rparr>"

lemma remove_vertex_here:
  assumes "libuuid_ok L" "wf_graph s (graph_of d)" "a \<in> set (graph_of d)"
  shows "remove_vertex L d (ByAddr a) s = ((True, without d a), release a (remove_found a s))"
proof -
  have "\<not> vertex_eq L (the (vert t x)) (the (vert t a))"
    if "x \<in> set (graph_of d)" "t = s \<or> t = remove_found a s" "x \<noteq> a" for x t
  proof -
    have "uuid_of t = uuid_of s"
      using that(2) by (auto simp: fun_eq_iff rewires_uuid [OF rewires_remove_found])
    then have "uuid_of t x \<noteq> uuid_of t a"
      using wf_graph_uuid_inj [OF assms(2) that(1) assms(3)] that(3) by simp
    then show ?thesis using vertex_eq_uuid [OF assms(1)] by (fastforce simp: uuid_of_def)
  qed
  then have "remove_scan (\<lambda>x s. vertex_eq L (the (vert s x)) (vref_get s (ByAddr a))) (graph_of d) s =
      ((filter (\<lambda>x. x \<noteq> a) (graph_of d), [a]), remove_found a s)"
    using wf_graph_distinct [OF assms(2)] assms(3) by (intro remove_scan_one) auto
  then show ?thesis by (simp add: remove_vertex_def remove_if_def without_def)
qed

lemma remove_by_uuid_here:
  assumes "libuuid_ok L" "wf_graph s (graph_of d)" "a \<in> set (graph_of d)"
  shows "remove_vertex_by_uuid L d (uuid_of s a) s = ((True, without d a), release a (remove_found a s))"
proof -
  have "\<not> uuid_eq L (uuid_of t x) (uuid_of s a)"
    if "x \<in> set (graph_of d)" "t = s \<or> t = remove_found a s" "x \<noteq> a" for x t
  proof -
    have "uuid_of t = uuid_of s"
      using that(2) by (auto simp: fun_eq_iff rewires_uuid [OF rewires_remove_found])
    then show ?thesis
      using wf_graph_uuid_inj [OF assms(2) that(1) assms(3)] that(3) by (simp add: uuid_eq_iff [OF assms(1)])
  qed
  then have "remove_scan (\<lambda>x t. uuid_eq L (uuid_of t x) (uuid_of s a)) (graph_of d) s =
      ((filter (\<lambda>x. x \<noteq> a) (graph_of d), [a]), remove_found a s)"
    using wf_graph_distinct [OF assms(2)] assms(3)
    by (intro remove_scan_one) (auto simp: uuid_eq_iff [OF assms(1)])
  then show ?thesis by (simp add: remove_vertex_by_uuid_def remove_if_def without_def)
qed

lemma vert_release:
  assumes "owners s a = 1"
  shows "vert (release a s) c = (if c = a then None else vert s c)"
  using assms by (auto simp: release_def vert_def owners_def split: option.splits)

text \<open>The store after the removal, when the graph was the only owner.\<close>

lemma vert_removed:
  assumes "wf_graph s g" "a \<in> set g" "owners s a = 1"
  shows "vert (release a (remove_found a s)) c = (if c = a then None else
    map_option (\<lambda>v. v\<lparr>v_in := v_in v - (if (a, c) \<in> arcs s g then 1 else 0)\<rparr>) (vert s c))"
proof -
  obtain v where "vert s a = Some v" using assms(1,2) wf_graph_alive by blast
  then have "owners (remove_found a s) a = 1"
    using rewires_vert [OF rewires_remove_found] assms(3) by metis
  then show ?thesis
    by (cases "vert s c") (simp_all add: vert_release vert_remove_found [OF assms(1,2)])
qed

lemma removed_facts:
  assumes "wf_graph s g" "a \<in> set g" "owners s a = 1"
  defines "t \<equiv> release a (remove_found a s)"
  shows "c \<noteq> a \<Longrightarrow> succs t c = succs s c" "c \<noteq> a \<Longrightarrow> uuid_of t c = uuid_of s c"
    "c \<noteq> a \<Longrightarrow> owners t c = owners s c" "brk t = brk s"
    "arcs t (filter (\<lambda>x. x \<noteq> a) g) = arcs s g - {a} \<times> UNIV"
proof -
  note v = vert_removed [OF assms(1-3), folded t_def]
  show suc: "succs t c = succs s c" if "c \<noteq> a" for c
    using that by (auto simp: succs_def v split: option.split)
  show "uuid_of t c = uuid_of s c" if "c \<noteq> a"
    using that by (cases "vert s c") (simp_all add: uuid_of_def v)
  show "owners t c = owners s c" if "c \<noteq> a"
  proof (cases "vert s c")
    case None
    then show ?thesis using v [of c] that by (auto simp: owners_def vert_def split: option.split)
  next
    case (Some w)
    then have "owners (remove_found a s) c = owners s c"
      using rewires_vert [OF rewires_remove_found] by metis
    then show ?thesis using that by (simp add: t_def release_def owners_def)
  qed
  show "brk t = brk s"
    using rewires_brk [OF rewires_remove_found] by (simp add: t_def release_def)
  show "arcs t (filter (\<lambda>x. x \<noteq> a) g) = arcs s g - {a} \<times> UNIV"
    using suc by (auto simp: arcs_def)
qed

text \<open>Removing a vertex without incoming arcs.\<close>

lemma remove_source_wf:
  assumes wf: "wf_dag d s" and a: "a \<in> set (graph_of d)" and src: "preds s (graph_of d) a = {}"
  defines "t \<equiv> release a (remove_found a s)"
  shows "wf_dag (without d a) t"
    "arcs t (graph_of (without d a)) = arcs s (graph_of d) - {a} \<times> UNIV"
proof -
  let ?g = "graph_of d" and ?h = "filter (\<lambda>x. x \<noteq> a) (graph_of d)"
  note w = wf_dagD [OF wf]
  note v = vert_removed [OF w(2) a w(5) [OF a], folded t_def]
    and f = removed_facts [OF w(2) a w(5) [OF a], folded t_def]
  show arcs: "arcs t (graph_of (without d a)) = arcs s ?g - {a} \<times> UNIV" using f(5) by (simp add: without_def)
  have pr: "preds t ?h c = preds s ?g c - {a}" for c
    unfolding preds_arcs f(5) by auto
  have "wf_vertex t ?h c" if c: "c \<in> set ?h" for c
  proof -
    from c have c': "c \<in> set ?g" "c \<noteq> a" by auto
    from w(2) c'(1) obtain x where x: "vert s c = Some x" "vertex_ok x" "distinct (succs s c)"
      "set (succs s c) \<subseteq> Some ` set ?g" "v_in x = of_nat (card (preds s ?g c))" by (rule wf_graphE)
    have "Some a \<notin> set (succs s c)" using src c'(1) by (auto simp: preds_def)
    moreover have "v_in x - (if (a, c) \<in> arcs s ?g then 1 else 0) = of_nat (card (preds s ?g c - {a}))"
    proof (cases "(a, c) \<in> arcs s ?g")
      case True
      then have "card (preds s ?g c) = Suc (card (preds s ?g c - {a}))"
        by (intro card.remove) (simp_all, simp add: preds_arcs)
      with True x(5) show ?thesis by simp
    next
      case False
      then have "preds s ?g c - {a} = preds s ?g c" by (auto simp: preds_arcs)
      with False x(5) show ?thesis by simp
    qed
    ultimately show ?thesis
      using x c'(2) f(1) by (auto simp: wf_vertex_def v pr vertex_ok_def)
  qed
  moreover have "distinct (map (uuid_of t) ?h)"
  proof -
    have "map (uuid_of t) ?h = map (uuid_of s) ?h" using f(2) by (intro map_cong) auto
    then show ?thesis using distinct_map_filter [OF wf_graph_uuids [OF w(2)]] by metis
  qed
  moreover have "length ?h < 2 ^ 64"
    using wf_graph_length [OF w(2)] length_filter_le [of "\<lambda>x. x \<noteq> a" ?g] by linarith
  ultimately have "wf_graph t ?h" using wf_graph_distinct [OF w(2)] by (simp add: wf_graph_def)
  moreover have "acyclic (arcs s ?g - {a} \<times> UNIV)" using w(3) by (rule acyclic_subset) blast
  moreover have "wf_store t" using w(1) by (auto simp: wf_store_def v f(4))
  ultimately show "wf_dag (without d a) t"
    using w(4-6) f(2,3) arcs by (auto simp: wf_dag_def without_def)
qed

text \<open>Removing any other vertex leaves dangling edges behind.\<close>

lemma remove_dangling:
  assumes wf: "wf_dag d s" and ca: "(c, a) \<in> arcs s (graph_of d)"
  defines "t \<equiv> release a (remove_found a s)"
  shows "c \<in> set (graph_of (without d a))" "Some a \<in> set (succs t c)" "expired t (Some a)"
    "\<not> wf_graph t (graph_of (without d a))"
proof -
  note w = wf_dagD [OF wf]
  have a: "a \<in> set (graph_of d)" and c: "c \<in> set (graph_of d)" using ca arcs_in_graph [OF w(2)] by auto
  have "c \<noteq> a" using w(3) ca by (auto simp: acyclic_def)
  note v = vert_removed [OF w(2) a w(5) [OF a], folded t_def]
    and f = removed_facts [OF w(2) a w(5) [OF a], folded t_def]
  show c': "c \<in> set (graph_of (without d a))" using c \<open>c \<noteq> a\<close> by (simp add: without_def)
  show s: "Some a \<in> set (succs t c)" using f(1) \<open>c \<noteq> a\<close> ca by (simp add: arcs_def)
  show "expired t (Some a)" by (simp add: v)
  show "\<not> wf_graph t (graph_of (without d a))"
    using wf_graph_succ_in [OF _ c' s] by (auto simp: without_def)
qed

end
