(* ===== verification/Dag_Api.thy ===== *)
theory Dag_Api
  imports Dag_Remove
begin

text \<open>
  The operations of \<open>DAG\<close> together. The locale \<open>guarded_arcs\<close> is what a client of \<open>connect\<close> may rely on:
  an arc is either added or refused with an exception, and refused exactly if it closes a cycle. The
  operations on labels are such clients. The step relation over all operations is in theory \<open>Dag_Steps\<close>.
\<close>

section \<open>The contract of connect\<close>

definition connect_pairs :: "('n \<Rightarrow> 'n \<Rightarrow> ('s, bool) exec) \<Rightarrow> ('n \<times> 'n) list \<Rightarrow> bool \<Rightarrow> ('s, bool) exec" where
  "connect_pairs connect = efold (\<lambda>p ret. ebind (connect (fst p) (snd p)) (\<lambda>r. eret (ret \<and> r)))"

locale guarded_arcs =
  fixes invar :: "'e \<Rightarrow> 's \<Rightarrow> bool"
    and nodes :: "'e \<Rightarrow> 'n set"
    and rel :: "'e \<Rightarrow> 's \<Rightarrow> ('n \<times> 'n) set"
    and connect :: "'e \<Rightarrow> 'n \<Rightarrow> 'n \<Rightarrow> ('s, bool) exec"
  assumes rel_acyclic: "invar e s \<Longrightarrow> acyclic (rel e s)"
    and connect_added: "invar e s \<Longrightarrow> a \<in> nodes e \<Longrightarrow> b \<in> nodes e \<Longrightarrow> acyclic (insert (a, b) (rel e s)) \<Longrightarrow>
      \<exists>t. connect e a b s = (Inr True, t) \<and> invar e t \<and> rel e t = insert (a, b) (rel e s)"
    and connect_refused: "invar e s \<Longrightarrow> a \<in> nodes e \<Longrightarrow> b \<in> nodes e \<Longrightarrow> \<not> acyclic (insert (a, b) (rel e s)) \<Longrightarrow>
      \<exists>t. connect e a b s = (Inl ThrowDAGException, t) \<and> invar e t \<and> rel e t = rel e s"
begin

lemma connect_pairs_added:
  assumes "invar e s" "set ps \<subseteq> nodes e \<times> nodes e" "acyclic (rel e s \<union> set ps)"
  shows "\<exists>t. connect_pairs (connect e) ps r s = (Inr r, t) \<and> invar e t \<and> rel e t = rel e s \<union> set ps"
  using assms
proof (induction ps arbitrary: s r)
  case Nil
  then show ?case by (auto simp: connect_pairs_def)
next
  case (Cons p ps)
  then have "acyclic (insert (fst p, snd p) (rel e s))"
    by (elim acyclic_subset) auto
  with connect_added [of e s "fst p" "snd p"] Cons.prems obtain t where
    t: "connect e (fst p) (snd p) s = (Inr True, t)" "invar e t" "rel e t = insert (fst p, snd p) (rel e s)"
    by auto
  with Cons.prems have "\<exists>u. connect_pairs (connect e) ps r t = (Inr r, u) \<and> invar e u \<and>
      rel e u = rel e t \<union> set ps"
    by (intro Cons.IH) auto
  with t show ?case by (auto simp: connect_pairs_def ebind_def)
qed

lemma connect_pairs_refused:
  assumes "invar e s" "set ps \<subseteq> nodes e \<times> nodes e" "\<not> acyclic (rel e s \<union> set ps)"
  shows "\<exists>t. connect_pairs (connect e) ps r s = (Inl ThrowDAGException, t) \<and> invar e t \<and>
    rel e s \<subseteq> rel e t \<and> rel e t \<subseteq> rel e s \<union> set ps"
  using assms
proof (induction ps arbitrary: s r)
  case Nil
  with rel_acyclic show ?case by simp
next
  case (Cons p ps)
  show ?case
  proof (cases "acyclic (insert (fst p, snd p) (rel e s))")
    case True
    with connect_added [of e s "fst p" "snd p"] Cons.prems obtain t where
      t: "connect e (fst p) (snd p) s = (Inr True, t)" "invar e t" "rel e t = insert (fst p, snd p) (rel e s)"
      by auto
    with Cons.prems have "\<exists>u. connect_pairs (connect e) ps r t = (Inl ThrowDAGException, u) \<and> invar e u \<and>
        rel e t \<subseteq> rel e u \<and> rel e u \<subseteq> rel e t \<union> set ps"
      by (intro Cons.IH) auto
    with t show ?thesis by (auto simp: connect_pairs_def ebind_def)
  next
    case False
    with connect_refused [of e s "fst p" "snd p"] Cons.prems show ?thesis
      by (force simp: connect_pairs_def ebind_def)
  qed
qed

text \<open>Connecting twice is connecting once; the reverse arc is refused from then on.\<close>

lemma connect_again:
  assumes "invar e s" "a \<in> nodes e" "b \<in> nodes e" "(a, b) \<in> rel e s"
  shows "\<exists>t. connect e a b s = (Inr True, t) \<and> invar e t \<and> rel e t = rel e s"
  using connect_added [OF assms(1-3)] rel_acyclic [OF assms(1)] assms(4) by (simp add: insert_absorb)

lemma connect_reverse:
  assumes "invar e s" "a \<in> nodes e" "b \<in> nodes e" "(a, b) \<in> (rel e s)\<^sup>*"
  shows "\<exists>t. connect e b a s = (Inl ThrowDAGException, t) \<and> invar e t \<and> rel e t = rel e s"
  using connect_refused [OF assms(1,3,2)] assms(4) by (auto simp: acyclic_insert)

end

definition connect_at :: "('z) env_scheme \<times> DAG \<Rightarrow> addr \<Rightarrow> addr \<Rightarrow> (store, bool) exec" where
  "connect_at e a b s = DAG_connect (fst e) (snd e) (the (vert s a)) (the (vert s b)) s"

interpretation dag: guarded_arcs "\<lambda>e s. env_ok (fst e) \<and> wf_dag (snd e) s" "\<lambda>e. set (graph_of (snd e))"
  "\<lambda>e s. arcs s (graph_of (snd e))" connect_at
proof
  fix e :: "('z) env_scheme \<times> DAG" and s :: store and a b :: addr
  assume inv: "env_ok (fst e) \<and> wf_dag (snd e) s"
  then show "acyclic (arcs s (graph_of (snd e)))" by (simp add: wf_dagD(3))
  assume ab: "a \<in> set (graph_of (snd e))" "b \<in> set (graph_of (snd e))"
  note wf = conjunct2 [OF inv] and env = conjunct1 [OF inv]
  show "\<exists>t. connect_at e a b s = (Inr True, t) \<and> (env_ok (fst e) \<and> wf_dag (snd e) t) \<and>
      arcs t (graph_of (snd e)) = insert (a, b) (arcs s (graph_of (snd e)))"
    if "acyclic (insert (a, b) (arcs s (graph_of (snd e))))"
    using DAG_connect_ok [OF env wf ab _ _ that, of "the (vert s a)" "the (vert s b)"] env
    by (auto simp: connect_at_def uuid_of_def)
  show "\<exists>t. connect_at e a b s = (Inl ThrowDAGException, t) \<and> (env_ok (fst e) \<and> wf_dag (snd e) t) \<and>
      arcs t (graph_of (snd e)) = arcs s (graph_of (snd e))"
    if "\<not> acyclic (insert (a, b) (arcs s (graph_of (snd e))))"
    using DAG_connect_cycle [OF env wf ab _ _ that, of "the (vert s a)" "the (vert s b)"] env wf
    by (auto simp: connect_at_def uuid_of_def same_cells_facts(2) intro: wf_dag_same_cells)
qed

section \<open>Connecting by label\<close>

lemma label_in_graph: "a \<in> set (find_all_verticies_with_label d l s) \<Longrightarrow> a \<in> set (graph_of d)"
  by (simp add: find_all_verticies_with_label_def)

lemma efold_append: "efold f (xs @ ys) b s = ebind (efold f xs b) (efold f ys) s"
  by (induction xs arbitrary: b s) (auto simp: ebind_def split: prod.splits sum.splits)

lemma efold_product:
  "efold (\<lambda>v. efold (f v) us) vs b s = efold (\<lambda>p. f (fst p) (snd p)) (List.product vs us) b s"
proof (induction vs arbitrary: b s)
  case (Cons v vs)
  have "efold (\<lambda>p. f (fst p) (snd p)) (map (Pair v) us) b s = efold (f v) us b s" for b s
    by (induction us arbitrary: b s) (auto simp: ebind_def split: prod.splits sum.splits)
  with Cons show ?case by (auto simp: efold_append ebind_def split: prod.splits sum.splits)
qed simp

text \<open>The loop body locks the two pointers and connects; the vertices are alive throughout.\<close>

definition label_body :: "('z) env_scheme \<Rightarrow> DAG \<Rightarrow> addr \<Rightarrow> addr \<Rightarrow> bool \<Rightarrow> (store, bool) exec" where
  "label_body E d v u ret = ebind (deref (Some v)) (\<lambda>vv. ebind (deref (Some u)) (\<lambda>vu.
     ebind (DAG_connect E d vv vu) (\<lambda>r. eret (ret \<and> r))))"

lemma label_body_connect_at:
  assumes "wf_dag d s" "v \<in> set (graph_of d)" "u \<in> set (graph_of d)"
  shows "label_body E d v u ret s = ebind (connect_at (E, d) v u) (\<lambda>r. eret (ret \<and> r)) s"
proof -
  obtain x y where "vert s v = Some x" "vert s u = Some y"
    using assms wf_graph_alive [OF wf_dagD(2) [OF assms(1)]] by blast
  then show ?thesis by (simp add: label_body_def deref_def ebind_def connect_at_def)
qed

lemma label_loop_connect_pairs:
  assumes "env_ok E" "wf_dag d s" "set ps \<subseteq> set (graph_of d) \<times> set (graph_of d)"
  shows "efold (\<lambda>p. label_body E d (fst p) (snd p)) ps r s = connect_pairs (connect_at (E, d)) ps r s"
  using assms(2,3)
proof (induction ps arbitrary: s r)
  case Nil
  then show ?case by (simp add: connect_pairs_def)
next
  case (Cons p ps)
  have p: "fst p \<in> set (graph_of d)" "snd p \<in> set (graph_of d)" and wf: "wf_dag d s"
    using Cons.prems by auto
  have step: "label_body E d (fst p) (snd p) r s = ebind (connect_at (E, d) (fst p) (snd p)) (\<lambda>x. eret (r \<and> x)) s"
    using wf p by (rule label_body_connect_at)
  show ?case
  proof (cases "acyclic (insert (fst p, snd p) (arcs s (graph_of d)))")
    case True
    with dag.connect_added [of "(E, d)" s "fst p" "snd p"] assms(1) wf p obtain t where
      t: "connect_at (E, d) (fst p) (snd p) s = (Inr True, t)" "wf_dag d t" by auto
    from Cons.IH [OF t(2)] Cons.prems(2) t(1) step show ?thesis
      by (simp add: connect_pairs_def ebind_def)
  next
    case False
    with dag.connect_refused [of "(E, d)" s "fst p" "snd p"] assms(1) wf p obtain t where
      "connect_at (E, d) (fst p) (snd p) s = (Inl ThrowDAGException, t)" by auto
    with step show ?thesis by (simp add: connect_pairs_def ebind_def)
  qed
qed

definition label_pairs :: "DAG \<Rightarrow> string \<Rightarrow> string \<Rightarrow> store \<Rightarrow> (addr \<times> addr) list" where
  "label_pairs d l1 l2 s = List.product (find_all_verticies_with_label d l1 s) (find_all_verticies_with_label d l2 s)"

lemma label_pairs_in_graph: "set (label_pairs d l1 l2 s) \<subseteq> set (graph_of d) \<times> set (graph_of d)"
  by (auto simp: label_pairs_def dest: label_in_graph)

lemma connect_all_by_label_pairs:
  assumes "env_ok E" "wf_dag d s"
  shows "connect_all_by_label E d l1 l2 s = connect_pairs (connect_at (E, d)) (label_pairs d l1 l2 s) True s"
  using label_loop_connect_pairs [OF assms label_pairs_in_graph, of l1 l2 s True]
  unfolding connect_all_by_label_def Let_def label_pairs_def label_body_def efold_product [symmetric] .

lemma connect_all_by_label_ok:
  assumes "env_ok E" "wf_dag d s" "acyclic (arcs s (graph_of d) \<union> set (label_pairs d l1 l2 s))"
  shows "\<exists>t. connect_all_by_label E d l1 l2 s = (Inr True, t) \<and> wf_dag d t \<and>
    arcs t (graph_of d) = arcs s (graph_of d) \<union> set (label_pairs d l1 l2 s)"
  using dag.connect_pairs_added [of "(E, d)" s "label_pairs d l1 l2 s" True] assms label_pairs_in_graph
  by (simp add: connect_all_by_label_pairs)

lemma connect_all_by_label_throws:
  assumes "env_ok E" "wf_dag d s" "\<not> acyclic (arcs s (graph_of d) \<union> set (label_pairs d l1 l2 s))"
  shows "\<exists>t. connect_all_by_label E d l1 l2 s = (Inl ThrowDAGException, t) \<and> wf_dag d t \<and>
    arcs s (graph_of d) \<subseteq> arcs t (graph_of d)"
  using dag.connect_pairs_refused [of "(E, d)" s "label_pairs d l1 l2 s" True] assms label_pairs_in_graph
  by (auto simp: connect_all_by_label_pairs)

section \<open>Lookup by identifier\<close>

lemma find_by_uuid_in:
  assumes "env_ok E" "wf_dag d s" "a \<in> set (graph_of d)"
  shows "find_vertex_by_uuid E d (uuid_of s a) s = Some a"
  using find_vertex_in [OF env_ok_libuuid [OF assms(1)] wf_dagD(2) [OF assms(2)] assms(3), of "the (vert s a)"]
  by (simp add: find_vertex_def uuid_of_def)

lemma find_by_uuid_snoc:
  assumes "libuuid_ok E" "graph_of d' = graph_of d @ [n]" "vert t n = Some v"
    and "\<forall>a \<in> set (graph_of d). vert t a = vert s a" "v_uuid v \<notin> uuid_of s ` set (graph_of d)"
  shows "find_vertex_by_uuid E d' u t = (if u = v_uuid v then Some n else find_vertex_by_uuid E d u s)"
proof -
  have "List.find (\<lambda>a. uuid_eq E u (uuid_of t a)) (graph_of d) = List.find (\<lambda>a. uuid_eq E u (uuid_of s a)) (graph_of d)"
    using assms(4) by (intro find_cong_set) (simp add: uuid_of_def)
  moreover have "List.find (\<lambda>a. uuid_eq E (v_uuid v) (uuid_of s a)) (graph_of d) = None"
    using uuid.find_none [OF assms(1)] assms(5) by blast
  moreover have "uuid_of t n = v_uuid v" using assms(3) by (simp add: uuid_of_def)
  ultimately show ?thesis
    using uuid_eq_iff [OF assms(1)] by (auto simp: find_vertex_by_uuid_def assms(2) find_snoc split: option.split)
qed

lemma connect_by_uuid_connect_at:
  assumes "env_ok E" "wf_dag d s" "a \<in> set (graph_of d)" "b \<in> set (graph_of d)"
  shows "connect_by_uuid E d (uuid_of s a) (uuid_of s b) s = connect_at (E, d) a b s"
proof -
  obtain x y where "vert s a = Some x" "vert s b = Some y"
    using assms wf_graph_alive [OF wf_dagD(2) [OF assms(2)]] by blast
  then show ?thesis
    using find_by_uuid_in [OF assms(1-3)] find_by_uuid_in [OF assms(1,2,4)]
    by (simp add: connect_by_uuid_def deref_def ebind_def connect_at_def)
qed

lemma connect_by_uuid_missing:
  assumes "env_ok E" "wf_dag d s"
    and "u1 \<notin> uuid_of s ` set (graph_of d) \<or> u2 \<notin> uuid_of s ` set (graph_of d)"
  shows "connect_by_uuid E d u1 u2 s = (Inl NullDeref, s)"
proof -
  have none: "u \<notin> uuid_of s ` set (graph_of d) \<Longrightarrow> find_vertex_by_uuid E d u s = None" for u
    unfolding find_vertex_by_uuid_def using env_ok_libuuid [OF assms(1)] by (simp add: uuid.find_none)
  show ?thesis
  proof (cases "find_vertex_by_uuid E d u1 s")
    case None
    then show ?thesis by (simp add: connect_by_uuid_def deref_def ebind_def)
  next
    case (Some a)
    then have "find_vertex_by_uuid E d u2 s = None" using none assms(3) by fastforce
    with Some show ?thesis
      by (auto simp: connect_by_uuid_def deref_def ebind_def split: option.splits)
  qed
qed

lemma are_connected_ok:
  assumes env: "env_ok E" and wf: "wf_dag d s" and ab: "a \<in> set (graph_of d)" "b \<in> set (graph_of d)"
    and uu: "v_uuid v1 = uuid_of s a" "v_uuid v2 = uuid_of s b"
  shows "are_connected E d v1 v2 s = Inr ((a, b) \<in> arcs s (graph_of d))"
proof -
  note w = wf_dagD [OF wf]
  obtain va vb where v: "vert s a = Some va" "vert s b = Some vb" using w(2) ab wf_graph_alive by blast
  have find: "find_vertex E d v1 s = Some a" "find_vertex E d v2 s = Some b"
    using find_vertex_in [OF env_ok_libuuid [OF env] w(2)] ab uu by auto
  have "(case lock s (e_connection e) of None \<Rightarrow> Inl NullDeref | Some c \<Rightarrow> Inr (c = b)) =
      Inr (e_connection e = Some b)" if e: "e \<in> set (v_edges va)" for e
  proof -
    have "e_connection e \<in> set (succs s a)" using e v by (simp add: succs_def)
    then obtain c where c: "c \<in> set (graph_of d)" "e_connection e = Some c"
      using wf_graph_succ_in [OF w(2) ab(1)] by blast
    then obtain vc where "vert s c = Some vc" using w(2) wf_graph_alive by blast
    with c(2) show ?thesis by simp
  qed
  then have "rmap (\<lambda>e. case lock s (e_connection e) of None \<Rightarrow> Inl NullDeref | Some c \<Rightarrow> Inr (c = b)) (v_edges va) =
      Inr (map (\<lambda>e. e_connection e = Some b) (v_edges va))"
    by (rule rmap_Inr_all)
  moreover have "(a, b) \<in> arcs s (graph_of d) \<longleftrightarrow> True \<in> set (map (\<lambda>e. e_connection e = Some b) (v_edges va))"
    using v(1) ab(1) by (force simp: arcs_def succs_def)
  ultimately show ?thesis using find v by (simp add: are_connected_def)
qed

lemma all_are_connected_ok:
  assumes env: "env_ok E" and wf: "wf_dag d s"
  shows "all_are_connected_by_label E d l1 l2 s =
    Inr (label_pairs d l1 l2 s \<noteq> [] \<and> set (label_pairs d l1 l2 s) \<subseteq> arcs s (graph_of d))"
proof -
  let ?ps = "label_pairs d l1 l2 s"
  have "(case p of (a, b) \<Rightarrow> are_connected E d (the (vert s a)) (the (vert s b)) s) =
      Inr (p \<in> arcs s (graph_of d))" if "p \<in> set ?ps" for p
  proof -
    obtain a b where p: "p = (a, b)" by (cases p)
    have "a \<in> set (graph_of d)" "b \<in> set (graph_of d)"
      using that label_pairs_in_graph [of d l1 l2 s] p by auto
    then show ?thesis unfolding p by (simp add: are_connected_ok [OF env wf] uuid_of_def)
  qed
  then have "rmap (\<lambda>(a, b). are_connected E d (the (vert s a)) (the (vert s b)) s) ?ps =
      Inr (map (\<lambda>p. p \<in> arcs s (graph_of d)) ?ps)"
    by (rule rmap_Inr_all)
  moreover have "(find_all_verticies_with_label d l1 s \<noteq> [] \<and> find_all_verticies_with_label d l2 s \<noteq> []) = (?ps \<noteq> [])"
  proof -
    have "List.product xs ys = [] \<longleftrightarrow> xs = [] \<or> ys = []" for xs ys :: "addr list"
      by (metis length_0_conv length_product mult_eq_0_iff)
    then show ?thesis by (simp add: label_pairs_def)
  qed
  moreover have "list_all (\<lambda>r. r) (map (\<lambda>p. p \<in> arcs s (graph_of d)) ?ps) = (set ?ps \<subseteq> arcs s (graph_of d))"
    by (auto simp: list_all_iff)
  ultimately show ?thesis
    unfolding all_are_connected_by_label_def Let_def label_pairs_def [symmetric] by simp
qed

section \<open>The check by label\<close>

text \<open>The flag is \<open>true\<close> when \<^emph>\<open>none\<close> of the arcs would close a cycle.\<close>

lemma cyclic_pairs_ok:
  assumes env: "env_ok E" and wf: "wf_dag d s" and ps: "set ps \<subseteq> set (graph_of d) \<times> set (graph_of d)"
  shows "\<exists>t. cyclic_pairs E d ps s = (Inr (\<forall>p \<in> set ps. acyclic (insert p (arcs s (graph_of d)))), t) \<and> same_cells s t"
  using wf ps
proof (induction ps arbitrary: s)
  case Nil
  then show ?case by simp
next
  case (Cons p ps)
  obtain a b where p: "p = (a, b)" by (cases p)
  note w = wf_dagD [OF Cons.prems(1)]
  have ab: "a \<in> set (graph_of d)" "b \<in> set (graph_of d)" using Cons.prems(2) p by auto
  obtain va where va: "vert s a = Some va" "vertex_ok va" using w(2) ab(1) by (auto elim: wf_graphE)
  obtain vb where vb: "vert s b = Some vb" "vertex_ok vb" using w(2) ab(2) by (auto elim: wf_graphE)
  obtain j where j: "config_of d = Some j" using w(4) by blast
  from would_make_cyclic_ok [OF env w(1,2) j ab va(2) _ vb(2)] va vb obtain t where
    t: "connection_would_make_cyclic E d va vb s = (Inr (\<not> acyclic (insert p (arcs s (graph_of d)))), t)"
      "same_cells s t" by (auto simp: uuid_of_def p)
  have wft: "wf_dag d t" using t(2) Cons.prems(1) by (rule wf_dag_same_cells)
  from Cons.IH [OF wft] Cons.prems(2) obtain u where
    u: "cyclic_pairs E d ps t = (Inr (\<forall>p \<in> set ps. acyclic (insert p (arcs s (graph_of d)))), u)" "same_cells t u"
    by (auto simp: same_cells_facts(2) [OF t(2)])
  have d: "deref (Some (fst p)) s = (Inr va, s)" "deref (Some (snd p)) s = (Inr vb, s)"
    using va vb by (simp_all add: p deref_def)
  show ?case
    using d t u same_cells_trans [OF t(2) u(2)]
    by (cases "acyclic (insert p (arcs s (graph_of d)))") (simp_all add: ebind_def)
qed

lemma would_make_cyclic_by_label_ok:
  assumes "env_ok E" "wf_dag d s"
  shows "\<exists>t. connection_would_make_cyclic_by_label E d l1 l2 s =
    (Inr (\<forall>p \<in> set (label_pairs d l1 l2 s). acyclic (insert p (arcs s (graph_of d)))), t) \<and> same_cells s t"
  using cyclic_pairs_ok [OF assms label_pairs_in_graph]
  by (simp add: connection_would_make_cyclic_by_label_def label_pairs_def)

end
