(* ===== verification/Dag_Steps.thy ===== *)
theory Dag_Steps
  imports Dag_Api
begin

text \<open>
  The graph as a state machine: one rule per operation, also for the calls that throw. A removal is a
  step when nothing points to the vertex (theory \<open>Dag_Remove\<close> shows what happens otherwise).
\<close>

section \<open>Adding and connecting\<close>

lemma same_uuid_vertex:
  assumes "env_ok E" "fresh_vertex v"
  obtains c where "DAGVertex_clone E v = Inr c" "v_uuid c = v_uuid v"
  using assms DAGVertex_clone_ok [of E v] by (auto simp: fresh_vertex_def same_vertex_def)

lemma wf_dag_find:
  assumes "env_ok E" "wf_dag d s" "v_uuid v \<in> uuid_of s ` set (graph_of d)"
  obtains a x where "a \<in> set (graph_of d)" "find_vertex E d v s = Some a" "v_uuid v = uuid_of s a"
    "vert s a = Some x" "v_uuid x = v_uuid v"
proof -
  from assms(3) obtain a where a: "a \<in> set (graph_of d)" "v_uuid v = uuid_of s a" by blast
  moreover from a(1) obtain x where x: "vert s a = Some x"
    using wf_graph_alive [OF wf_dagD(2) [OF assms(2)]] by blast
  moreover have "find_vertex E d v s = Some a"
    using env_ok_libuuid [OF assms(1)] wf_dagD(2) [OF assms(2)] a by (rule find_vertex_in)
  moreover have "v_uuid x = v_uuid v" using a(2) x by (simp add: uuid_of_def)
  ultimately show thesis using that by blast
qed

text \<open>Whatever \<open>connect\<close> is called with, the graph it leaves satisfies the invariant.\<close>

lemma DAG_connect_cases:
  assumes "env_ok E" "wf_dag d s" "DAG_connect E d v1 v2 s = (r, t)"
  shows "wf_dag d t" "r \<in> {Inr True, Inr False, Inl ThrowDAGException}"
    "arcs s (graph_of d) \<subseteq> arcs t (graph_of d)"
proof -
  have "wf_dag d t \<and> r \<in> {Inr True, Inr False, Inl ThrowDAGException} \<and> arcs s (graph_of d) \<subseteq> arcs t (graph_of d)"
  proof (cases "v_uuid v1 \<in> uuid_of s ` set (graph_of d) \<and> v_uuid v2 \<in> uuid_of s ` set (graph_of d)")
    case True
    then obtain a b where ab: "a \<in> set (graph_of d)" "b \<in> set (graph_of d)"
      "v_uuid v1 = uuid_of s a" "v_uuid v2 = uuid_of s b" by blast
    show ?thesis
    proof (cases "acyclic (insert (a, b) (arcs s (graph_of d)))")
      case True
      from DAG_connect_ok [OF assms(1,2) ab True] assms(3) show ?thesis by auto
    next
      case False
      from DAG_connect_cycle [OF assms(1,2) ab False] assms(2,3) show ?thesis
        by (auto simp: same_cells_facts(2) intro: wf_dag_same_cells)
    qed
  next
    case False
    with DAG_connect_missing [OF assms(1,2)] assms(2,3) show ?thesis by auto
  qed
  then show "wf_dag d t" "r \<in> {Inr True, Inr False, Inl ThrowDAGException}"
    "arcs s (graph_of d) \<subseteq> arcs t (graph_of d)" by blast+
qed

lemma add_and_connect_cases:
  assumes env: "env_ok E" and wf: "wf_dag d s" and v: "fresh_vertex v1" "fresh_vertex v2"
    and len: "length (graph_of d) + 2 < 2 ^ 64"
    and res: "add_and_connect E d v1 v2 s = ((r, d'), t)"
  shows "wf_dag d' t" "r \<in> {Inr True, Inl ThrowDAGException}"
proof -
  obtain c1 where c1: "DAGVertex_clone E v1 = Inr c1" "v_uuid c1 = v_uuid v1" using env v(1) by (rule same_uuid_vertex)
  obtain c2 where c2: "DAGVertex_clone E v2 = Inr c2" "v_uuid c2 = v_uuid v2" using env v(2) by (rule same_uuid_vertex)
  obtain r1 d1 l1 s1 where a1: "add_vertex E d v1 s = ((r1, d1, l1), s1)" by (metis prod.exhaust)
  obtain r2 d2 l2 s2 where a2: "add_vertex E d1 v2 s1 = ((r2, d2, l2), s2)" by (metis prod.exhaust)
  have len1: "length (graph_of d1) \<le> Suc (length (graph_of d))"
    using a1 by (auto simp: add_vertex_def DAGVertex_move_def UUID_move_def make_shared_def Let_def split: if_splits)
  have "wf_dag d1 s1" and in1: "v_uuid v1 \<in> uuid_of s1 ` set (graph_of d1)"
    using add_vertex_wf [OF env wf v(1) _ a1] len by auto
  with add_vertex_wf [OF env this(1) v(2) _ a2] len len1
  have wf2: "wf_dag d2 s2" and in2: "v_uuid v2 \<in> uuid_of s2 ` set (graph_of d2)"
    "v_uuid v1 \<in> uuid_of s2 ` set (graph_of d2)" by auto
  obtain a x where a: "a \<in> set (graph_of d2)" "find_vertex E d2 c1 s2 = Some a" "vert s2 a = Some x" "v_uuid x = v_uuid c1"
    using wf_dag_find [OF env wf2, of c1] in2(2) c1(2) by metis
  obtain b y where b: "b \<in> set (graph_of d2)" "find_vertex E d2 c2 s2 = Some b" "vert s2 b = Some y" "v_uuid y = v_uuid c2"
    using wf_dag_find [OF env wf2, of c2] in2(1) c2(2) by metis
  have "add_and_connect E d v1 v2 s = (case DAG_connect E d2 x y s2 of (r, s3) \<Rightarrow> ((r, d2), s3))"
    using a b by (simp add: add_and_connect_def c1(1) c2(1) a1 a2 deref_def ebind_def)
  with res have dc: "DAG_connect E d2 x y s2 = (r, t)" "d' = d2" by (auto split: prod.splits)
  then show "wf_dag d' t" using DAG_connect_cases(1) [OF env wf2] by blast
  have "r \<noteq> Inr False"
  proof (cases "acyclic (insert (a, b) (arcs s2 (graph_of d2)))")
    case True
    from DAG_connect_ok [OF env wf2 a(1) b(1) _ _ True, of x y] dc(1) a(3) b(3) show ?thesis by (auto simp: uuid_of_def)
  next
    case False
    from DAG_connect_cycle [OF env wf2 a(1) b(1) _ _ False, of x y] dc(1) a(3) b(3) show ?thesis by (auto simp: uuid_of_def)
  qed
  with DAG_connect_cases(2) [OF env wf2 dc(1)] show "r \<in> {Inr True, Inl ThrowDAGException}" by auto
qed

section \<open>Copying and resetting\<close>

lemma copied_wf_dag:
  assumes "wf_dag d s" "copied s d t d'"
  shows "wf_dag d' t"
proof -
  note w = wf_dagD [OF assms(1)] and c = copiedD [OF assms(2)]
  have "owners t a = 1 \<and> uuid_of t a \<noteq> 0" if a: "a \<in> set (graph_of d')" for a
  proof -
    from a c(1) obtain i where i: "a = brk s + i" "i < length (graph_of d)"
      by (metis atLeastLessThan_iff le_iff_add nat_add_left_cancel_less set_upt)
    with assms(2) obtain v x where "vert s (graph_of d ! i) = Some v" "vert t a = Some x" "same_vertex v x" "owners t a = 1"
      unfolding copied_def by blast
    moreover have "uuid_of s (graph_of d ! i) \<noteq> 0" using w(6) i(2) by simp
    ultimately show ?thesis by (simp add: uuid_of_def same_vertex_def)
  qed
  with w(3,4) c copied_acyclic [OF assms(2) w(2)] show ?thesis by (simp add: wf_dag_def)
qed

lemma copied_uuids:
  assumes "wf_dag d s" "copied s d t d'"
  shows "uuid_of t ` set (graph_of d') = uuid_of s ` set (graph_of d)"
proof -
  note w = wf_dagD [OF assms(1)]
  have "set (graph_of d') = copy_addr s (graph_of d) ` set (graph_of d)"
    using copiedD(1) [OF assms(2)] set_copy_addr [OF wf_graph_distinct [OF w(2)]] by metis
  then show ?thesis
    using copied_addr(2) [OF assms(2) wf_graph_distinct [OF w(2)]] by (force simp: image_iff)
qed

lemma fresh_clone:
  assumes "env_ok E" "fresh_vertex v"
  shows "\<exists>c. DAGVertex_clone E v = Inr c \<and> v_uuid c = v_uuid v \<and> fresh_vertex c"
proof -
  have ok: "vertex_ok v" using assms(2) by (simp add: fresh_vertex_def)
  obtain w where "DAGVertex_clone E v = Inr w" "vertex_ok w" "same_vertex v w" "v_edges w = []" "v_in w = 0"
    by (rule DAGVertex_clone_ok [OF assms(1) ok])
  with assms(2) show ?thesis by (simp add: fresh_vertex_def same_vertex_def)
qed

lemma wf_store_release: "wf_store s \<Longrightarrow> wf_store (release a s)"
  by (auto simp: wf_store_def vert_def release_def split: option.splits if_splits)

lemma DAG_reset_wf:
  assumes "wf_dag d s" "DAG_reset d s = (d', t)"
  shows "wf_dag d' t" "graph_of d' = []"
proof -
  have "wf_store (fold release xs s)" if "wf_store s" for xs s
    using that by (induction xs arbitrary: s) (auto intro: wf_store_release)
  with assms wf_dagD [OF assms(1)] show "wf_dag d' t" "graph_of d' = []"
    by (auto simp: DAG_reset_def wf_dag_def wf_graph_def arcs_def acyclic_def)
qed

section \<open>The cycle check on a vertex that is not in the graph\<close>

text \<open>
  The check adds a missing vertex to its clone of the graph, and then looks it up by the identifier
  of the vertex it moved from, which is null.
\<close>

lemma find_null_uuid:
  assumes "libuuid_ok L" "wf_dag d s" "v_uuid v = 0"
  shows "find_vertex L d v s = None"
  using find_vertex_None [OF assms(1)] assms(3) wf_dagD(6) [OF assms(2)] by force

lemma moved_uuid_null: "v_uuid (snd (DAGVertex_move v)) = 0"
  by (simp add: DAGVertex_move_def UUID_move_def UUID_clear_def)

lemma would_make_cyclic_missing:
  assumes env: "env_ok E" and wf: "wf_dag d s" and len: "length (graph_of d) + 2 < 2 ^ 64"
    and v1: "fresh_vertex v1" and v2: "fresh_vertex v2"
    and miss: "v_uuid v1 \<notin> uuid_of s ` set (graph_of d) \<or>
      (v_uuid v2 \<notin> uuid_of s ` set (graph_of d) \<and> v_uuid v1 \<noteq> v_uuid v2)"
  shows "\<exists>t. connection_would_make_cyclic E d v1 v2 s = (Inl NullDeref, t)"
proof -
  have L: "libuuid_ok E" using env by blast
  obtain j where "config_of d = Some j" using wf_dagD(4) [OF wf] by blast
  from DAG_copy_ok [OF env wf_dagD(1,2) [OF wf] this] obtain d0 t0 where
    cp: "DAG_clone E d s = (Inr d0, t0)" "copied s d t0 d0" by (auto simp: DAG_clone_def)
  have wf0: "wf_dag d0 t0" using copied_wf_dag [OF wf cp(2)] .
  have len0: "length (graph_of d0) = length (graph_of d)" by (simp add: copiedD(1) [OF cp(2)])
  have uu: "uuid_of t0 ` set (graph_of d0) = uuid_of s ` set (graph_of d)" by (rule copied_uuids [OF wf cp(2)])
  obtain c1 where c1: "DAGVertex_clone E v1 = Inr c1" "v_uuid c1 = v_uuid v1" "fresh_vertex c1"
    using fresh_clone [OF env v1] by blast
  obtain c2 where c2: "DAGVertex_clone E v2 = Inr c2" "v_uuid c2 = v_uuid v2" "fresh_vertex c2"
    using fresh_clone [OF env v2] by blast
  obtain r1 d1 l1 s1 where a1: "add_vertex E d0 c1 t0 = ((r1, d1, l1), s1)" by (metis prod.exhaust)
  obtain r2 d2 l2 s2 where a2: "add_vertex E d1 c2 s1 = ((r2, d2, l2), s2)" by (metis prod.exhaust)
  note w1 = add_vertex_wf [OF env wf0 c1(3) _ a1]
  have wf1: "wf_dag d1 s1" using w1(1) len len0 by simp
  have len1: "length (graph_of d1) \<le> Suc (length (graph_of d0))"
    using a1 by (auto simp: add_vertex_def DAGVertex_move_def UUID_move_def make_shared_def Let_def split: if_splits)
  have wf2: "wf_dag d2 s2" using add_vertex_wf(1) [OF env wf1 c2(3) _ a2] len len0 len1 by simp
  have "find_vertex E d2 l1 s2 = None \<or> find_vertex E d2 l2 s2 = None"
  proof (cases "v_uuid v1 \<in> uuid_of s ` set (graph_of d)")
    case False
    then have "v_uuid c1 \<notin> uuid_of t0 ` set (graph_of d0)" unfolding c1(2) uu .
    with len len0 have "add_vertex E d0 c1 t0 =
        ((True, d0\<lparr>graph_of := graph_of d0 @ [brk t0]\<rparr>, snd (DAGVertex_move c1)), alloc c1 t0)"
      by (intro add_vertex_ok [OF env wf0 c1(3)]) simp_all
    then have "l1 = snd (DAGVertex_move c1)" unfolding a1 by blast
    then show ?thesis by (simp add: find_null_uuid [OF L wf2] moved_uuid_null)
  next
    case True
    then have "v_uuid c1 \<in> uuid_of t0 ` set (graph_of d0)" unfolding c1(2) uu .
    from add_vertex_twice [OF env wf0 this] a1 have d1: "d1 = d0" "s1 = t0" by auto
    have "v_uuid c2 \<notin> uuid_of t0 ` set (graph_of d0)" unfolding c2(2) uu using True miss by blast
    with len len0 have "add_vertex E d0 c2 t0 =
        ((True, d0\<lparr>graph_of := graph_of d0 @ [brk t0]\<rparr>, snd (DAGVertex_move c2)), alloc c2 t0)"
      by (intro add_vertex_ok [OF env wf0 c2(3)]) simp_all
    then have "l2 = snd (DAGVertex_move c2)" using a2 unfolding d1 by simp
    then show ?thesis by (simp add: find_null_uuid [OF L wf2] moved_uuid_null)
  qed
  then show ?thesis
    by (auto simp: connection_would_make_cyclic_def ebind_def Let_def cp(1) c1(1) c2(1) a1 a2
        vertex_connect_def split: option.splits)
qed

section \<open>The state machine\<close>

inductive dag_step :: "('z) env_scheme \<Rightarrow> DAG \<times> store \<Rightarrow> DAG \<times> store \<Rightarrow> bool" for E where
  step_add: "fresh_vertex v \<Longrightarrow> Suc (length (graph_of d)) < 2 ^ 64 \<Longrightarrow>
    add_vertex E d v s = ((r, d', left), t) \<Longrightarrow> dag_step E (d, s) (d', t)"
| step_connect: "DAG_connect E d v1 v2 s = (rc, t) \<Longrightarrow> dag_step E (d, s) (d, t)"
| step_connect_uuid: "u1 \<in> uuid_of s ` set (graph_of d) \<Longrightarrow> u2 \<in> uuid_of s ` set (graph_of d) \<Longrightarrow>
    connect_by_uuid E d u1 u2 s = (rc, t) \<Longrightarrow> dag_step E (d, s) (d, t)"
| step_connect_label: "connect_all_by_label E d l1 l2 s = (rc, t) \<Longrightarrow> dag_step E (d, s) (d, t)"
| step_add_connect: "fresh_vertex v1 \<Longrightarrow> fresh_vertex v2 \<Longrightarrow> length (graph_of d) + 2 < 2 ^ 64 \<Longrightarrow>
    add_and_connect E d v1 v2 s = ((rc, d'), t) \<Longrightarrow> dag_step E (d, s) (d', t)"
| step_check: "vertex_ok v1 \<Longrightarrow> vertex_ok v2 \<Longrightarrow> v_uuid v1 \<in> uuid_of s ` set (graph_of d) \<Longrightarrow>
    v_uuid v2 \<in> uuid_of s ` set (graph_of d) \<Longrightarrow>
    connection_would_make_cyclic E d v1 v2 s = (rc, t) \<Longrightarrow> dag_step E (d, s) (d, t)"
| step_check_label: "connection_would_make_cyclic_by_label E d l1 l2 s = (rc, t) \<Longrightarrow> dag_step E (d, s) (d, t)"
| step_remove: "a \<in> set (graph_of d) \<Longrightarrow> preds s (graph_of d) a = {} \<Longrightarrow>
    remove_vertex E d (ByAddr a) s = ((r, d'), t) \<Longrightarrow> dag_step E (d, s) (d', t)"
| step_remove_uuid: "a \<in> set (graph_of d) \<Longrightarrow> preds s (graph_of d) a = {} \<Longrightarrow>
    remove_vertex_by_uuid E d (uuid_of s a) s = ((r, d'), t) \<Longrightarrow> dag_step E (d, s) (d', t)"
| step_clone: "DAG_clone E d s = (Inr d', t) \<Longrightarrow> dag_step E (d, s) (d', t)"
| step_reset: "DAG_reset d s = (d', t) \<Longrightarrow> dag_step E (d, s) (d', t)"

definition dag_init :: "('z) env_scheme \<Rightarrow> DAG \<times> store \<Rightarrow> bool" where
  "dag_init E ds \<longleftrightarrow> (\<exists>title j. fst ds = DAG_title_config title j) \<and> wf_store (snd ds)"

lemma dag_step_wf:
  assumes env: "env_ok E" and wf: "wf_dag d s" and step: "dag_step E (d, s) (d', t)"
  shows "wf_dag d' t"
  using step
proof cases
  case (step_add v r left)
  then show ?thesis using add_vertex_wf(1) [OF env wf] by blast
next
  case (step_connect v1 v2 rc)
  then show ?thesis using DAG_connect_cases(1) [OF env wf] by blast
next
  case (step_connect_uuid u1 u2 rc)
  then obtain a b where "a \<in> set (graph_of d)" "b \<in> set (graph_of d)" "u1 = uuid_of s a" "u2 = uuid_of s b" by blast
  with step_connect_uuid connect_by_uuid_connect_at [OF env wf] show ?thesis
    using DAG_connect_cases(1) [OF env wf] by (auto simp: connect_at_def)
next
  case (step_connect_label l1 l2 rc)
  then show ?thesis
    using connect_all_by_label_ok [OF env wf, of l1 l2] connect_all_by_label_throws [OF env wf, of l1 l2] by auto
next
  case (step_add_connect v1 v2 rc)
  then show ?thesis using add_and_connect_cases(1) [OF env wf] by blast
next
  case (step_check v1 v2 rc)
  then obtain a b where ab: "a \<in> set (graph_of d)" "b \<in> set (graph_of d)" "v_uuid v1 = uuid_of s a" "v_uuid v2 = uuid_of s b"
    by blast
  obtain j where "config_of d = Some j" using wf_dagD(4) [OF wf] by blast
  from would_make_cyclic_ok [OF env wf_dagD(1,2) [OF wf] this ab(1,2) _ ab(3) _ ab(4)] step_check wf show ?thesis
    by (auto intro: wf_dag_same_cells)
next
  case (step_check_label l1 l2 rc)
  with would_make_cyclic_by_label_ok [OF env wf, of l1 l2] wf show ?thesis by (auto intro: wf_dag_same_cells)
next
  case (step_remove a r)
  with remove_source_wf(1) [OF wf] remove_vertex_here [OF env_ok_libuuid [OF env] wf_dagD(2) [OF wf]] show ?thesis by auto
next
  case (step_remove_uuid a r)
  with remove_source_wf(1) [OF wf] remove_by_uuid_here [OF env_ok_libuuid [OF env] wf_dagD(2) [OF wf]] show ?thesis by auto
next
  case step_clone
  obtain j where "config_of d = Some j" using wf_dagD(4) [OF wf] by blast
  from DAG_copy_ok [OF env wf_dagD(1,2) [OF wf] this] step_clone show ?thesis
    using copied_wf_dag [OF wf] by (auto simp: DAG_clone_def)
next
  case step_reset
  with DAG_reset_wf(1) [OF wf] show ?thesis by blast
qed

lemma dag_init_wf: "dag_init E (d, s) \<Longrightarrow> wf_dag d s"
  by (auto simp: dag_init_def DAG_title_config_def wf_dag_def wf_graph_def arcs_def acyclic_def)

interpretation dag_machine: step_invariant env_ok dag_init dag_step "\<lambda>E ds. wf_dag (fst ds) (snd ds)"
proof
  show "wf_dag (fst ds) (snd ds)" if "dag_init E ds" for E :: "('z) env_scheme" and ds
    using that dag_init_wf by (cases ds) auto
  show "wf_dag (fst et) (snd et)" if "env_ok E" "wf_dag (fst ds) (snd ds)" "dag_step E ds et"
    for E :: "('z) env_scheme" and ds et
    using that dag_step_wf by (cases ds; cases et) auto
qed

end
