(* ===== verification/Dag_Process.thy ===== *)
theory Dag_Process
  imports Dag_Steps
begin

text \<open>
  \<open>process_dag\<close> of \<open>lib/dag_algorithms.cxx\<close>: the graph is taken apart batch by batch. A batch is the
  vertices without incoming edges; they are removed from a clone of the graph, their clones are
  recorded in \<open>out\<close>, and their tasks are handed to the scheduler's queue. The scheduler is its queue
  here: a list of the tasks in the order they were pushed (a vertex without a task pushes a null
  pointer).

  The local vector of a batch keeps a removed vertex alive until the batch is complete; nothing
  points to such a vertex, so the model drops it at once. The loop has fuel for its iterations;
  \<open>OutOfFuel\<close> for every amount of fuel means that the loop never ends.
\<close>

section \<open>The program\<close>

record processing =
  g_clone :: DAG
  mem :: store
  out_order :: "DAGVertex list list"
  queued :: "Task option list"

text \<open>The removal is the argument of an \<open>assert\<close>, so a release build does not evaluate it.\<close>

definition process_one :: "('z) env_scheme \<Rightarrow> addr \<Rightarrow> DAGVertex list \<Rightarrow> (processing, DAGVertex list) exec" where
  "process_one E v vertices_to_process st =
     (case DAGVertex_clone E (the (vert (mem st) v)) of
        Inl e \<Rightarrow> (Inl e, st)
      | Inr v_clone \<Rightarrow>
          if ndebug E then (Inr (vertices_to_process @ [fst (DAGVertex_move v_clone)]), st)
          else (let ((removed, g'), s') = remove_vertex E (g_clone st) (ByAddr v) (mem st)
                in (if removed then Inr (vertices_to_process @ [fst (DAGVertex_move v_clone)]) else Inl AssertFailed,
                    st\<lparr>g_clone := g', mem := s'\<rparr>)))"

definition push_out :: "('z) env_scheme \<Rightarrow> DAGVertex \<Rightarrow> (processing, unit) exec" where
  "push_out E v st =
     (case DAGVertex_clone E v of
        Inl e \<Rightarrow> (Inl e, st)
      | Inr c \<Rightarrow> (Inr (), st\<lparr>out_order := butlast (out_order st) @ [last (out_order st) @ [c]]\<rparr>))"

definition process_batch :: "('z) env_scheme \<Rightarrow> addr list \<Rightarrow> (processing, unit) exec" where
  "process_batch E batch =
     ebind (efold (process_one E) batch []) (\<lambda>vertices_to_process.
     ebind (\<lambda>st. (Inr (), st\<lparr>out_order := out_order st @ [[]]\<rparr>)) (\<lambda>_.
     ebind (efor (push_out E) vertices_to_process) (\<lambda>_ st.
     (Inr (), st\<lparr>queued := queued st @ map v_task vertices_to_process\<rparr>))))"

fun process_loop :: "('z) env_scheme \<Rightarrow> nat \<Rightarrow> (processing, unit) exec" where
  "process_loop E n st =
     (let batch = dag_vertices_with_no_incomming_edges (g_clone st) (mem st)
      in if batch = [] then (Inr (), st)
         else case n of
                0 \<Rightarrow> (Inl OutOfFuel, st)
              | Suc m \<Rightarrow> ebind (process_batch E batch) (\<lambda>_. process_loop E m) st)"

declare process_loop.simps [simp del]

text \<open>The result, \<open>out\<close>, the queue, and the store after the local graphs are destroyed.\<close>

definition process_dag :: "('z) env_scheme \<Rightarrow> nat \<Rightarrow> DAG \<Rightarrow> DAGVertex list list \<Rightarrow> Task option list \<Rightarrow> store \<Rightarrow>
    (bool res \<times> DAGVertex list list \<times> Task option list) \<times> store" where
  "process_dag E n g out queue s =
     (case ebind (DAG_clone E g) (\<lambda>g_clone.
           ebind (DAG_clone E g) (\<lambda>g_check.
           ebind (dag_topological_sort E g_check) (\<lambda>(cyclic, check).
           eret (g_clone, \<not> cyclic, length check)))) s of
        (Inl e, s1) \<Rightarrow> ((Inl e, out, queue), free_from (brk s) s1)
      | (Inr (gc, ret, checked), s1) \<Rightarrow>
          if ret \<and> checked = vertex_count gc
          then (case process_loop E n \<lparr>g_clone = gc, mem = s1, out_order = [], queued = queue\<rparr> of
                  (r, st) \<Rightarrow> ((rbind r (\<lambda>_. Inr ret), out_order st, queued st), free_from (brk s) (mem st)))
          else ((Inr ret, out, queue), free_from (brk s) s1))"

section \<open>Layers of an acyclic relation\<close>

text \<open>
  The specification of the batches: each is the list of the nodes that no remaining node precedes,
  in the order of the graph, and none is empty.
\<close>

definition sources :: "('a \<times> 'a) set \<Rightarrow> 'a list \<Rightarrow> 'a list" where
  "sources r g = filter (\<lambda>b. \<forall>a \<in> set g. (a, b) \<notin> r) g"

primrec layered :: "('a \<times> 'a) set \<Rightarrow> 'a list \<Rightarrow> 'a list list \<Rightarrow> bool" where
  "layered r g [] \<longleftrightarrow> g = []"
| "layered r g (B # Bs) \<longleftrightarrow> B \<noteq> [] \<and> B = sources r g \<and> layered r (filter (\<lambda>b. b \<notin> set B) g) Bs"

declare layered.simps(2) [simp del]

lemma set_sources: "b \<in> set (sources r g) \<longleftrightarrow> b \<in> set g \<and> (\<forall>a \<in> set g. (a, b) \<notin> r)"
  by (auto simp: sources_def)

lemma layered_ConsD:
  assumes "layered r g (B # Bs)"
  shows "B \<noteq> []" "layered r (filter (\<lambda>b. b \<notin> set B) g) Bs"
    "\<And>b. b \<in> set B \<longleftrightarrow> b \<in> set g \<and> (\<forall>a \<in> set g. (a, b) \<notin> r)" "B = sources r g"
  using assms unfolding layered.simps(2) set_sources [symmetric] by auto

lemma layered_set: "layered r g Bs \<Longrightarrow> set (concat Bs) = set g"
proof (induction Bs arbitrary: g)
  case (Cons B Bs)
  note D = layered_ConsD [OF Cons.prems]
  from Cons.IH [OF D(2)] D(3) show ?case by fastforce
qed simp

lemma layered_distinct: "layered r g Bs \<Longrightarrow> distinct g \<Longrightarrow> distinct (concat Bs)"
proof (induction Bs arbitrary: g)
  case (Cons B Bs)
  note D = layered_ConsD [OF Cons.prems(1)]
  have "distinct B" using Cons.prems(2) by (simp add: D(4) sources_def)
  with Cons.IH [OF D(2)] layered_set [OF D(2)] Cons.prems(2) show ?case by auto
qed simp

text \<open>Every arc leads to a strictly later batch.\<close>

lemma layered_later:
  assumes "layered r g Bs" "i < length Bs" "b \<in> set (Bs ! i)" "(a, b) \<in> r" "a \<in> set g"
  shows "\<exists>j < i. a \<in> set (Bs ! j)"
  using assms
proof (induction Bs arbitrary: g i)
  case (Cons B Bs)
  note D = layered_ConsD [OF Cons.prems(1)]
  show ?case
  proof (cases i)
    case 0
    with Cons.prems D(3) show ?thesis by auto
  next
    case (Suc k)
    show ?thesis
    proof (cases "a \<in> set B")
      case True
      then show ?thesis using Suc by (intro exI [of _ 0]) auto
    next
      case False
      with Cons.prems Suc have "\<exists>j < k. a \<in> set (Bs ! j)" by (intro Cons.IH [OF D(2)]) auto
      then obtain j where "j < k" "a \<in> set (Bs ! j)" by blast
      then show ?thesis using Suc by (intro exI [of _ "Suc j"]) auto
    qed
  qed
qed simp

lemma layered_index:
  assumes "layered r g Bs" "distinct (concat Bs)" "(a, b) \<in> r" "a \<in> set g" "b \<in> set g"
  shows "index_of (concat Bs) a < index_of (concat Bs) b"
proof -
  have "b \<in> set (concat Bs)" using assms(5) layered_set [OF assms(1)] by blast
  then obtain B where "B \<in> set Bs" "b \<in> set B" by auto
  then obtain i where i: "i < length Bs" "b \<in> set (Bs ! i)" by (metis in_set_conv_nth)
  from layered_later [OF assms(1) i assms(3,4)] obtain j where j: "j < i" "a \<in> set (Bs ! j)" by blast
  have split: "concat Bs = concat (take i Bs) @ concat (drop i Bs)"
    by (metis append_take_drop_id concat_append)
  have "Bs ! j \<in> set (take i Bs)"
    using j(1) i(1) by (metis in_set_conv_nth length_take min.absorb2 nth_take order_less_imp_le)
  then have "a \<in> set (concat (take i Bs))" using j(2) by auto
  moreover have "b \<in> set (concat (drop i Bs))"
    using i by (simp add: Cons_nth_drop_Suc [symmetric])
  ultimately show ?thesis
    unfolding split using index_of_append [of a "concat (take i Bs)" b "concat (drop i Bs)"] assms(2) split by auto
qed

text \<open>And every vertex of a later batch waits for one of the batch just before it.\<close>

lemma layered_tight:
  assumes "layered r g Bs" "Suc i < length Bs" "b \<in> set (Bs ! Suc i)"
  shows "\<exists>a \<in> set (Bs ! i). (a, b) \<in> r"
  using assms
proof (induction Bs arbitrary: g i)
  case (Cons B Bs)
  note D = layered_ConsD [OF Cons.prems(1)]
  show ?case
  proof (cases i)
    case 0
    then obtain C Cs where Bs: "Bs = C # Cs" using Cons.prems(2) by (cases Bs) auto
    have "b \<in> set C" using Cons.prems(3) 0 Bs by simp
    with layered_ConsD(3) [OF D(2) [unfolded Bs]] D(3) show ?thesis using 0 by fastforce
  next
    case (Suc k)
    with Cons.IH [OF D(2), of k] Cons.prems show ?thesis by simp
  qed
qed simp

lemma layered_map:
  assumes "layered r' (map f g) Bs'" "inj_on f (set g)"
    "\<And>a b. a \<in> set g \<Longrightarrow> b \<in> set g \<Longrightarrow> (f a, f b) \<in> r' \<longleftrightarrow> (a, b) \<in> r"
  shows "\<exists>Bs. layered r g Bs \<and> Bs' = map (map f) Bs"
  using assms
proof (induction Bs' arbitrary: g)
  case Nil
  then show ?case by (intro exI [of _ "[]"]) simp
next
  case (Cons B' Bs')
  note D = layered_ConsD [OF Cons.prems(1)]
  let ?B = "sources r g" and ?h = "filter (\<lambda>b. b \<notin> set (sources r g)) g"
  have "sources r' (map f g) = map f ?B"
    unfolding filter_map sources_def comp_def using Cons.prems(3)
    by (intro arg_cong [of _ _ "map f"] filter_cong) auto
  then have B': "B' = map f ?B" using D(4) by simp
  have "filter (\<lambda>b. b \<notin> set B') (map f g) = map f ?h"
    unfolding filter_map comp_def B'
  proof (intro arg_cong [of _ _ "map f"] filter_cong refl)
    fix x assume "x \<in> set g"
    moreover have "set ?B \<subseteq> set g" by (auto simp: set_sources)
    ultimately show "(f x \<notin> set (map f ?B)) = (x \<notin> set ?B)"
      using Cons.prems(2) by (simp add: inj_on_image_mem_iff)
  qed
  with D(2) have "layered r' (map f ?h) Bs'" by simp
  from Cons.IH [OF this] Cons.prems(2,3) obtain Bs where
    Bs: "layered r ?h Bs" "Bs' = map (map f) Bs"
    by (auto intro: inj_on_subset)
  have "layered r g (?B # Bs)" using Bs(1) D(1) B' by (simp add: layered.simps(2))
  with Bs(2) B' show ?case by (intro exI [of _ "?B # Bs"]) simp
qed

lemma layered_cong:
  assumes "layered r g Bs" "\<And>a b. a \<in> set g \<Longrightarrow> b \<in> set g \<Longrightarrow> (a, b) \<in> r' \<longleftrightarrow> (a, b) \<in> r"
  shows "layered r' g Bs"
  using layered_map [of r id g Bs r'] assms by (auto simp: map_idI)

section \<open>A batch\<close>

definition copy_of :: "store \<Rightarrow> addr \<Rightarrow> DAGVertex \<Rightarrow> bool" where
  "copy_of s a v \<longleftrightarrow> same_vertex (the (vert s a)) v \<and> v_edges v = [] \<and> v_in v = 0 \<and> vertex_ok v \<and>
     (\<forall>t. v_task v = Some t \<longrightarrow> \<not> t_iterating t \<and> \<not> t_kill t)"

lemma clone_copy_of:
  assumes "env_ok E" "vertex_ok v" "same_vertex (the (vert s a)) v"
  shows "\<exists>c. DAGVertex_clone E v = Inr c \<and> copy_of s a c"
proof -
  obtain c where "DAGVertex_clone E v = Inr c" "vertex_ok c" "same_vertex v c" "v_edges c = []" "v_in c = 0"
    by (rule DAGVertex_clone_ok [OF assms(1,2)])
  with same_vertex_trans [OF assms(3)] DAGVertex_clone_idle show ?thesis by (force simp: copy_of_def)
qed

lemma batch_sources:
  assumes "wf_dag d s"
  shows "dag_vertices_with_no_incomming_edges d s = sources (arcs s (graph_of d)) (graph_of d)"
proof -
  note wf = wf_dagD(2) [OF assms]
  have "(\<not> has_incomming_edges (the (vert s b))) = (\<forall>a \<in> set (graph_of d). (a, b) \<notin> arcs s (graph_of d))"
    if b: "b \<in> set (graph_of d)" for b
  proof -
    obtain v where v: "vert s b = Some v" using wf_graph_alive [OF wf b] by blast
    show ?thesis using has_incomming_iff [OF wf b v] v arcs_in_graph [OF wf] by (auto simp: preds_arcs)
  qed
  then show ?thesis unfolding no_incomming_filter sources_def by (intro filter_cong) auto
qed

lemma sources_nonempty:
  assumes "acyclic r" "finite r" "g \<noteq> []"
  shows "sources r g \<noteq> []"
proof -
  have "wf r" using finite_acyclic_wf assms by blast
  from wfE_min [OF this, of "hd g" "set g"] assms(3) obtain z where
    "z \<in> set g" "\<And>y. (y, z) \<in> r \<Longrightarrow> y \<notin> set g" by (metis hd_in_set)
  then have "z \<in> set (sources r g)" by (auto simp: set_sources)
  then show ?thesis by auto
qed

text \<open>The state while the vertices \<open>ys\<close> of a batch have been taken out of the graph \<open>g\<close> of store \<open>s\<close>.\<close>

definition taken :: "store \<Rightarrow> DAG \<Rightarrow> addr list \<Rightarrow> processing \<Rightarrow> bool" where
  "taken s d ys st \<longleftrightarrow> wf_dag (g_clone st) (mem st) \<and> graph_of (g_clone st) = filter (\<lambda>x. x \<notin> set ys) (graph_of d) \<and>
     arcs (mem st) (graph_of (g_clone st)) = arcs s (graph_of d) - set ys \<times> UNIV \<and> brk (mem st) = brk s \<and>
     (\<forall>c. c \<notin> set (graph_of d) \<longrightarrow> cells (mem st) c = cells s c) \<and>
     (\<forall>c \<in> set (graph_of d) - set ys. same_vertex (the (vert s c)) (the (vert (mem st) c)))"

lemma taken_cong: "g_clone st' = g_clone st \<Longrightarrow> mem st' = mem st \<Longrightarrow> taken s d ys st' = taken s d ys st"
  by (simp only: taken_def)

lemma cells_eqI:
  assumes "vert t c = vert s c" "owners t c = owners s c"
  shows "cells t c = cells s c"
  using assms by (auto simp: vert_def owners_def split: option.splits intro!: cell.equality)

lemma taken_remove:
  assumes env: "env_ok E" and tk: "taken s d ys st" and x: "x \<in> set (graph_of d)" "x \<notin> set ys"
    and src: "\<And>a. (a, x) \<notin> arcs s (graph_of d)"
    and rm: "remove_vertex E (g_clone st) (ByAddr x) (mem st) = ((r, g'), t)"
  shows "r" "taken s d (ys @ [x]) (st\<lparr>g_clone := g', mem := t\<rparr>)"
proof -
  let ?d = "g_clone st" and ?m = "mem st"
  have wf: "wf_dag ?d ?m" and g: "graph_of ?d = filter (\<lambda>x. x \<notin> set ys) (graph_of d)"
    and ar: "arcs ?m (graph_of ?d) = arcs s (graph_of d) - set ys \<times> UNIV" and br: "brk ?m = brk s"
    and out: "\<And>c. c \<notin> set (graph_of d) \<Longrightarrow> cells ?m c = cells s c"
    and keep: "\<And>c. c \<in> set (graph_of d) - set ys \<Longrightarrow> same_vertex (the (vert s c)) (the (vert ?m c))"
    using tk unfolding taken_def by blast+
  have xin: "x \<in> set (graph_of ?d)" using x g by simp
  have nopred: "preds ?m (graph_of ?d) x = {}" using src by (auto simp: preds_arcs ar)
  note w = wf_dagD [OF wf]
  note rf = removed_facts [OF w(2) xin w(5) [OF xin]] and vr = vert_removed [OF w(2) xin w(5) [OF xin]]
  from remove_vertex_here [OF env_ok_libuuid [OF env] w(2) xin] rm
  have g': "g' = without ?d x" and t: "t = release x (remove_found x ?m)" and "r" by auto
  then show "r" by simp
  have "wf_dag g' t" "arcs t (graph_of g') = arcs ?m (graph_of ?d) - {x} \<times> UNIV"
    unfolding g' t using remove_source_wf [OF wf xin nopred] by blast+
  moreover have "graph_of g' = filter (\<lambda>c. c \<notin> set (ys @ [x])) (graph_of d)"
    by (auto simp: g' without_def g intro: filter_cong)
  moreover have "cells t c = cells s c" if c: "c \<notin> set (graph_of d)" for c
  proof -
    have "c \<noteq> x" "(x, c) \<notin> arcs ?m (graph_of ?d)" using c x(1) arcs_in_graph [OF w(2)] g by auto
    then have "vert t c = vert ?m c" "owners t c = owners ?m c"
      unfolding t using vr [of c] rf(3) by (cases "vert ?m c"; simp)+
    with out [OF c] show ?thesis using cells_eqI by metis
  qed
  moreover have "same_vertex (the (vert s c)) (the (vert t c))" if c: "c \<in> set (graph_of d) - set (ys @ [x])" for c
  proof -
    have cin: "c \<in> set (graph_of ?d)" using c g by simp
    then obtain v where v: "vert ?m c = Some v" using wf_graph_alive [OF w(2)] by blast
    then have "same_vertex v (the (vert t c))" unfolding t using vr [of c] c by (simp add: same_vertex_def)
    with keep [of c] c v show ?thesis by (auto intro: same_vertex_trans)
  qed
  moreover have "brk t = brk s" unfolding t using rf(4) br by simp
  ultimately show "taken s d (ys @ [x]) (st\<lparr>g_clone := g', mem := t\<rparr>)"
    unfolding taken_def ar by auto
qed

lemma take_batch:
  assumes env: "env_ok E" "\<not> ndebug E" and wf: "wf_dag d s"
    and st: "g_clone st = d" "mem st = s" and batch: "batch = sources (arcs s (graph_of d)) (graph_of d)"
  shows "\<exists>vs st'. efold (process_one E) batch [] st = (Inr vs, st') \<and> taken s d batch st' \<and>
    list_all2 (copy_of s) batch vs \<and> out_order st' = out_order st \<and> queued st' = queued st"
proof -
  let ?I = "\<lambda>ys vs st'. taken s d ys st' \<and> list_all2 (copy_of s) ys vs \<and>
      out_order st' = out_order st \<and> queued st' = queued st"
  note w = wf_dagD [OF wf]
  have init: "?I [] [] st" using wf by (simp add: taken_def st)
  have dist: "distinct batch" using wf_graph_distinct [OF w(2)] by (simp add: batch sources_def)
  have "\<exists>vs' st''. process_one E x vs st' = (Inr vs', st'') \<and> ?I (ys @ [x]) vs' st''"
    if split: "batch = ys @ x # zs" and I: "?I ys vs st'" for ys x zs vs st'
  proof -
    have "x \<in> set batch" "x \<notin> set ys" using split dist by auto
    then have x: "x \<in> set (graph_of d)" "x \<notin> set ys" and src: "(a, x) \<notin> arcs s (graph_of d)" for a
      using arcs_in_graph [OF w(2)] unfolding batch set_sources by auto
    from I have tk: "taken s d ys st'" by blast
    then have wf': "wf_dag (g_clone st') (mem st')" and xin: "x \<in> set (graph_of (g_clone st'))"
      and keep: "same_vertex (the (vert s x)) (the (vert (mem st') x))"
      using x unfolding taken_def by auto
    obtain v where v: "vert (mem st') x = Some v" "vertex_ok v" using wf_dagD(2) [OF wf'] xin by (rule wf_graphE)
    from clone_copy_of [OF env(1) v(2)] keep v(1) obtain c where
      c: "DAGVertex_clone E v = Inr c" "copy_of s x c" by auto
    obtain r g' t where rm: "remove_vertex E (g_clone st') (ByAddr x) (mem st') = ((r, g'), t)" by (metis prod.exhaust)
    note res = taken_remove [OF env(1) tk x src rm]
    have "process_one E x vs st' = (Inr (vs @ [c]), st'\<lparr>g_clone := g', mem := t\<rparr>)"
      using env(2) v(1) c(1) rm res(1) DAGVertex_move_pair [of c] by (simp add: process_one_def) (metis fst_conv)
    with res(2) I c(2) show ?thesis by (auto intro: list_all2_appendI)
  qed
  then show ?thesis using efold_rule [where I = ?I and xs = batch, OF init] by blast
qed

lemma push_out_all:
  assumes env: "env_ok E" and vs: "list_all2 (copy_of s) batch vs" and o: "out_order st = outs @ [acc]"
  shows "\<exists>cs. efor (push_out E) vs st = (Inr (), st\<lparr>out_order := outs @ [acc @ cs]\<rparr>) \<and> list_all2 (copy_of s) batch cs"
  using vs o
proof (induction arbitrary: st acc rule: list_all2_induct)
  case Nil
  then show ?case by simp
next
  case (Cons a as v vs)
  from clone_copy_of [OF env] Cons.hyps(1) obtain c where c: "DAGVertex_clone E v = Inr c" "copy_of s a c"
    unfolding copy_of_def by blast
  let ?st = "st\<lparr>out_order := outs @ [acc @ [c]]\<rparr>"
  have "push_out E v st = (Inr (), ?st)" using c(1) Cons.prems by (simp add: push_out_def)
  moreover obtain cs where "efor (push_out E) vs ?st = (Inr (), ?st\<lparr>out_order := outs @ [(acc @ [c]) @ cs]\<rparr>)"
    "list_all2 (copy_of s) as cs" using Cons.IH [of ?st "acc @ [c]"] by auto
  ultimately show ?case using c(2) by (intro exI [of _ "c # cs"]) (simp add: ebind_def)
qed

lemma process_batch_ok:
  assumes env: "env_ok E" "\<not> ndebug E" and wf: "wf_dag (g_clone st) (mem st)"
    and batch: "batch = sources (arcs (mem st) (graph_of (g_clone st))) (graph_of (g_clone st))"
  shows "\<exists>vs cs st'. process_batch E batch st = (Inr (), st') \<and> taken (mem st) (g_clone st) batch st' \<and>
    list_all2 (copy_of (mem st)) batch cs \<and> out_order st' = out_order st @ [cs] \<and>
    list_all2 (copy_of (mem st)) batch vs \<and> queued st' = queued st @ map v_task vs"
proof -
  from take_batch [OF env wf refl refl batch] obtain vs st1 where
    t: "efold (process_one E) batch [] st = (Inr vs, st1)" "taken (mem st) (g_clone st) batch st1"
      "list_all2 (copy_of (mem st)) batch vs" "out_order st1 = out_order st" "queued st1 = queued st" by blast
  let ?st = "st1\<lparr>out_order := out_order st @ [[]]\<rparr>"
  from push_out_all [OF env(1) t(3), of ?st "out_order st" "[]"] obtain cs where
    cs: "efor (push_out E) vs ?st = (Inr (), ?st\<lparr>out_order := out_order st @ [cs]\<rparr>)"
      "list_all2 (copy_of (mem st)) batch cs" by auto
  let ?st' = "st1\<lparr>out_order := out_order st @ [cs], queued := queued st @ map v_task vs\<rparr>"
  have "process_batch E batch st = (Inr (), ?st')"
    using t cs by (simp add: process_batch_def ebind_def)
  moreover have "taken (mem st) (g_clone st) batch ?st'" 
    by (subst taken_cong [of _ st1]) (simp_all add: t(2))
  ultimately show ?thesis using t(3) cs(2) by (intro exI [of _ vs] exI [of _ cs] exI [of _ ?st']) simp
qed

section \<open>All batches\<close>

lemma copy_of_mono:
  assumes "list_all2 (copy_of t) as vs" "\<And>a. a \<in> set as \<Longrightarrow> same_vertex (the (vert s a)) (the (vert t a))"
  shows "list_all2 (copy_of s) as vs"
  using assms
  by (induction rule: list_all2_induct) (auto simp: copy_of_def intro: same_vertex_trans)

lemma process_loop_ok:
  assumes env: "env_ok E" "\<not> ndebug E"
    and "wf_dag (g_clone st) (mem st)" "length (graph_of (g_clone st)) \<le> n"
  shows "\<exists>Bs cs vs st'. process_loop E n st = (Inr (), st') \<and>
    layered (arcs (mem st) (graph_of (g_clone st))) (graph_of (g_clone st)) Bs \<and>
    out_order st' = out_order st @ cs \<and> list_all2 (list_all2 (copy_of (mem st))) Bs cs \<and>
    queued st' = queued st @ map v_task vs \<and> list_all2 (copy_of (mem st)) (concat Bs) vs \<and>
    brk (mem st') = brk (mem st) \<and>
    (\<forall>c. c \<notin> set (graph_of (g_clone st)) \<longrightarrow> cells (mem st') c = cells (mem st) c)"
  using assms(3,4)
proof (induction n arbitrary: st)
  case 0
  then have "graph_of (g_clone st) = []" by simp
  then have "process_loop E 0 st = (Inr (), st)"
    by (subst process_loop.simps) (simp add: no_incomming_filter)
  with \<open>graph_of (g_clone st) = []\<close> show ?case
    by (intro exI [of _ "[]"] exI [of _ st]) simp
next
  case (Suc n)
  let ?d = "g_clone st" and ?s = "mem st"
  let ?g = "graph_of ?d" and ?r = "arcs ?s (graph_of ?d)"
  note w = wf_dagD [OF Suc.prems(1)]
  show ?case
  proof (cases "?g = []")
    case True
    then have "process_loop E (Suc n) st = (Inr (), st)"
      by (subst process_loop.simps) (simp add: no_incomming_filter)
    with True show ?thesis by (intro exI [of _ "[]"] exI [of _ st]) simp
  next
    case False
    let ?B = "sources ?r ?g"
    have ne: "?B \<noteq> []" using sources_nonempty [OF w(3) finite_arcs [OF w(2)] False] .
    from process_batch_ok [OF env Suc.prems(1) refl] obtain vs cs st1 where
      b: "process_batch E ?B st = (Inr (), st1)" "taken ?s ?d ?B st1" "list_all2 (copy_of ?s) ?B cs"
        "out_order st1 = out_order st @ [cs]" "list_all2 (copy_of ?s) ?B vs" "queued st1 = queued st @ map v_task vs"
      by blast
    let ?d1 = "g_clone st1" and ?s1 = "mem st1"
    have wf1: "wf_dag ?d1 ?s1" and g1: "graph_of ?d1 = filter (\<lambda>x. x \<notin> set ?B) ?g"
      and ar1: "arcs ?s1 (graph_of ?d1) = ?r - set ?B \<times> UNIV" and br1: "brk ?s1 = brk ?s"
      and out1: "\<And>c. c \<notin> set ?g \<Longrightarrow> cells ?s1 c = cells ?s c"
      and keep: "\<And>c. c \<in> set ?g - set ?B \<Longrightarrow> same_vertex (the (vert ?s c)) (the (vert ?s1 c))"
      using b(2) unfolding taken_def by blast+
    have hd: "hd ?B \<in> set ?B" using ne by (rule hd_in_set)
    then have "hd ?B \<in> set ?g" unfolding set_sources by blast
    then have "length (graph_of ?d1) < length ?g"
      unfolding g1 by (rule length_filter_less) (use hd in blast)
    then have "length (graph_of ?d1) \<le> n" using Suc.prems(2) by simp
    from Suc.IH [OF wf1 this] obtain Bs css us st' where
      l: "process_loop E n st1 = (Inr (), st')" "layered (arcs ?s1 (graph_of ?d1)) (graph_of ?d1) Bs"
        "out_order st' = out_order st1 @ css" "list_all2 (list_all2 (copy_of ?s1)) Bs css"
        "queued st' = queued st1 @ map v_task us" "list_all2 (copy_of ?s1) (concat Bs) us"
        "brk (mem st') = brk ?s1" "\<And>c. c \<notin> set (graph_of ?d1) \<Longrightarrow> cells (mem st') c = cells ?s1 c" by blast
    have keepB: "same_vertex (the (vert ?s a)) (the (vert ?s1 a))" if "a \<in> set (concat Bs)" for a
      using keep that layered_set [OF l(2)] g1 by auto
    have "layered ?r (filter (\<lambda>b. b \<notin> set ?B) ?g) Bs"
    proof (rule layered_cong)
      show "layered (?r - set ?B \<times> UNIV) (filter (\<lambda>b. b \<notin> set ?B) ?g) Bs" by (rule l(2) [unfolded ar1, unfolded g1])
    qed auto
    with ne have "layered ?r ?g (?B # Bs)" by (simp add: layered.simps(2))
    moreover have "process_loop E (Suc n) st = (Inr (), st')"
      by (subst process_loop.simps) (simp add: batch_sources [OF Suc.prems(1)] ne ebind_def b(1) l(1))
    moreover have "list_all2 (list_all2 (copy_of ?s)) (?B # Bs) (cs # css)"
    proof -
      have "list_all2 (list_all2 (copy_of ?s)) Bs css"
      proof (rule list.rel_mono_strong [OF l(4)])
        fix B' cs' assume "B' \<in> set Bs" and c: "list_all2 (copy_of ?s1) B' cs'"
        with keepB show "list_all2 (copy_of ?s) B' cs'" by (intro copy_of_mono [OF c]) auto
      qed
      with b(3) show ?thesis by simp
    qed
    moreover have "list_all2 (copy_of ?s) (concat (?B # Bs)) (vs @ us)"
      using b(5) copy_of_mono [OF l(6) keepB] by (simp add: list_all2_appendI)
    moreover have "cells (mem st') c = cells ?s c" if "c \<notin> set ?g" for c
      using l(8) [of c] out1 [of c] that g1 by simp
    ultimately show ?thesis
      using b(4,6) l(3,5,7) br1
      by (intro exI [of _ "?B # Bs"] exI [of _ "cs # css"] exI [of _ "vs @ us"] exI [of _ st']) simp
  qed
qed

section \<open>The whole function\<close>

text \<open>Allocating more vertices does not disturb a graph.\<close>

lemma wf_dag_old_cells:
  assumes wf: "wf_dag d s" and old: "\<And>c. c < brk s \<Longrightarrow> cells t c = cells s c" and st: "wf_store t"
  shows "wf_dag d t"
proof -
  note w = wf_dagD [OF wf]
  have "wf_graph t (graph_of d)" "arcs t (graph_of d) = arcs s (graph_of d)"
    using wf_graph_old_cells(1,2) [OF w(1,2)] old by blast+
  moreover have "owners t a = owners s a \<and> uuid_of t a = uuid_of s a" if "a \<in> set (graph_of d)" for a
    using old [OF w(7) [OF that]] by (simp add: owners_def uuid_of_def vert_def)
  ultimately show ?thesis using wf st unfolding wf_dag_def by simp
qed

lemma copied_layered:
  assumes "wf_dag d s" "copied s d t d'" "layered (arcs t (graph_of d')) (graph_of d') Bs'"
  shows "\<exists>Bs. layered (arcs s (graph_of d)) (graph_of d) Bs \<and> Bs' = map (map (copy_addr s (graph_of d))) Bs"
proof -
  let ?g = "graph_of d" and ?f = "copy_addr s (graph_of d)"
  note dist = wf_graph_distinct [OF wf_dagD(2) [OF assms(1)]]
  have "graph_of d' = map ?f ?g"
    unfolding copiedD(1) [OF assms(2)] using dist by (intro nth_equalityI) simp_all
  moreover have "(?f a, ?f b) \<in> arcs t (graph_of d') \<longleftrightarrow> (a, b) \<in> arcs s ?g" if "a \<in> set ?g" "b \<in> set ?g" for a b
  proof -
    have "(?f a, ?f b) \<in> map_prod ?f ?f ` arcs s ?g \<longleftrightarrow> (a, b) \<in> arcs s ?g"
      using that arcs_in_graph [OF wf_dagD(2) [OF assms(1)]] inj_on_copy_addr [of s ?g]
      by (auto dest: inj_onD)
    then show ?thesis unfolding copiedD(7) [OF assms(2)] .
  qed
  ultimately show ?thesis using assms(3) inj_on_copy_addr by (intro layered_map [where r' = "arcs t (graph_of d')"]) simp_all
qed

lemma copied_copy_of:
  assumes "copied s d t d'" "a \<in> set (graph_of d)" "copy_of t (copy_addr s (graph_of d) a) v"
  shows "copy_of s a v"
proof -
  let ?i = "index_of (graph_of d) a"
  have "?i < length (graph_of d)" using assms(2) by (rule index_of_less)
  with assms(1) obtain x y where "vert s (graph_of d ! ?i) = Some x" "vert t (brk s + ?i) = Some y" "same_vertex x y"
    unfolding copied_def by blast
  with assms(2,3) show ?thesis by (auto simp: copy_of_def copy_addr_def intro: same_vertex_trans)
qed

text \<open>The check before the loop: two copies of the graph, the second one sorted.\<close>

lemma process_dag_check:
  assumes env: "env_ok E" and st: "wf_store s" and wf: "wf_graph s (graph_of d)" and cfg: "config_of d = Some j"
  obtains gc s1 t k where
    "ebind (DAG_clone E d) (\<lambda>g_clone. ebind (DAG_clone E d) (\<lambda>g_check.
       ebind (dag_topological_sort E g_check) (\<lambda>(cyclic, check). eret (g_clone, \<not> cyclic, length check)))) s =
     (Inr (gc, acyclic (arcs s (graph_of d)), k), s1)"
    "k = vertex_count gc \<longleftrightarrow> acyclic (arcs s (graph_of d))"
    "copied s d t gc" "\<forall>c < brk t. cells s1 c = cells t c" "brk t \<le> brk s1" "wf_store s1"
proof -
  from DAG_copy_ok [OF env st wf cfg] obtain gc t where
    c1: "DAG_clone E d s = (Inr gc, t)" "copied s d t gc" by (auto simp: DAG_clone_def)
  note cd = copiedD [OF c1(2)]
  have wft: "wf_graph t (graph_of d)" "arcs t (graph_of d) = arcs s (graph_of d)"
    using wf_graph_old_cells(1,2) [OF st wf] cd(8) by blast+
  from DAG_copy_ok [OF env cd(5) wft(1) cfg] obtain gk u where
    c2: "DAG_clone E d t = (Inr gk, u)" "copied t d u gk" by (auto simp: DAG_clone_def)
  note ck = copiedD [OF c2(2)]
  have ac: "acyclic (arcs u (graph_of gk)) \<longleftrightarrow> acyclic (arcs s (graph_of d))"
    using copied_acyclic [OF c2(2) wft(1)] wft(2) by simp
  obtain L vs s1 where sort: "dag_topological_sort E gk u = (Inr (\<not> acyclic (arcs u (graph_of gk)), vs), s1)"
    "rewires (set (graph_of gk)) u s1" "length L = length (graph_of gk) \<longleftrightarrow> acyclic (arcs u (graph_of gk))"
    "list_all2 (\<lambda>a v. same_vertex (the (vert u a)) v \<and> v_edges v = [] \<and> v_in v = 0) L vs"
    by (rule dag_topological_sort_ok [OF env ck(6)])
  have len: "length vs = vertex_count gc \<longleftrightarrow> acyclic (arcs s (graph_of d))"
    using sort(3) ac list_all2_lengthD [OF sort(4)] cd(1) ck(1) by (simp add: vertex_count_def)
  have old: "cells s1 c = cells t c" if "c < brk t" for c
    using rewires_cells [OF sort(2), of c] ck(1,8) that by auto
  moreover have "brk t \<le> brk s1" using rewires_brk [OF sort(2)] ck(4) by simp
  ultimately show thesis
    using c1 sort(1) ac len rewires_wf_store [OF sort(2) ck(5)]
    by (intro that [of gc "length vs" s1 t]) (auto simp: ebind_def c2(1))
qed

lemma process_dag_prepare:
  assumes env: "env_ok E" and wf: "wf_dag d s"
  obtains gc s1 t where
    "ebind (DAG_clone E d) (\<lambda>g_clone. ebind (DAG_clone E d) (\<lambda>g_check.
       ebind (dag_topological_sort E g_check) (\<lambda>(cyclic, check). eret (g_clone, \<not> cyclic, length check)))) s =
     (Inr (gc, True, vertex_count gc), s1)"
    "copied s d t gc" "wf_dag gc s1" "\<forall>c < brk t. cells s1 c = cells t c" "brk t \<le> brk s1"
proof -
  obtain j where "config_of d = Some j" using wf_dagD(4) [OF wf] by blast
  then obtain gc s1 t k where
    chk: "ebind (DAG_clone E d) (\<lambda>g_clone. ebind (DAG_clone E d) (\<lambda>g_check.
       ebind (dag_topological_sort E g_check) (\<lambda>(cyclic, check). eret (g_clone, \<not> cyclic, length check)))) s =
     (Inr (gc, acyclic (arcs s (graph_of d)), k), s1)"
    "k = vertex_count gc \<longleftrightarrow> acyclic (arcs s (graph_of d))"
    "copied s d t gc" "\<forall>c < brk t. cells s1 c = cells t c" "brk t \<le> brk s1" "wf_store s1"
    by (rule process_dag_check [OF env wf_dagD(1,2) [OF wf]]) (rule that)
  have "wf_dag gc s1" using wf_dag_old_cells [OF copied_wf_dag [OF wf chk(3)] _ chk(6)] chk(4) by blast
  with chk wf_dagD(3) [OF wf] show thesis by (intro that [of gc s1 t]) auto
qed

text \<open>A cyclic graph is refused: nothing is queued, \<open>out\<close> is as it was.\<close>

lemma process_dag_cyclic:
  assumes "env_ok E" "wf_store s" "wf_graph s (graph_of d)" "config_of d = Some j" "\<not> acyclic (arcs s (graph_of d))"
  shows "\<exists>t. process_dag E n d out queue s = ((Inr False, out, queue), t) \<and> same_cells s t"
proof -
  obtain gc s1 t k where
    chk: "ebind (DAG_clone E d) (\<lambda>g_clone. ebind (DAG_clone E d) (\<lambda>g_check.
       ebind (dag_topological_sort E g_check) (\<lambda>(cyclic, check). eret (g_clone, \<not> cyclic, length check)))) s =
     (Inr (gc, acyclic (arcs s (graph_of d)), k), s1)"
    "copied s d t gc" "\<forall>c < brk t. cells s1 c = cells t c" "brk t \<le> brk s1"
    by (rule process_dag_check [OF assms(1-4)]) (rule that)
  note cd = copiedD [OF chk(2)]
  have "same_cells s (free_from (brk s) s1)"
    by (rule free_from_same_cells [OF assms(2)]) (use chk(3,4) cd(4,8) in auto)
  then show ?thesis unfolding process_dag_def chk(1) using assms(5) by simp
qed

lemma process_dag_ok:
  assumes env: "env_ok E" "\<not> ndebug E" and wf: "wf_dag d s" and n: "vertex_count d \<le> n"
  shows "\<exists>Bs cs vs t. process_dag E n d out queue s = ((Inr True, cs, queue @ map v_task vs), t) \<and>
    same_cells s t \<and> layered (arcs s (graph_of d)) (graph_of d) Bs \<and>
    list_all2 (list_all2 (copy_of s)) Bs cs \<and> list_all2 (copy_of s) (concat Bs) vs"
proof -
  let ?f = "copy_addr s (graph_of d)"
  obtain gc s1 t where pre:
    "ebind (DAG_clone E d) (\<lambda>g_clone. ebind (DAG_clone E d) (\<lambda>g_check.
       ebind (dag_topological_sort E g_check) (\<lambda>(cyclic, check). eret (g_clone, \<not> cyclic, length check)))) s =
     (Inr (gc, True, vertex_count gc), s1)" "copied s d t gc" "wf_dag gc s1"
     "\<forall>c < brk t. cells s1 c = cells t c" "brk t \<le> brk s1"
    by (rule process_dag_prepare [OF env(1) wf])
  note cd = copiedD [OF pre(2)]
  have wft: "wf_dag gc t" by (rule copied_wf_dag [OF wf pre(2)])
  let ?st = "\<lparr>g_clone = gc, mem = s1, out_order = [], queued = queue\<rparr>"
  have "length (graph_of (g_clone ?st)) \<le> n" using n cd(1) by (simp add: vertex_count_def)
  from process_loop_ok [OF env _ this] pre(3) obtain Bs' cs vs st' where
    l: "process_loop E n ?st = (Inr (), st')" "layered (arcs s1 (graph_of gc)) (graph_of gc) Bs'"
      "out_order st' = cs" "list_all2 (list_all2 (copy_of s1)) Bs' cs"
      "queued st' = queue @ map v_task vs" "list_all2 (copy_of s1) (concat Bs') vs"
      "brk (mem st') = brk s1" "\<And>c. c \<notin> set (graph_of gc) \<Longrightarrow> cells (mem st') c = cells s1 c"
    by auto
  have vt: "vert s1 a = vert t a" if "a \<in> set (graph_of gc)" for a
    using pre(4) wf_dagD(7) [OF wft that] by (simp add: vert_def)
  have "arcs s1 (graph_of gc) = arcs t (graph_of gc)" by (rule wf_graph_cong(2) [OF vt])
  with l(2) copied_layered [OF wf pre(2)] obtain Bs where
    Bs: "layered (arcs s (graph_of d)) (graph_of d) Bs" "Bs' = map (map ?f) Bs" by auto
  have cp: "copy_of s a v" if "a \<in> set (concat Bs)" "copy_of s1 (?f a) v" for a v
  proof -
    have a: "a \<in> set (graph_of d)" using that(1) layered_set [OF Bs(1)] by blast
    have "?f a \<in> set (graph_of gc)"
      using copied_addr(1) [OF pre(2) wf_graph_distinct [OF wf_dagD(2) [OF wf]] a] .
    with that(2) have "copy_of t (?f a) v" by (simp add: copy_of_def vt)
    with pre(2) a show ?thesis by (rule copied_copy_of)
  qed
  have "list_all2 (list_all2 (copy_of s)) Bs cs"
  proof -
    have "list_all2 (\<lambda>B c. list_all2 (\<lambda>a v. copy_of s1 (?f a) v) B c) Bs cs"
      using l(4) unfolding Bs(2) by (simp add: list_all2_map1)
    then show ?thesis
    proof (rule list.rel_mono_strong)
      fix B c assume B: "B \<in> set Bs" and c: "list_all2 (\<lambda>a v. copy_of s1 (?f a) v) B c"
      show "list_all2 (copy_of s) B c" by (rule list.rel_mono_strong [OF c]) (use B cp in auto)
    qed
  qed
  moreover have "list_all2 (copy_of s) (concat Bs) vs"
  proof -
    have "list_all2 (\<lambda>a v. copy_of s1 (?f a) v) (concat Bs) vs"
      using l(6) unfolding Bs(2) by (simp add: list_all2_map1 flip: map_concat)
    then show ?thesis by (rule list.rel_mono_strong) (rule cp)
  qed
  moreover have "process_dag E n d out queue s = ((Inr True, cs, queue @ map v_task vs), free_from (brk s) (mem st'))"
    unfolding process_dag_def pre(1) using l(1,3,5) by simp
  moreover have "same_cells s (free_from (brk s) (mem st'))"
  proof (rule free_from_same_cells [OF wf_dagD(1) [OF wf]])
    fix c assume c: "c < brk s"
    then have "c \<notin> set (graph_of gc)" "c < brk t" using cd(1,4) by auto
    with l(8) pre(4) cd(8) [OF c] show "cells (mem st') c = cells s c" by simp
  next
    show "brk s \<le> brk (mem st')" using l(7) pre(5) cd(4) by simp
  qed
  ultimately show ?thesis using Bs(1) by blast
qed

section \<open>Release builds\<close>

text \<open>
  With \<open>NDEBUG\<close> the \<open>assert\<close> that contains the removal disappears: the graph keeps its vertices, and
  the same batch is queued again and again.
\<close>

lemma take_batch_release:
  assumes "env_ok E" "ndebug E" "wf_graph (mem st) g" "set batch \<subseteq> set g"
  shows "\<exists>vs. efold (process_one E) batch acc st = (Inr (acc @ vs), st) \<and> list_all2 (copy_of (mem st)) batch vs"
  using assms(4)
proof (induction batch arbitrary: acc)
  case Nil
  then show ?case by simp
next
  case (Cons x xs)
  then have x: "x \<in> set g" by simp
  obtain v where v: "vert (mem st) x = Some v" "vertex_ok v" using assms(3) x by (rule wf_graphE)
  from clone_copy_of [OF assms(1) v(2), of "mem st" x] v(1) obtain c where
    c: "DAGVertex_clone E v = Inr c" "copy_of (mem st) x c" by auto
  have "process_one E x acc st = (Inr (acc @ [c]), st)"
    using assms(2) v(1) c(1) DAGVertex_move_pair [of c] by (simp add: process_one_def) (metis fst_conv)
  with Cons.IH [of "acc @ [c]"] Cons.prems c(2) show ?case by (force simp: ebind_def)
qed

lemma process_loop_release:
  assumes env: "env_ok E" "ndebug E" and "wf_dag (g_clone st) (mem st)" "graph_of (g_clone st) \<noteq> []"
  shows "\<exists>st'. process_loop E n st = (Inl OutOfFuel, st')"
  using assms(3,4)
proof (induction n arbitrary: st)
  case 0
  note w = wf_dagD [OF 0(1)]
  show ?case
    using sources_nonempty [OF w(3) finite_arcs [OF w(2)] 0(2)]
    by (subst process_loop.simps) (simp add: batch_sources [OF 0(1)])
next
  case (Suc n)
  note w = wf_dagD [OF Suc.prems(1)]
  let ?B = "sources (arcs (mem st) (graph_of (g_clone st))) (graph_of (g_clone st))"
  have ne: "?B \<noteq> []" using sources_nonempty [OF w(3) finite_arcs [OF w(2)] Suc.prems(2)] .
  have sub: "set ?B \<subseteq> set (graph_of (g_clone st))" by (auto simp: set_sources)
  from take_batch_release [OF env w(2) sub, of "[]"] obtain vs where
    vs: "efold (process_one E) ?B [] st = (Inr vs, st)" "list_all2 (copy_of (mem st)) ?B vs" by auto
  from push_out_all [OF env(1) vs(2), of "st\<lparr>out_order := out_order st @ [[]]\<rparr>" "out_order st" "[]"]
  obtain st1 where "process_batch E ?B st = (Inr (), st1)" "g_clone st1 = g_clone st" "mem st1 = mem st"
    using vs(1) by (force simp: process_batch_def ebind_def)
  moreover from this Suc.prems have "\<exists>st'. process_loop E n st1 = (Inl OutOfFuel, st')" by (intro Suc.IH) simp_all
  ultimately show ?case
    by (subst process_loop.simps) (auto simp: batch_sources [OF Suc.prems(1)] ne ebind_def)
qed

lemma process_dag_release:
  assumes env: "env_ok E" "ndebug E" and wf: "wf_dag d s" and ne: "graph_of d \<noteq> []"
  shows "\<exists>cs q t. process_dag E n d out queue s = ((Inl OutOfFuel, cs, q), t)"
proof -
  obtain gc s1 t where pre:
    "ebind (DAG_clone E d) (\<lambda>g_clone. ebind (DAG_clone E d) (\<lambda>g_check.
       ebind (dag_topological_sort E g_check) (\<lambda>(cyclic, check). eret (g_clone, \<not> cyclic, length check)))) s =
     (Inr (gc, True, vertex_count gc), s1)" "copied s d t gc" "wf_dag gc s1"
    by (rule process_dag_prepare [OF env(1) wf])
  have "graph_of gc \<noteq> []" using ne copiedD(1) [OF pre(2)] by simp
  with process_loop_release [OF env, of "\<lparr>g_clone = gc, mem = s1, out_order = [], queued = queue\<rparr>" n] pre(3)
  show ?thesis unfolding process_dag_def pre(1) by auto
qed

end
