(* ===== verification/Pipeline.thy ===== *)
theory Pipeline
  imports Yaml_Types Dag_Process Task_Scheduler
begin

text \<open>
  The parts together: a document becomes a graph (\<open>make_dag\<close>), the graph becomes a queue of tasks
  (\<open>process_dag\<close>), the scheduler takes tasks from the queue (\<open>run_scheduler\<close>), a thread runs the stages of
  one (\<open>threaded_func\<close>).
\<close>

section \<open>From the graph to the queue\<close>

text \<open>The tasks of a list of vertices; a vertex without a task has none.\<close>

definition tasks_of :: "store \<Rightarrow> addr list \<Rightarrow> Task list" where
  "tasks_of s as = List.map_filter (\<lambda>a. v_task (the (vert s a))) as"

lemma copies_first_task:
  "list_all2 (copy_of s) as vs \<Longrightarrow>
   list_all2 (\<lambda>t t'. same_task t t' \<and> \<not> t_iterating t' \<and> \<not> t_kill t') (take 1 (tasks_of s as))
     (map the (take 1 (dropWhile is_null (map v_task vs))))"
proof (induction rule: list_all2_induct)
  case (Cons a as v vs)
  then show ?case
    by (cases "v_task (the (vert s a))"; cases "v_task v")
      (auto simp: tasks_of_def List.map_filter_simps is_null_def copy_of_def same_vertex_def)
qed (simp add: tasks_of_def List.map_filter_simps)

lemma copies_task_count:
  "list_all2 (copy_of s) as vs \<Longrightarrow>
   length (filter (\<lambda>p. p \<noteq> None) (drop 1 (dropWhile is_null (map v_task vs)))) = length (tasks_of s as) - 1"
proof -
  have count: "length (filter (\<lambda>p. p \<noteq> None) (map v_task vs)) = length (tasks_of s as)"
    if "list_all2 (copy_of s) as vs" for as vs
    using that
  proof (induction rule: list_all2_induct)
    case (Cons a as v vs)
    then show ?case
      by (cases "v_task (the (vert s a))"; cases "v_task v")
        (auto simp: tasks_of_def List.map_filter_simps copy_of_def same_vertex_def)
  qed (simp add: tasks_of_def List.map_filter_simps)
  have "length (filter (\<lambda>p. p \<noteq> None) (drop 1 (dropWhile is_null q))) = length (filter (\<lambda>p. p \<noteq> None) q) - 1" for q :: task_queue
    by (induction q) (auto simp: is_null_def)
  then show "list_all2 (copy_of s) as vs \<Longrightarrow> ?thesis" using count by simp
qed

text \<open>
  A graph that was processed, and the scheduler that is started on its queue: the first task in the order of
  the layers is given to the first thread, everything else stays in the queue.
\<close>

lemma processed_graph_starts_one:
  assumes "env_ok E" "\<not> ndebug E" "wf_dag d s" "vertex_count d \<le> n"
  obtains Bs cs q t where "process_dag E n d out [] s = ((Inr True, cs, q), t)"
    "layered (arcs s (graph_of d)) (graph_of d) Bs" "length q = vertex_count d"
    "\<And>m. 4 * vertex_count d + 11 \<le> m \<Longrightarrow>
       list_all2 (\<lambda>t t'. same_task t t' \<and> \<not> t_iterating t' \<and> \<not> t_kill t') (take 1 (tasks_of s (concat Bs))) (dispatched (run_scheduler q m)) \<and>
       length (filter (\<lambda>p. p \<noteq> None) (sch_queue (run_scheduler q m))) = length (tasks_of s (concat Bs)) - 1 \<and>
       sch_pool (run_scheduler q m) ! 0 = (case dispatched (run_scheduler q m) of
         [] \<Rightarrow> TaskThread_new | t # _ \<Rightarrow> TaskThread_new\<lparr>th_task := Some t, th_joinable := True\<rparr>)"
proof -
  from process_dag_ok [OF assms, of out "[]"] obtain Bs cs vs t where
    p: "process_dag E n d out [] s = ((Inr True, cs, map v_task vs), t)" "layered (arcs s (graph_of d)) (graph_of d) Bs"
      "list_all2 (copy_of s) (concat Bs) vs" by auto
  have "distinct (concat Bs)" "set (concat Bs) = set (graph_of d)"
    using layered_distinct [OF p(2) wf_graph_distinct [OF wf_dagD(2) [OF assms(3)]]] layered_set [OF p(2)] by blast+
  then have "length (concat Bs) = vertex_count d"
    using distinct_card wf_graph_distinct [OF wf_dagD(2) [OF assms(3)]] by (metis vertex_count_def)
  then have len: "length (map v_task vs) = vertex_count d" using list_all2_lengthD [OF p(3)] by simp
  show thesis
  proof (rule that [OF p(1,2) len])
    fix m assume "4 * vertex_count d + 11 \<le> m"
    with len have "4 * length (map v_task vs) + 11 \<le> m" by simp
    from run_scheduler_first [OF this] copies_first_task [OF p(3)] copies_task_count [OF p(3)]
    show "list_all2 (\<lambda>t t'. same_task t t' \<and> \<not> t_iterating t' \<and> \<not> t_kill t') (take 1 (tasks_of s (concat Bs))) (dispatched (run_scheduler (map v_task vs) m)) \<and>
       length (filter (\<lambda>p. p \<noteq> None) (sch_queue (run_scheduler (map v_task vs) m))) = length (tasks_of s (concat Bs)) - 1 \<and>
       sch_pool (run_scheduler (map v_task vs) m) ! 0 = (case dispatched (run_scheduler (map v_task vs) m) of
         [] \<Rightarrow> TaskThread_new | t # _ \<Rightarrow> TaskThread_new\<lparr>th_task := Some t, th_joinable := True\<rparr>)"
      by simp
  qed
qed

section \<open>From the document to the queue\<close>

lemma layered_no_arcs: "layered {} g Bs \<longleftrightarrow> Bs = (if g = [] then [] else [g])"
proof (cases Bs)
  case (Cons B Cs)
  have "layered {} (filter (\<lambda>b. b \<notin> set g) g) Cs \<longleftrightarrow> Cs = []" by (cases Cs) (simp_all add: layered.simps(2) sources_def)
  then show ?thesis by (auto simp: Cons layered.simps(2) sources_def)
qed simp

lemma deserialized_batch:
  assumes "env_ok E" "\<not> ndebug E" "wf_dag d s" "arcs s (graph_of d) = {}" "graph_of d \<noteq> []" "vertex_count d \<le> n"
  shows "\<exists>c vs t. process_dag E n d out queue s = ((Inr True, [c], queue @ map v_task vs), t) \<and>
    list_all2 (copy_of s) (graph_of d) c \<and> list_all2 (copy_of s) (graph_of d) vs"
proof -
  from process_dag_ok [OF assms(1-3,6), of out queue] obtain Bs cs vs t where
    p: "process_dag E n d out queue s = ((Inr True, cs, queue @ map v_task vs), t)" "layered {} (graph_of d) Bs"
      "list_all2 (list_all2 (copy_of s)) Bs cs" "list_all2 (copy_of s) (concat Bs) vs" by (auto simp: assms(4))
  have "Bs = [graph_of d]" using p(2) assms(5) by (simp add: layered_no_arcs)
  with p(3) obtain c where "cs = [c]" "list_all2 (copy_of s) (graph_of d) c" by (auto simp: list_all2_Cons1)
  with p(1,4) \<open>Bs = [graph_of d]\<close> show ?thesis by auto
qed

end
