(* ===== verification/Stage_Library.thy ===== *)
theory Stage_Library
  imports Yaml_Types Logging
begin

text \<open>
  The libraries that the repository itself provides to documents: \<open>stages_lib\<close> exports the creator of
  \<open>PrintStage\<close> and \<open>dag_scheduler\<close> exports a callback and a plugin, each under an alias in a section of
  the library (\<open>BOOST_DLL_ALIAS_SECTIONED\<close>). \<open>repo_libraries\<close> is what Boost.DLL finds in them.
  And the specification of a list of stages: what each node says (\<open>stage_key\<close>), in order.
\<close>

section \<open>The exported symbols\<close>

definition print_stage_alias :: "string \<times> string" where
  "print_stage_alias = (''Stages'', ''print_stage'')"

definition task_callback_alias :: "string \<times> string" where
  "task_callback_alias = (''TaskCb'', ''task_callback'')"

definition task_callback_plugin_alias :: "string \<times> string" where
  "task_callback_plugin_alias = (''TaskCb'', ''task_callback_plugin'')"

definition repo_symbols :: "string \<Rightarrow> (string \<times> string) list" where
  "repo_symbols library =
     (if library = ''libstages_lib.so'' then [print_stage_alias]
      else if library = ''libdag_scheduler.so'' then [task_callback_alias, task_callback_plugin_alias] else [])"

text \<open>The numbers 0 of the callback and the plugin stand for the one object each library has of them.\<close>

definition repo_libraries :: "('z) env_scheme \<Rightarrow> dll_api" where
  "repo_libraries E = \<lparr>
     dll_open = (\<lambda>l. if repo_symbols l = [] then Some ''cannot open shared object file'' else None),
     dll_symbols = (\<lambda>l section. Inr (map snd (filter (\<lambda>(sec, _). sec = section) (repo_symbols l)))),
     dll_function = (\<lambda>l symbol. Inr 0),
     dll_plugin = (\<lambda>l symbol. Inr 0),
     dll_stage = (\<lambda>l symbol n name. Inr (Some (PrintStage_make_stage (uninit_flag E) E n name)))\<rparr>"

text \<open>The exported callback prints a line; the exported plugin logs one.\<close>

definition default_task_callback :: "bool \<Rightarrow> string \<Rightarrow> string" where
  "default_task_callback status cout = cout @ ''Default task callback called.'' @ endl"

definition TaskCallbackPlugin_completed :: "string \<Rightarrow> bool \<Rightarrow> logging \<Rightarrow> (log_stream \<times> string) list \<times> logging" where
  "TaskCallbackPlugin_completed type_and_address status g =
     (let (CALLBACK_TAG_FOR_THIS, g1) = LogTag_for_this type_and_address g;
          (tag, g2) = LogTag_for_this type_and_address g1;
          (_, g3) = add_std_log_logger tag Trace g2
      in log_info CALLBACK_TAG_FOR_THIS [''Base callback plugin was called.''] g3)"

lemma repo_libraries_creators: "libuuid_ok E \<Longrightarrow> creators_ok (repo_libraries E)"
  by (simp add: creators_ok_def repo_libraries_def PrintStage_make_stage_def PrintStage_label_def TaskStage_label_def
      stage_ok_def UUID_default_def libuuid_ok_def)

text \<open>The plugin's message goes to the log stream, or wherever a sink under its name was put before.\<close>

lemma completed_logs:
  assumes "logging_ok g"
  shows "fst (TaskCallbackPlugin_completed name status g) =
    (case sink_for g (c_str name) of
       None \<Rightarrow> [(Clog, ''Base callback plugin was called.'')]
     | Some sink \<Rightarrow> if sk_level sink \<le> Info then [(sk_stream sink, ''Base callback plugin was called.'')] else [])"
proof -
  let ?g1 = "snd (LogTag_new name g)" and ?t = "fst (LogTag_new name g)"
  let ?g2 = "snd (LogTag_new name ?g1)" and ?u = "fst (LogTag_new name ?g1)"
  note n1 = LogTag_new_ok [OF assms, of name]
  note n2 = LogTag_new_ok [OF n1(1), of name]
  have tags: "LogTag_tag ?t = c_str name" "LogTag_tag ?u = c_str name" by (simp_all add: LogTag_new_def LogTag_tag_def)
  note add = add_stream_logger_ok [OF n2(1,2), of Clog Trace, unfolded tags n2(3) n1(3)]
  let ?g3 = "snd (add_stream_logger Clog ?u Trace ?g2)"
  have "sink_for ?g3 (c_str name) = (case sink_for g (c_str name) of
      None \<Rightarrow> Some \<lparr>sk_stream = Clog, sk_level = Trace, sk_tag = c_str name\<rparr> | Some x \<Rightarrow> Some x)"
    using sink_for_append [of ?g2 "next_sink ?g2" "\<lparr>sk_stream = Clog, sk_level = Trace, sk_tag = c_str name\<rparr>" "c_str name"]
      n1(3) n2(3) unfolding add(1) by (auto simp: sink_for_def split: option.splits)
  moreover have "fst (TaskCallbackPlugin_completed name status g) =
      fst (write_severity_log ?t Info ''Base callback plugin was called.'' ?g3)"
    by (simp add: TaskCallbackPlugin_completed_def LogTag_for_this_def add_std_log_logger_def log_info_def case_prod_unfold Let_def)
  ultimately show ?thesis
    using write_severity_log_ok(1) [OF add(2), of ?t Info "''Base callback plugin was called.''"] tags
    by (auto simp: less_eq_severity_level_def split: option.splits)
qed

section \<open>Stages in the order of the document\<close>

definition stage_key :: "'n yaml_api \<Rightarrow> 'n \<Rightarrow> (string \<times> string \<times> string) option" where
  "stage_key Y n =
     (case (y_sub Y n NAME_KEY, rbind (y_sub Y n LIBRARY_NAME_KEY) (y_as_string Y), y_sub Y n SYMBOL_NAME_KEY) of
        (Inr m, Inr library, Inr k) \<Rightarrow>
          (if y_defined Y m \<and> y_defined Y k
           then (case (y_as_string Y m, y_as_string Y k) of (Inr name, Inr symbol) \<Rightarrow> Some (name, library, symbol) | _ \<Rightarrow> None)
           else None)
      | _ \<Rightarrow> None)"

text \<open>A library opens, exports the symbol under \<open>Stages\<close>, and its creator makes a stage.\<close>

definition available :: "dll_api \<Rightarrow> string \<times> string \<times> string \<Rightarrow> bool" where
  "available D k = (case k of (name, library, symbol) \<Rightarrow>
     dll_open D library = None \<and> (\<exists>symbols. dll_symbols D library ''Stages'' = Inr symbols \<and> symbol \<in> set symbols) \<and>
     (\<forall>n. \<exists>st. dll_stage D library symbol n name = Inr (Some st)))"

definition made_stage :: "dll_api \<Rightarrow> nat \<Rightarrow> string \<times> string \<times> string \<Rightarrow> TaskStage" where
  "made_stage D n k = (case k of (name, library, symbol) \<Rightarrow> the (projr (dll_stage D library symbol n name)))"

lemma load_stage_loads:
  assumes key: "stage_key Y n = Some k" and av: "available D k"
  shows "\<exists>s'. load_stage Y D n out s = (Inr (out @ [made_stage D (draws (heap s)) k]), s') \<and>
    draws (heap s') = Suc (draws (heap s))"
proof -
  obtain name library symbol where k: "k = (name, library, symbol)" by (cases k)
  have reads: "optional_string Y n NAME_KEY = Inr name"
      "rbind (y_sub Y n NAME_KEY) (\<lambda>m. if y_defined Y m then rbind (y_sub Y n LIBRARY_NAME_KEY) (y_as_string Y)
         else Inl (required_key_error Y LIBRARY_NAME_KEY n)) = Inr library"
      "rbind (y_sub Y n SYMBOL_NAME_KEY) (\<lambda>m. if y_defined Y m then y_as_string Y m
         else Inl (required_key_error Y SYMBOL_NAME_KEY n)) = Inr symbol"
    using key unfolding stage_key_def k optional_string_def rbind_def
    by (auto split: sum.splits if_splits prod.splits)
  from av obtain symbols st where d: "dll_open D library = None" "dll_symbols D library ''Stages'' = Inr symbols" "symbol \<in> set symbols"
      "dll_stage D library symbol (draws (heap s)) name = Inr (Some st)"
    unfolding available_def k prod.case by blast
  obtain s1 where s1: "register_dynamic_library D library s = (Inr library, s1)" "heap s1 = heap s"
    using register_opens [OF d(1)] by blast
  obtain tx where "verify_symbol_present D library symbol ''Stages'' = Inr (True, tx)" "tx \<noteq> []"
    using symbol_present [OF d(2,3)] by blast
  with reads s1 d(4) show ?thesis
    by (simp add: load_stage_def ebind_def rethrow_as_def dynamically_load_stage_def fresh_draw_def made_stage_def k)
qed

lemma efold_load_stage:
  "map (stage_key Y) ns = map Some ks \<Longrightarrow> \<forall>k \<in> set ks. available D k \<Longrightarrow>
   \<exists>s'. efold (load_stage Y D) ns out s =
     (Inr (out @ map2 (made_stage D) [draws (heap s)..<draws (heap s) + length ks] ks), s')"
proof (induction ns arbitrary: ks out s)
  case (Cons n ns)
  then obtain k ks' where ks: "ks = k # ks'" "stage_key Y n = Some k" "map (stage_key Y) ns = map Some ks'" by (cases ks) auto
  from load_stage_loads [OF ks(2)] Cons.prems(2) ks(1) obtain s1 where
    s1: "load_stage Y D n out s = (Inr (out @ [made_stage D (draws (heap s)) k]), s1)" "draws (heap s1) = Suc (draws (heap s))"
    by (metis list.set_intros(1))
  from Cons.IH [OF ks(3), of "out @ [made_stage D (draws (heap s)) k]" s1] Cons.prems(2) ks(1) s1 show ?case
    by (auto simp: ebind_def upt_conv_Cons simp del: upt_Suc)
qed simp

lemma load_stages_in_order:
  assumes "y_as_vector Y node = Inr ns" "map (stage_key Y) ns = map Some ks" "\<forall>k \<in> set ks. available D k"
  shows "\<exists>s'. load_stages Y D node s =
    (Inr (map2 (made_stage D) [draws (heap s)..<draws (heap s) + length ks] ks), s')"
  using efold_load_stage [OF assms(2,3), of "[]" s] by (simp add: load_stages_def ebind_def assms(1))

end
