(* ===== verification/Document_Run.thy ===== *)
theory Document_Run
  imports Pipeline Stage_Library
begin

text \<open>
  Documents that use the repository's own stage library, from the YAML nodes to what the thread writes.
  The specification of such a document is a list with the name, the identifier and, if there is a task, the
  names of its stages, for each vertex.
\<close>

type_synonym vertex_spec = "string \<times> uuid_t \<times> string list option"

section \<open>What a document says\<close>

definition print_task :: "'n yaml_api \<Rightarrow> 'n \<Rightarrow> string list \<Rightarrow> bool" where
  "print_task Y m names \<longleftrightarrow> y_defined Y m \<and>
     (\<exists>name. optional_string Y m NAME_KEY = Inr name) \<and>
     (\<exists>a ns. y_sub Y m STAGES_KEY = Inr a \<and> y_defined Y a \<and> y_as_vector Y a = Inr ns \<and>
        map (stage_key Y) ns = map Some (map (\<lambda>name. (name, ''libstages_lib.so'', ''print_stage'')) names)) \<and>
     (\<exists>j. optional_json Y m CONFIGURATION_KEY ''Could not parse task configuration from '' = Inr j) \<and>
     (\<exists>i. optional_json Y m INITIAL_INPUTS_KEY ''Could not parse task initial inputs from '' = Inr i) \<and>
     (\<exists>c. y_sub Y m CALLBACK_KEY = Inr c \<and> \<not> y_defined Y c)"

definition vertex_says :: "('z) libuuid_scheme \<Rightarrow> 'n yaml_api \<Rightarrow> 'n \<Rightarrow> vertex_spec \<Rightarrow> bool" where
  "vertex_says L Y n k = (case k of (name, u, z) \<Rightarrow>
     vertex_key L Y n = Inr (name, u) \<and>
     (\<exists>m. y_sub Y n TASK_KEY = Inr m \<and> (case z of None \<Rightarrow> \<not> y_defined Y m | Some names \<Rightarrow> print_task Y m names)))"

definition document_says :: "('z) libuuid_scheme \<Rightarrow> 'n yaml_api \<Rightarrow> 'n \<Rightarrow> string \<Rightarrow> vertex_spec list \<Rightarrow> bool" where
  "document_says L Y n title ks \<longleftrightarrow>
     (\<exists>m tn v ns. y_sub Y n DAG_KEY = Inr m \<and> y_defined Y m \<and> y_is_map Y m \<and>
        (\<exists>j. optional_json Y m CONFIGURATION_KEY ''Could not parse dag configuration from '' = Inr j) \<and>
        y_sub Y m TITLE_KEY = Inr tn \<and> y_defined Y tn \<and> y_as_string Y tn = Inr title \<and>
        y_sub Y m VERTICES_KEY = Inr v \<and> y_defined Y v \<and> y_is_sequence Y v \<and> y_as_vector Y v = Inr ns \<and>
        list_all2 (vertex_says L Y) ns ks)"

text \<open>The task that belongs to a list of stage names: print stages with these labels and nobody to call back.\<close>

definition prints :: "string list \<Rightarrow> Task \<Rightarrow> bool" where
  "prints names t \<longleftrightarrow> list_all (\<lambda>st. s_class st = PrintStage) (t_stages t) \<and> map s_label (t_stages t) = names \<and>
     t_callback t = None \<and> t_plugin t = None"

lemma prints_same_task:
  assumes "prints names t" "same_task t t'"
  shows "prints names t'"
proof -
  have "list_all2 same_stage xs ys \<Longrightarrow> list_all (\<lambda>st. s_class st = PrintStage) xs \<Longrightarrow>
      list_all (\<lambda>st. s_class st = PrintStage) ys \<and> map s_label ys = map s_label xs" for xs ys
    by (induction rule: list_all2_induct) (auto dest: same_stageD)
  with assms show ?thesis by (auto simp: prints_def same_task_def)
qed

section \<open>Tasks and vertices\<close>

lemma repo_print_stage_available: "available (repo_libraries E) (name, ''libstages_lib.so'', ''print_stage'')"
  by (auto simp: available_def repo_libraries_def repo_symbols_def print_stage_alias_def)

lemma made_print_stages:
  "prints names \<lparr>t_iterating = False, t_kill = False,
     t_stages = map2 (made_stage (repo_libraries E)) [k..<k + length names] (map (\<lambda>name. (name, ''libstages_lib.so'', ''print_stage'')) names),
     t_label = l, t_callback = None, t_plugin = None, t_uuid = u, t_json_config = j, t_json_inputs = i\<rparr>"
proof (induction names arbitrary: k)
  case (Cons name names)
  from Cons.IH [of "Suc k"] show ?case
    by (simp add: prints_def upt_conv_Cons made_stage_def repo_libraries_def PrintStage_make_stage_def PrintStage_label_def
        TaskStage_label_def del: upt_Suc)
qed (simp add: prints_def)

lemma make_print_task:
  assumes "print_task Y m names"
  shows "\<exists>t s'. make_task E Y (repo_libraries E) m s = (Inr t, s') \<and> prints names t"
proof -
  obtain name a ns j i c where m: "optional_string Y m NAME_KEY = Inr name" "y_sub Y m STAGES_KEY = Inr a" "y_defined Y a"
      "y_as_vector Y a = Inr ns" "map (stage_key Y) ns = map Some (map (\<lambda>name. (name, ''libstages_lib.so'', ''print_stage'')) names)"
      "optional_json Y m CONFIGURATION_KEY ''Could not parse task configuration from '' = Inr j"
      "optional_json Y m INITIAL_INPUTS_KEY ''Could not parse task initial inputs from '' = Inr i"
      "y_sub Y m CALLBACK_KEY = Inr c" "\<not> y_defined Y c"
    using assms unfolding print_task_def by blast
  have "\<forall>k \<in> set (map (\<lambda>name. (name, ''libstages_lib.so'', ''print_stage'')) names). available (repo_libraries E) k"
    by (simp add: repo_print_stage_available)
  from load_stages_in_order [OF m(4,5) this, of s] obtain s1 where
    "load_stages Y (repo_libraries E) a s = (Inr (map2 (made_stage (repo_libraries E)) [draws (heap s)..<draws (heap s) + length names]
       (map (\<lambda>name. (name, ''libstages_lib.so'', ''print_stage'')) names)), s1)" by auto
  with m show ?thesis
    using made_print_stages [of names E "draws (heap s)"]
    by (simp add: make_task_def ebind_def fresh_draw_def task_ctor_defs set_json_config_def set_json_initial_inputs_def prints_def)
qed

lemma vertex_says_task:
  assumes "vertex_says E Y n (name, u, z)" "y_sub Y n TASK_KEY = Inr m"
  shows "\<exists>w s'. optional_task E Y (repo_libraries E) m s = (Inr w, s') \<and> rel_option prints z w"
proof (cases z)
  case None
  then show ?thesis using assms by (auto simp: vertex_says_def optional_task_def)
next
  case (Some names)
  with assms have "print_task Y m names" by (auto simp: vertex_says_def)
  with make_print_task [OF this, of E s] Some show ?thesis by (auto simp: optional_task_def print_task_def ebind_def)
qed

lemma make_vertex_says:
  assumes L: "libuuid_ok E" and un: "unconnected d (heap s)" and says: "vertex_says E Y n (name, u, z)"
    and new: "u \<notin> snd ` set (summary d (heap s))"
  shows "\<exists>d' t a v. make_vertex E Y (repo_libraries E) n d s = (Inr d', t) \<and> graph_of d' = graph_of d @ [a] \<and>
    vert (heap t) a = Some v \<and> rel_option prints z (v_task v) \<and> (\<forall>c \<in> set (graph_of d). vert (heap t) c = vert (heap s) c)"
proof -
  obtain us m where key: "optional_string Y n NAME_KEY = Inr name" "rbind (y_sub Y n UUID_KEY) (y_as_string Y) = Inr us"
      "UUID_from_string E us = Inr u" "y_sub Y n TASK_KEY = Inr m"
    using says unfolding vertex_says_def vertex_key_def rbind_def [of "optional_string Y n NAME_KEY"]
      rbind_def [of "rbind _ _"] rbind_def [of "UUID_from_string _ _"]
    by (auto split: sum.splits)
  obtain w s1 where w: "optional_task E Y (repo_libraries E) m s = (Inr w, s1)" "rel_option prints z w"
    using vertex_says_task [OF says key(4)] by blast
  have "keeps_heap (optional_task E Y (repo_libraries E) m)" unfolding optional_task_def by (intro keeps_heap_intros)
  note same = keeps_heapD [OF this w(1)]
  have un1: "unconnected d (heap s1)" by (rule unconnected_same_cells [OF same un])
  have alive: "\<forall>a \<in> set (graph_of d). vert (heap s1) a \<noteq> None" using un1 by (force simp: unconnected_def)
  let ?v = "DAGVertex_label_task_uuid name w u"
  have "v_uuid ?v \<notin> uuid_of (heap s1) ` set (graph_of d)"
    using new summary_same_cells [OF same, of d] snd_summary [of d "heap s1"] by (simp add: DAGVertex_label_task_uuid_def)
  from add_vertex_new [OF L alive this]
  have run: "make_vertex E Y (repo_libraries E) n d s =
      (Inr (d\<lparr>graph_of := graph_of d @ [brk (heap s1)]\<rparr>), s1\<lparr>heap := alloc ?v (heap s1)\<rparr>)"
    using key w(1) by (simp add: make_vertex_def ebind_def insert_vertex_def alloc_def)
  have "c \<noteq> brk (heap s1)" if "c \<in> set (graph_of d)" for c
    using that alive un1 by (auto simp: unconnected_def wf_store_def)
  then show ?thesis
    unfolding run using w(2) same_cells_vert [OF same]
    by (auto simp: vert_alloc DAGVertex_label_task_uuid_def)
qed

lemma make_vertices_say:
  assumes L: "libuuid_ok E"
  shows "list_all2 (vertex_says E Y) ns ks \<Longrightarrow> unconnected d (heap s) \<Longrightarrow>
    distinct (map snd (summary d (heap s)) @ map (\<lambda>(name, u, z). u) ks) \<Longrightarrow>
    \<exists>d' t as. efold (make_vertex E Y (repo_libraries E)) ns d s = (Inr d', t) \<and> graph_of d' = graph_of d @ as \<and>
      list_all2 (\<lambda>(name, u, z) a. rel_option prints z (v_task (the (vert (heap t) a)))) ks as \<and>
      (\<forall>c \<in> set (graph_of d). vert (heap t) c = vert (heap s) c)"
proof (induction ns arbitrary: ks d s)
  case (Cons n ns)
  then obtain name u z ks' where ks: "ks = (name, u, z) # ks'" "vertex_says E Y n (name, u, z)" "list_all2 (vertex_says E Y) ns ks'"
    by (auto simp: list_all2_Cons1)
  have "u \<notin> snd ` set (summary d (heap s))" using Cons.prems(3) ks(1) by auto
  from make_vertex_says [OF L Cons.prems(2) ks(2) this] obtain d1 s1 a v where
    one: "make_vertex E Y (repo_libraries E) n d s = (Inr d1, s1)" "graph_of d1 = graph_of d @ [a]" "vert (heap s1) a = Some v"
      "rel_option prints z (v_task v)" "\<forall>c \<in> set (graph_of d). vert (heap s1) c = vert (heap s) c" by blast
  from make_vertex_adds [OF L Cons.prems(2) one(1)] ks(2) have
    un: "unconnected d1 (heap s1)" "summary d1 (heap s1) = add_key (name, u) (summary d (heap s))"
    by (auto simp: vertex_says_def)
  have "summary d1 (heap s1) = summary d (heap s) @ [(name, u)]"
    using un(2) \<open>u \<notin> snd ` set (summary d (heap s))\<close> by (simp add: add_key_def)
  with Cons.prems(3) ks(1) have "distinct (map snd (summary d1 (heap s1)) @ map (\<lambda>(name, u, z). u) ks')" by auto
  from Cons.IH [OF ks(3) un(1) this] obtain d' t as where
    rest: "efold (make_vertex E Y (repo_libraries E)) ns d1 s1 = (Inr d', t)" "graph_of d' = graph_of d1 @ as"
      "list_all2 (\<lambda>(name, u, z) a. rel_option prints z (v_task (the (vert (heap t) a)))) ks' as"
      "\<forall>c \<in> set (graph_of d1). vert (heap t) c = vert (heap s1) c" by blast
  have "efold (make_vertex E Y (repo_libraries E)) (n # ns) d s = (Inr d', t)" using one(1) rest(1) by (simp add: ebind_def)
  moreover have "vert (heap t) a = Some v" using rest(4) one(2,3) by simp
  ultimately show ?case
    using rest(2,3,4) one(2,4,5) ks(1) by (intro exI [of _ d'] exI [of _ t] exI [of _ "a # as"]) simp
qed auto

section \<open>The graph of a document\<close>

lemma says_keys:
  "list_all2 (vertex_says L Y) ns ks \<Longrightarrow> rmap (vertex_key L Y) ns = Inr (map (\<lambda>(name, u, z). (name, u)) ks)"
  by (induction rule: list_all2_induct) (auto simp: vertex_says_def)

definition spec_uuid :: "vertex_spec \<Rightarrow> uuid_t" where
  "spec_uuid k = (case k of (name, u, z) \<Rightarrow> u)"

definition spec_stages :: "vertex_spec list \<Rightarrow> string list list" where
  "spec_stages ks = List.map_filter (\<lambda>(name, u, z). z) ks"

lemma make_dag_says:
  assumes L: "libuuid_ok E" and st: "wf_store (heap s)" and says: "document_says E Y n title ks"
    and ids: "distinct (map spec_uuid ks)"
  shows "\<exists>d t. make_dag E Y (repo_libraries E) n s = (Inr d, t) \<and> title_of d = title \<and>
    summary d (heap t) = map (\<lambda>(name, u, z). (name, u)) ks \<and>
    list_all2 (\<lambda>(name, u, z) a. rel_option prints z (v_task (the (vert (heap t) a)))) ks (graph_of d)"
proof -
  obtain m tn v ns j where doc: "y_sub Y n DAG_KEY = Inr m" "y_defined Y m" "y_is_map Y m"
      "optional_json Y m CONFIGURATION_KEY ''Could not parse dag configuration from '' = Inr j"
      "y_sub Y m TITLE_KEY = Inr tn" "y_defined Y tn" "y_as_string Y tn = Inr title"
      "y_sub Y m VERTICES_KEY = Inr v" "y_defined Y v" "y_is_sequence Y v" "y_as_vector Y v = Inr ns"
      "list_all2 (vertex_says E Y) ns ks"
    using says unfolding document_says_def by blast
  let ?d = "DAG_title_config title j"
  have start: "unconnected ?d (heap s)" "summary ?d (heap s) = []" "graph_of ?d = []"
    using unconnected_empty [OF st] by (simp_all add: DAG_title_config_def summary_def)
  have ids': "map (\<lambda>(name, u, z). u) ks = map spec_uuid ks" by (simp add: spec_uuid_def)
  obtain d t where run: "efold (make_vertex E Y (repo_libraries E)) ns ?d s = (Inr d, t)"
      and tasks: "list_all2 (\<lambda>(name, u, z) a. rel_option prints z (v_task (the (vert (heap t) a)))) ks (graph_of d)"
    using make_vertices_say [OF L doc(12) start(1)] ids start(2,3) by (auto simp: ids')
  have "make_dag E Y (repo_libraries E) n s = (Inr d, t)"
    using run doc by (simp add: make_dag_def make_dag_body_def make_defined_dag_def titled_dag_def make_vertices_def ebind_def)
  moreover from efold_make_vertex [OF L start(1) run] says_keys [OF doc(12)]
  have "summary d (heap t) = fold add_key (map (\<lambda>(name, u, z). (name, u)) ks) []" "title_of d = title"
    by (auto simp: start(2)) (simp_all add: DAG_title_config_def)
  moreover have "map snd (map (\<lambda>(name, u, z). (name, u)) ks) = map spec_uuid ks" by (simp add: spec_uuid_def case_prod_unfold)
  then have "fold add_key (map (\<lambda>(name, u, z). (name, u)) ks) [] = map (\<lambda>(name, u, z). (name, u)) ks"
    using fold_add_key_distinct [of "[]" "map (\<lambda>(name, u, z). (name, u)) ks"] ids unfolding append_Nil by metis
  ultimately show ?thesis using tasks by simp
qed

lemma document_tasks:
  "list_all2 (\<lambda>(name, u, z) a. rel_option prints z (v_task (the (vert s a)))) ks as \<Longrightarrow>
   list_all2 prints (spec_stages ks) (tasks_of s as)"
proof (induction rule: list_all2_induct)
  case (Cons k ks a as)
  obtain name u z where "k = (name, u, z)" by (cases k)
  with Cons show ?case
    by (cases z; cases "v_task (the (vert s a))") (auto simp: spec_stages_def tasks_of_def List.map_filter_simps)
qed (simp add: spec_stages_def tasks_of_def List.map_filter_simps)

section \<open>The output\<close>

text \<open>
  What the first thread of the pool does with the task that the scheduler gave it, in the logging state \<open>g\<close>,
  where \<open>tag\<close> is the thread's tag: its verdict, whom it calls back, and \<open>w\<close> with what it has written to the
  standard streams, log records included. The other threads write log records of their own, which are not part
  of it (the loop of \<open>startup\<close> announces the task, the deserializer and the graph report their steps).
\<close>

definition first_thread_output ::
    "('z) libuuid_scheme \<Rightarrow> logging \<Rightarrow> LogTag \<Rightarrow> task_queue \<Rightarrow> nat \<Rightarrow> written list \<Rightarrow> bool \<times> completion list \<times> written list" where
  "first_thread_output L g tag q m w =
     (case threaded_func (thread_log L g tag) print_stage_run (\<lambda>_. False) print_stage_vt (sch_pool (run_scheduler q m) ! 0) w of
        (all_ran, called, _, w') \<Rightarrow> (all_ran, called, w'))"

lemma first_thread_prints:
  assumes log: "logging_ok g" "sink_for g (LogTag_tag tag) = Some \<lparr>sk_stream = Cout, sk_level = Info, sk_tag = name\<rparr>"
    and pool: "sch_pool (run_scheduler q m) ! 0 = (case ts of [] \<Rightarrow> TaskThread_new
      | t # _ \<Rightarrow> TaskThread_new\<lparr>th_task := Some t, th_joinable := True\<rparr>)"
    and tasks: "list_all2 (\<lambda>names t. prints names t \<and> \<not> t_iterating t) ns ts" "length ns \<le> 1"
  shows "first_thread_output L g tag q m w = (ns \<noteq> [], [], w @ concat (map (\<lambda>t. concat (map (stage_lines L) (t_stages t))) ts))"
proof (cases ns)
  case Nil
  with pool tasks(1) show ?thesis by (simp add: first_thread_output_def threaded_func_def TaskThread_new_def)
next
  case (Cons names r)
  with tasks obtain t where t: "ns = [names]" "ts = [t]" "prints names t" "\<not> t_iterating t" by (auto simp: list_all2_Cons1)
  then have "Task_complete True t = []" by (simp add: prints_def Task_complete_def callback_is_set_def callback_plugin_is_set_def)
  with threaded_func_prints [OF _ t(4) log, of "TaskThread_new\<lparr>th_task := Some t, th_joinable := True\<rparr>" L w] pool t(1,2)
  show ?thesis by (simp add: first_thread_output_def)
qed

text \<open>The sink of a thread's tag outlives whatever is registered after the thread was made.\<close>

lemma thread_sink_stays:
  assumes "logging_ok g0" "sink_for g0 (c_str name) = None" "TaskThread_loggers name g0 = ((tag, added), g1)"
  shows "logging_ok (fold (\<lambda>v s. snd (add_tagged v s)) vs g1)"
    "sink_for (fold (\<lambda>v s. snd (add_tagged v s)) vs g1) (LogTag_tag tag) =
      Some \<lparr>sk_stream = Cout, sk_level = Info, sk_tag = c_str name\<rparr>"
proof -
  from TaskThread_loggers_ok [OF assms(1,2)] assms(3) have new: "logging_ok g1"
      "sink_for g1 (LogTag_tag tag) = Some \<lparr>sk_stream = Cout, sk_level = Info, sk_tag = c_str name\<rparr>"
    by auto
  from sinks.fold_ins [OF new(1), of vs] new(2)
  show "logging_ok (fold (\<lambda>v s. snd (add_tagged v s)) vs g1)"
    "sink_for (fold (\<lambda>v s. snd (add_tagged v s)) vs g1) (LogTag_tag tag) =
      Some \<lparr>sk_stream = Cout, sk_level = Info, sk_tag = c_str name\<rparr>"
    by blast+
qed

lemma document_runs:
  assumes env: "env_ok E" "\<not> ndebug E" and st: "wf_store (heap s)" and says: "document_says E Y n title ks"
    and ids: "distinct (map spec_uuid ks)" "0 \<notin> set (map spec_uuid ks)" and len: "length ks < 2 ^ 64"
    and log: "logging_ok g" "sink_for g (LogTag_tag tag) = Some \<lparr>sk_stream = Cout, sk_level = Info, sk_tag = name\<rparr>"
  shows "\<exists>d t cs q h. make_dag E Y (repo_libraries E) n s = (Inr d, t) \<and>
    process_dag E (length ks) d [] [] (heap t) = ((Inr True, cs, q), h) \<and>
    (\<forall>m \<ge> 4 * length ks + 11. list_all2 prints (take 1 (spec_stages ks)) (dispatched (run_scheduler q m)) \<and>
       first_thread_output E g tag q m w = (spec_stages ks \<noteq> [], [],
         w @ concat (map (\<lambda>t. concat (map (stage_lines E) (t_stages t))) (dispatched (run_scheduler q m)))))"
proof -
  note L = env_ok_libuuid [OF env(1)]
  obtain d t where run: "make_dag E Y (repo_libraries E) n s = (Inr d, t)"
      and sum: "summary d (heap t) = map (\<lambda>(name, u, z). (name, u)) ks"
      and tasks: "list_all2 (\<lambda>(name, u, z) a. rel_option prints z (v_task (the (vert (heap t) a)))) ks (graph_of d)"
    using make_dag_says [OF L st says ids(1)] by blast
  have count: "vertex_count d = length ks" using list_all2_lengthD [OF tasks] by (simp add: vertex_count_def)
  have "uuid_of (heap t) ` set (graph_of d) = spec_uuid ` set ks"
    unfolding snd_summary [symmetric] sum by (force simp: spec_uuid_def)
  then have wf: "wf_dag d (heap t)"
    using make_dag_wf_dag [OF L repo_libraries_creators [OF L] st run] ids(2) count len by (simp add: vertex_count_def)
  have arcs: "arcs (heap t) (graph_of d) = {}" using unconnected_arcs make_dag_summary [OF L st run] by blast
  obtain Bs cs q h where p: "process_dag E (length ks) d [] [] (heap t) = ((Inr True, cs, q), h)"
      "layered {} (graph_of d) Bs"
    and m: "\<And>m. 4 * vertex_count d + 11 \<le> m \<Longrightarrow>
       list_all2 (\<lambda>t t'. same_task t t' \<and> \<not> t_iterating t' \<and> \<not> t_kill t') (take 1 (tasks_of (heap t) (concat Bs))) (dispatched (run_scheduler q m)) \<and>
       length (filter (\<lambda>p. p \<noteq> None) (sch_queue (run_scheduler q m))) = length (tasks_of (heap t) (concat Bs)) - 1 \<and>
       sch_pool (run_scheduler q m) ! 0 = (case dispatched (run_scheduler q m) of
         [] \<Rightarrow> TaskThread_new | t # _ \<Rightarrow> TaskThread_new\<lparr>th_task := Some t, th_joinable := True\<rparr>)"
    by (rule processed_graph_starts_one [OF env wf, of "length ks" "[]", unfolded arcs]) (use count in simp_all)
  have Bs: "concat Bs = graph_of d" using p(2) by (simp add: layered_no_arcs)
  have first: "list_all2 prints (take 1 (spec_stages ks)) (take 1 (tasks_of (heap t) (graph_of d)))"
    using document_tasks [OF tasks] by (rule list_all2_takeI)
  have "list_all2 (\<lambda>names t. prints names t \<and> \<not> t_iterating t) (take 1 (spec_stages ks)) (dispatched (run_scheduler q k)) \<and>
       first_thread_output E g tag q k w = (spec_stages ks \<noteq> [], [],
         w @ concat (map (\<lambda>t. concat (map (stage_lines E) (t_stages t))) (dispatched (run_scheduler q k))))" if "4 * length ks + 11 \<le> k" for k
  proof -
    note mk = m [of k, unfolded count Bs, OF that]
    have both: "list_all2 (\<lambda>names t. prints names t \<and> \<not> t_iterating t) (take 1 (spec_stages ks)) (dispatched (run_scheduler q k))"
      by (rule list_all2_trans [OF _ first conjunct1 [OF mk]]) (simp add: prints_same_task)
    with first_thread_prints [OF log, of q k "dispatched (run_scheduler q k)" "take 1 (spec_stages ks)" E w] mk show ?thesis by simp
  qed
  moreover have "list_all2 (\<lambda>names t. prints names t \<and> \<not> t_iterating t) xs ys \<Longrightarrow> list_all2 prints xs ys" for xs ys
    by (erule list_all2_mono) simp
  ultimately show ?thesis using run p(1) by blast
qed

end
