(* ===== verification/Dag_Equal.thy ===== *)
theory Dag_Equal
  imports Dag_Process
begin

text \<open>
  \<open>operator==\<close> on graphs (\<open>lib/dag.cxx\<close>): what it decides. The reference is \<open>same_profile\<close>, stated on the set
  of arcs: two vertices agree in identifier, status and label and have as many outgoing and as many incoming
  arcs.
\<close>

section \<open>The reference\<close>

definition same_profile :: "store \<Rightarrow> addr list \<Rightarrow> addr list \<Rightarrow> addr \<Rightarrow> addr \<Rightarrow> bool" where
  "same_profile s g h a b \<longleftrightarrow>
     v_status (the (vert s a)) = v_status (the (vert s b)) \<and> uuid_of s a = uuid_of s b \<and>
     v_label (the (vert s a)) = v_label (the (vert s b)) \<and>
     card (arcs s g `` {a}) = card (arcs s h `` {b}) \<and> card ((arcs s g)\<inverse> `` {a}) = card ((arcs s h)\<inverse> `` {b})"

lemma preds_converse: "preds s g a = (arcs s g)\<inverse> `` {a}"
  by (auto simp: preds_arcs)

lemma out_degree:
  assumes "wf_graph s g" "a \<in> set g"
  shows "edge_count (the (vert s a)) = card (arcs s g `` {a})"
proof -
  obtain v where v: "vert s a = Some v" "distinct (succs s a)" "set (succs s a) \<subseteq> Some ` set g"
    using wf_graphE [OF assms] by metis
  have "set (succs s a) = Some ` (arcs s g `` {a})" using v(3) assms(2) by (auto simp: arcs_def)
  then have "card (set (succs s a)) = card (arcs s g `` {a})" by (simp add: card_image)
  then show ?thesis using v distinct_card [of "succs s a"] by (simp add: edge_count_def succs_def)
qed

lemma in_degree:
  assumes "wf_graph s g" "a \<in> set g"
  shows "incomming_edge_count (the (vert s a)) = of_nat (card ((arcs s g)\<inverse> `` {a}))" "card ((arcs s g)\<inverse> `` {a}) < 2 ^ 64"
proof -
  obtain v where "vert s a = Some v" "v_in v = of_nat (card (preds s g a))" using wf_graphE [OF assms] by metis
  then show "incomming_edge_count (the (vert s a)) = of_nat (card ((arcs s g)\<inverse> `` {a}))"
    by (simp add: incomming_edge_count_def preds_converse)
  show "card ((arcs s g)\<inverse> `` {a}) < 2 ^ 64" using card_preds_less [OF assms(1)] by (simp add: preds_converse)
qed

lemma vertex_eq_profile:
  assumes "libuuid_ok L" "wf_graph s g" "wf_graph s h" "a \<in> set g" "b \<in> set h"
  shows "vertex_eq L (the (vert s a)) (the (vert s b)) \<longleftrightarrow> same_profile s g h a b"
  using out_degree [OF assms(2,4)] out_degree [OF assms(3,5)] in_degree [OF assms(2,4)] in_degree [OF assms(3,5)]
  by (auto simp: vertex_eq_def same_profile_def uuid_of_def as_string_eq_iff [OF assms(1)] of_nat_size_t_eq)

section \<open>The loop over the vertices\<close>

lemma compare_vertices_equal_length:
  "i + length vs = length rhs \<Longrightarrow>
   compare_vertices L s vs rhs i True =
     Inr (list_all2 (\<lambda>a b. vertex_eq L (the (vert s a)) (the (vert s b)) \<and> owners s a = owners s b) vs (drop i rhs))"
proof (induction vs arbitrary: i)
  case (Cons v vs)
  then have i: "i < length rhs" by simp
  show ?case using Cons.IH [of "Suc i"] Cons.prems by (auto simp: elem_at_def i Let_def Cons_nth_drop_Suc [OF i, symmetric])
qed simp

lemma compare_vertices_other_length:
  "vs = [] \<or> rhs \<noteq> [] \<Longrightarrow> compare_vertices L s vs rhs 0 False = Inr False"
  by (cases vs) (auto simp: elem_at_def)

lemma edge_count_profile:
  assumes "list_all2 (\<lambda>a b. edge_count (the (vert s a)) = edge_count (the (vert s b))) (graph_of d1) (graph_of d2)"
  shows "DAG_edge_count d1 s = DAG_edge_count d2 s"
proof -
  have "fold (\<lambda>a ret. ret + of_nat (edge_count (the (vert s a)))) xs r = fold (\<lambda>a ret. ret + of_nat (edge_count (the (vert s a)))) ys r"
    if "list_all2 (\<lambda>a b. edge_count (the (vert s a)) = edge_count (the (vert s b))) xs ys" for xs ys and r :: size_t
    using that by (induction xs ys arbitrary: r rule: list_all2_induct) simp_all
  with assms show ?thesis by (simp add: DAG_edge_count_def linear_traversal_def)
qed

definition same_profiles :: "store \<Rightarrow> DAG \<Rightarrow> DAG \<Rightarrow> bool" where
  "same_profiles s d1 d2 \<longleftrightarrow> list_all2 (same_profile s (graph_of d1) (graph_of d2)) (graph_of d1) (graph_of d2)"

lemma compare_vertices_profiles:
  assumes L: "libuuid_ok L" and wf: "wf_dag d1 s" "wf_dag d2 s" and ne: "graph_of d1 = [] \<or> graph_of d2 \<noteq> []"
  shows "compare_vertices L s (graph_of d1) (graph_of d2) 0 (length (graph_of d1) = length (graph_of d2)) =
    Inr (same_profiles s d1 d2)"
proof (cases "length (graph_of d1) = length (graph_of d2)")
  case True
  have "vertex_eq L (the (vert s a)) (the (vert s b)) \<and> owners s a = owners s b \<longleftrightarrow> same_profile s (graph_of d1) (graph_of d2) a b"
    if "a \<in> set (graph_of d1)" "b \<in> set (graph_of d2)" for a b
    using vertex_eq_profile [OF L wf_dagD(2) [OF wf(1)] wf_dagD(2) [OF wf(2)] that] wf_dagD(5) [OF wf(1) that(1)]
      wf_dagD(5) [OF wf(2) that(2)] by simp
  then have "list_all2 (\<lambda>a b. vertex_eq L (the (vert s a)) (the (vert s b)) \<and> owners s a = owners s b) (graph_of d1) (graph_of d2)
      \<longleftrightarrow> same_profiles s d1 d2"
    unfolding same_profiles_def by (intro list.rel_cong refl) blast
  with True show ?thesis using compare_vertices_equal_length [of 0 "graph_of d1" "graph_of d2" L s] by simp
next
  case False
  moreover from this have "\<not> same_profiles s d1 d2" by (auto simp: same_profiles_def dest: list_all2_lengthD)
  ultimately show ?thesis using compare_vertices_other_length [OF ne] by simp
qed

lemma same_profiles_counts:
  assumes "wf_dag d1 s" "wf_dag d2 s" "same_profiles s d1 d2"
  shows "vertex_count d1 = vertex_count d2" "DAG_edge_count d1 s = DAG_edge_count d2 s"
proof -
  show "vertex_count d1 = vertex_count d2"
    using assms(3) by (auto simp: vertex_count_def same_profiles_def dest: list_all2_lengthD)
  show "DAG_edge_count d1 s = DAG_edge_count d2 s"
  proof (rule edge_count_profile, rule list.rel_mono_strong [OF assms(3) [unfolded same_profiles_def]])
    fix a b assume "a \<in> set (graph_of d1)" "b \<in> set (graph_of d2)" "same_profile s (graph_of d1) (graph_of d2) a b"
    then show "edge_count (the (vert s a)) = edge_count (the (vert s b))"
      using out_degree [OF wf_dagD(2) [OF assms(1)]] out_degree [OF wf_dagD(2) [OF assms(2)]]
      by (simp add: same_profile_def)
  qed
qed

section \<open>The operator\<close>

lemma same_profiles_cong:
  assumes "\<And>a. a \<in> set (graph_of d1) \<union> set (graph_of d2) \<Longrightarrow> vert t a = vert s a"
  shows "same_profiles t d1 d2 = same_profiles s d1 d2"
proof -
  have "arcs t (graph_of d1) = arcs s (graph_of d1)" "arcs t (graph_of d2) = arcs s (graph_of d2)"
    by (rule wf_graph_cong(2), simp add: assms)+
  then show ?thesis
    unfolding same_profiles_def by (intro list.rel_cong refl) (simp add: same_profile_def uuid_of_def assms)
qed

lemma DAG_eq_ok:
  assumes env: "env_ok E" and wf: "wf_dag d1 s" "wf_dag d2 s" and j: "config_of d1 = Some j1" "config_of d2 = Some j2"
    and ne: "graph_of d1 = [] \<or> graph_of d2 \<noteq> []"
  shows "\<exists>t. DAG_eq E d1 d2 s = (Inr (same_profiles s d1 d2 \<and> json_equal E j1 j2), t) \<and> same_cells s t"
proof -
  from DAG_copy_ok [OF env wf_dagD(1,2) [OF wf(1)] j(1)] obtain c1 t where
    c1: "DAG_clone E d1 s = (Inr c1, t)" "copied s d1 t c1" by (auto simp: DAG_clone_def)
  note k1 = copiedD [OF c1(2)]
  have wft: "wf_dag d1 t" "wf_dag d2 t" using wf_dag_old_cells [OF _ k1(8) k1(5)] wf by blast+
  from DAG_copy_ok [OF env wf_dagD(1,2) [OF wft(2)] j(2)] obtain c2 u where
    c2: "DAG_clone E d2 t = (Inr c2, u)" "copied t d2 u c2" by (auto simp: DAG_clone_def)
  note k2 = copiedD [OF c2(2)]
  have wfu: "wf_dag d1 u" "wf_dag d2 u" using wf_dag_old_cells [OF _ k2(8) k2(5)] wft by blast+
  have old: "cells u c = cells s c" if "c < brk s" for c using k1(4,8) k2(8) that by simp
  have "vert u a = vert s a" if "a \<in> set (graph_of d1) \<union> set (graph_of d2)" for a
    using that old wf_dagD(7) [OF wf(1)] wf_dagD(7) [OF wf(2)] by (auto simp: vert_def)
  then have prof: "same_profiles u d1 d2 = same_profiles s d1 d2" by (rule same_profiles_cong)
  have cmp: "compare_vertices E u (graph_of d1) (graph_of d2) 0 (length (graph_of d1) = length (graph_of d2)) =
      Inr (same_profiles s d1 d2)"
    using compare_vertices_profiles [OF env_ok_libuuid [OF env] wfu ne] prof by simp
  have "DAG_eq E d1 d2 s = (Inr (same_profiles s d1 d2 \<and> json_equal E j1 j2), free_from (brk s) u)"
    using same_profiles_counts [OF wfu] prof
    by (auto simp: DAG_eq_def ebind_def c1(1) c2(1) cmp j DAG_json_config_def elift_def eret_def)
  moreover have "same_cells s (free_from (brk s) u)"
    using free_from_same_cells [OF wf_dagD(1) [OF wf(1)] old] k1(4) k2(4) by simp
  ultimately show ?thesis by blast
qed

lemma DAG_ne_ok:
  assumes "env_ok E" "wf_dag d1 s" "wf_dag d2 s" "config_of d1 = Some j1" "config_of d2 = Some j2"
    and "graph_of d1 = [] \<or> graph_of d2 \<noteq> []"
  shows "\<exists>t. DAG_ne E d1 d2 s = (Inr (\<not> (same_profiles s d1 d2 \<and> json_equal E j1 j2)), t) \<and> same_cells s t"
  using DAG_eq_ok [OF assms] by (auto simp: DAG_ne_def ebind_def)

text \<open>Comparing a graph that has vertices with one that has none reads past the end of an empty vector.\<close>

lemma DAG_eq_empty_right:
  assumes env: "env_ok E" and wf: "wf_dag d1 s" "wf_dag d2 s" and g: "graph_of d1 \<noteq> []" "graph_of d2 = []"
  shows "fst (DAG_eq E d1 d2 s) = Inl OutOfRange"
proof -
  obtain j1 j2 where j: "config_of d1 = Some j1" "config_of d2 = Some j2" using wf_dagD(4) [OF wf(1)] wf_dagD(4) [OF wf(2)] by blast
  from DAG_copy_ok [OF env wf_dagD(1,2) [OF wf(1)] j(1)] obtain c1 t where
    c1: "DAG_clone E d1 s = (Inr c1, t)" "copied s d1 t c1" by (auto simp: DAG_clone_def)
  note k1 = copiedD [OF c1(2)]
  have "wf_dag d2 t" using wf_dag_old_cells [OF wf(2) k1(8) k1(5)] .
  from DAG_copy_ok [OF env wf_dagD(1,2) [OF this] j(2)] obtain c2 u where
    c2: "DAG_clone E d2 t = (Inr c2, u)" by (auto simp: DAG_clone_def)
  obtain v vs where "graph_of d1 = v # vs" using g(1) by (cases "graph_of d1") auto
  with g(2) show ?thesis by (simp add: DAG_eq_def ebind_def c1(1) c2 elem_at_def)
qed

section \<open>A graph and its clone\<close>

lemma copied_profiles:
  assumes wf: "wf_dag d s" and c: "copied s d t d'"
  shows "same_profiles t d d'"
proof -
  let ?g = "graph_of d" and ?f = "copy_addr s (graph_of d)"
  note w = wf_dagD [OF wf] and k = copiedD [OF c]
  have inj: "inj_on ?f (set ?g)" by (rule inj_on_copy_addr)
  have vt: "vert t a = vert s a" if "a \<in> set ?g" for a using k(8) [OF w(7) [OF that]] by (simp add: vert_def)
  have arcs: "arcs t ?g = arcs s ?g" by (rule wf_graph_cong(2)) (rule vt)
  have in_g: "arcs s ?g \<subseteq> set ?g \<times> set ?g" using arcs_in_graph [OF w(2)] by auto
  have img: "arcs t (graph_of d') `` {?f a} = ?f ` (arcs s ?g `` {a})" "(arcs t (graph_of d'))\<inverse> `` {?f a} = ?f ` ((arcs s ?g)\<inverse> `` {a})"
    if "a \<in> set ?g" for a
    unfolding k(7) using in_g that inj by (auto dest: inj_onD)
  have degrees: "card (arcs s ?g `` {a}) = card (arcs t (graph_of d') `` {?f a})"
      "card ((arcs s ?g)\<inverse> `` {a}) = card ((arcs t (graph_of d'))\<inverse> `` {?f a})" if "a \<in> set ?g" for a
    unfolding img [OF that] by (rule card_image [symmetric], rule inj_on_subset [OF inj], use in_g in auto)+
  show ?thesis
    unfolding same_profiles_def
  proof (rule list_all2_all_nthI)
    show "length ?g = length (graph_of d')" using k(1) by simp
  next
    fix i assume i: "i < length ?g"
    from c i obtain v w where vw: "vert s (?g ! i) = Some v" "vert t (brk s + i) = Some w" "same_vertex v w"
      unfolding copied_def by blast
    have g: "?g ! i \<in> set ?g" using i by simp
    have "graph_of d' ! i = brk s + i" using k(1) i by simp
    moreover have "?f (?g ! i) = brk s + i" using wf_graph_distinct [OF w(2)] i by simp
    ultimately show "same_profile t ?g (graph_of d') (?g ! i) (graph_of d' ! i)"
      using vw vt [OF g] degrees [OF g] by (simp add: same_profile_def arcs uuid_of_def same_vertex_def)
  qed
qed

lemma clone_equals_original:
  assumes env: "env_ok E" and wf: "wf_dag d s" and j: "config_of d = Some j" and clone: "DAG_clone E d s = (Inr d', t)"
  shows "\<exists>u. DAG_eq E d d' t = (Inr (json_equal E j j), u)"
proof -
  have c: "copied s d t d'" using DAG_copy_ok [OF env wf_dagD(1,2) [OF wf] j] clone by (auto simp: DAG_clone_def)
  note k = copiedD [OF c]
  have "wf_dag d t" "wf_dag d' t" using wf_dag_old_cells [OF wf k(8) k(5)] copied_wf_dag [OF wf c] by blast+
  from DAG_eq_ok [OF env this j] k(1,3) j copied_profiles [OF wf c] show ?thesis by fastforce
qed

end
