(* ===== verification/Pipeline_Claims.thy ===== *)
theory Pipeline_Claims
  imports Document_Run Yaml_Claims Dag_Equal Sample_Graph
begin

text \<open>
  The properties of the parts together (theories \<open>Yaml_Types\<close>, \<open>Pipeline\<close>, \<open>Document_Run\<close>), with a document
  that uses the repository's stage library.
\<close>

section \<open>A document\<close>

definition print_stage_node :: "string \<Rightarrow> ynode" where
  "print_stage_node name = YMap [(NAME_KEY, YScalar name), (LIBRARY_NAME_KEY, YScalar ''libstages_lib.so''),
     (SYMBOL_NAME_KEY, YScalar ''print_stage'')]"

definition print_task_node :: "string list \<Rightarrow> ynode" where
  "print_task_node names = YMap [(NAME_KEY, YScalar ''hello''), (STAGES_KEY, YSeq (map print_stage_node names))]"

definition print_document :: ynode where
  "print_document = YMap [(DAG_KEY, YMap [(TITLE_KEY, YScalar ''etl''), (VERTICES_KEY,
     YSeq [sample_vertex_node ''empty'' 1 [], sample_vertex_node ''first'' 2 [(TASK_KEY, print_task_node [''one'', ''two''])],
           sample_vertex_node ''second'' 3 [(TASK_KEY, print_task_node [''three''])]])])]"

lemma print_task_node_says: "print_task sample_yaml (print_task_node names) names"
  by (simp add: print_task_def print_task_node_def print_stage_node_def sample_yaml_def yaml_sub_def optional_string_def
      optional_json_def key_defs stage_key_def comp_def)

lemma print_vertex_says:
  assumes "u \<noteq> 0"
  shows "vertex_says (sample_env False) sample_yaml (sample_vertex_node name u []) (name, u, None)"
    and "vertex_says (sample_env False) sample_yaml (sample_vertex_node name u [(TASK_KEY, print_task_node names)]) (name, u, Some names)"
  using sample_vertex_key [OF assms] print_task_node_says
  by (simp_all add: vertex_says_def, simp_all add: sample_vertex_node_def sample_yaml_def yaml_sub_def key_defs)

lemma print_document_says:
  "document_says (sample_env False) sample_yaml print_document ''etl''
     [(''empty'', 1, None), (''first'', 2, Some [''one'', ''two'']), (''second'', 3, Some [''three''])]"
proof -
  let ?ns = "[sample_vertex_node ''empty'' 1 [], sample_vertex_node ''first'' 2 [(TASK_KEY, print_task_node [''one'', ''two''])],
     sample_vertex_node ''second'' 3 [(TASK_KEY, print_task_node [''three''])]]"
  have "list_all2 (vertex_says (sample_env False) sample_yaml) ?ns
      [(''empty'', 1, None), (''first'', 2, Some [''one'', ''two'']), (''second'', 3, Some [''three''])]"
    by (simp add: print_vertex_says)
  then show ?thesis
    unfolding document_says_def
    by (intro exI [of _ "YMap [(TITLE_KEY, YScalar ''etl''), (VERTICES_KEY, YSeq ?ns)]"] exI [of _ "YScalar ''etl''"]
        exI [of _ "YSeq ?ns"] exI [of _ ?ns])
      (simp add: print_document_def sample_yaml_def yaml_sub_def key_defs optional_json_def)
qed

lemmas print_document_facts = sample_env_ok [of False] wf_empty_deser print_document_says

section \<open>From a document to its output\<close>



text \<open>
  C9. Of a graph that \<open>process_dag\<close> has queued the scheduler starts one task, the first in the order of the
  layers (a clone of it), and never another: all the other tasks are still in the queue after any number of
  further steps of its loop.
\<close>

theorem processed_graph_runs_one_task:
  assumes "env_ok E" "\<not> ndebug E" "wf_dag d s" "vertex_count d \<le> n"
  shows "\<exists>Bs cs q t. process_dag E n d out [] s = ((Inr True, cs, q), t) \<and>
    layered (arcs s (graph_of d)) (graph_of d) Bs \<and>
    (\<forall>m \<ge> 4 * vertex_count d + 11.
       list_all2 same_task (take 1 (tasks_of s (concat Bs))) (dispatched (run_scheduler q m)) \<and>
       length (filter (\<lambda>p. p \<noteq> None) (sch_queue (run_scheduler q m))) = length (tasks_of s (concat Bs)) - 1)"
proof -
  obtain Bs cs q t where p: "process_dag E n d out [] s = ((Inr True, cs, q), t)" "layered (arcs s (graph_of d)) (graph_of d) Bs"
    and m: "\<And>m. 4 * vertex_count d + 11 \<le> m \<Longrightarrow>
       list_all2 (\<lambda>t t'. same_task t t' \<and> \<not> t_iterating t' \<and> \<not> t_kill t') (take 1 (tasks_of s (concat Bs))) (dispatched (run_scheduler q m)) \<and>
       length (filter (\<lambda>p. p \<noteq> None) (sch_queue (run_scheduler q m))) = length (tasks_of s (concat Bs)) - 1"
    by (rule processed_graph_starts_one [OF assms, of out]) blast
  have "list_all2 (\<lambda>t t'. same_task t t' \<and> \<not> t_iterating t' \<and> \<not> t_kill t') xs ys \<Longrightarrow> list_all2 same_task xs ys" for xs ys
    by (erule list_all2_mono) simp
  with p m show ?thesis by blast
qed

theorem processed_graph_runs_one_task_witness:
  "\<exists>cs q t tk. process_dag (sample_env False) 3 sample_dag [] [] sample_store = ((Inr True, cs, q), t) \<and>
     dispatched (run_scheduler q 23) = [tk] \<and> t_label tk = ''extract''"
proof -
  obtain Bs cs q t where p: "process_dag (sample_env False) 3 sample_dag [] [] sample_store = ((Inr True, cs, q), t)"
      "layered (arcs sample_store sample_graph) sample_graph Bs"
      "list_all2 same_task (take 1 (tasks_of sample_store (concat Bs))) (dispatched (run_scheduler q 23))"
    using processed_graph_runs_one_task [OF sample_env_ok _ wf_sample_dag, of False 3 "[]"]
    by (auto simp: vertex_count_def sample_graph_def)
  from p(2) [unfolded arcs_sample] obtain Cs where "Bs = [0] # Cs"
    by (cases Bs) (auto simp: layered.simps(2) sources_def sample_graph_def)
  then have "take 1 (tasks_of sample_store (concat Bs)) = [the (v_task (the (vert sample_store 0)))]"
    by (simp add: tasks_of_def List.map_filter_simps sample_vertex_def)
  with p(3) obtain tk where "dispatched (run_scheduler q 23) = [tk]" "same_task (the (v_task (the (vert sample_store 0)))) tk"
    by (auto simp: list_all2_Cons1)
  with p(1) show ?thesis by (auto simp: same_task_def sample_vertex_def sample_task_def)
qed

text \<open>
  \<open>startup\<close> makes progress on its own: within \<open>4 n + 11\<close> steps on a queue of \<open>n\<close> pointers it has dropped the
  null pointers at the front and handed the first task to the first thread. From then on it neither starts
  a task nor takes one from the queue.
\<close>

theorem startup_runs_first_task:
  assumes "4 * length q + 11 \<le> n"
  shows "dispatched (run_scheduler q n) = map the (take 1 (dropWhile is_null q)) \<and>
    sch_queue (run_scheduler q n) = drop 1 (dropWhile is_null q)"
  using run_scheduler_first [OF assms] by blast

theorem startup_runs_first_task_witness:
  "dispatched (run_scheduler [None, Some (sample_task 1 ''a'' []), Some (sample_task 2 ''b'' [])] 100) = [sample_task 1 ''a'' []] \<and>
   sch_queue (run_scheduler [None, Some (sample_task 1 ''a'' []), Some (sample_task 2 ''b'' [])] 100) = [Some (sample_task 2 ''b'' [])]"
  using startup_runs_first_task [of "[None, Some (sample_task 1 ''a'' []), Some (sample_task 2 ''b'' [])]" 100]
  by (simp add: is_null_def)

section \<open>Graphs from documents\<close>

text \<open>
  C15. A graph that the deserializer returns satisfies the invariant of the class \<open>DAG\<close>, provided that no
  vertex of the document has the nil identifier, that there are fewer than \<open>2 ^ 64\<close> of them and that the
  libraries' creators give their stages identifiers. Whatever connections the document lists, it has no arcs:
  the documented section \<open>Connections\<close> is not read.
\<close>

theorem make_dag_well_formed:
  assumes "libuuid_ok E" "creators_ok D" "wf_store (heap s)" "make_dag E Y D n s = (Inr d, t)"
    and "0 \<notin> uuid_of (heap t) ` set (graph_of d)" "length (graph_of d) < 2 ^ 64"
  shows "wf_dag d (heap t) \<and> arcs (heap t) (graph_of d) = {}"
  using make_dag_wf_dag [OF assms] unconnected_arcs make_dag_summary [OF assms(1,3,4)] by blast

theorem make_dag_well_formed_witness:
  "\<exists>d t. make_dag (sample_env False) sample_yaml (repo_libraries (sample_env False)) print_document empty_deser = (Inr d, t) \<and>
     length (graph_of d) = 3 \<and> wf_dag d (heap t)"
proof -
  note L = env_ok_libuuid [OF sample_env_ok [of False]]
  obtain d t where run: "make_dag (sample_env False) sample_yaml (repo_libraries (sample_env False)) print_document empty_deser = (Inr d, t)"
      and keys: "summary d (heap t) = [(''empty'', 1), (''first'', 2), (''second'', 3)]"
    using make_dag_says [OF L wf_empty_deser print_document_says] by (auto simp: spec_uuid_def)
  have len: "length (graph_of d) = 3" using arg_cong [OF keys, of length] by (simp add: summary_def)
  have "0 \<notin> uuid_of (heap t) ` set (graph_of d)" unfolding snd_summary [symmetric] keys by simp
  with make_dag_well_formed [OF L repo_libraries_creators [OF L] wf_empty_deser run] run len show ?thesis by auto
qed

lemma make_dag_batch:
  assumes "env_ok E" "\<not> ndebug E" "creators_ok D" "wf_store (heap s)" "make_dag E Y D n s = (Inr d, t)"
    and "0 \<notin> uuid_of (heap t) ` set (graph_of d)" "length (graph_of d) < 2 ^ 64" "graph_of d \<noteq> []" "vertex_count d \<le> k"
  shows "\<exists>c vs h. process_dag E k d out queue (heap t) = ((Inr True, [c], queue @ map v_task vs), h) \<and>
    list_all2 (copy_of (heap t)) (graph_of d) c \<and> list_all2 (copy_of (heap t)) (graph_of d) vs"
proof -
  note L = env_ok_libuuid [OF assms(1)]
  have "wf_dag d (heap t)" using make_dag_wf_dag [OF L assms(3-7)] .
  moreover have "arcs (heap t) (graph_of d) = {}" using unconnected_arcs make_dag_summary [OF L assms(4,5)] by blast
  ultimately show ?thesis using deserialized_batch [OF assms(1,2) _ _ assms(8,9)] by blast
qed

lemma copies_summary:
  "list_all2 (copy_of s) (graph_of d) vs \<Longrightarrow> map (\<lambda>v. (v_label v, v_uuid v)) vs = summary d s"
proof -
  have "list_all2 (copy_of s) as vs \<Longrightarrow>
      map (\<lambda>v. (v_label v, v_uuid v)) vs = map (\<lambda>a. (v_label (the (vert s a)), uuid_of s a)) as" for as vs
    by (induction rule: list_all2_induct) (auto simp: copy_of_def same_vertex_def uuid_of_def)
  then show "list_all2 (copy_of s) (graph_of d) vs \<Longrightarrow> ?thesis" by (simp add: summary_def)
qed

lemma fold_add_key_bounds:
  "length (fold add_key ks ls) \<le> length ls + length ks" "set (fold add_key ks ls) \<subseteq> set ls \<union> set ks"
  "ls \<noteq> [] \<or> ks \<noteq> [] \<Longrightarrow> fold add_key ks ls \<noteq> []"
proof (induction ks arbitrary: ls)
  case (Cons k ks)
  have one: "length (add_key k ls) \<le> Suc (length ls)" "set (add_key k ls) \<subseteq> insert k (set ls)" "add_key k ls \<noteq> []" for ls
    by (auto simp: add_key_def)
  { case 1 show ?case using Cons.IH(1) [of "add_key k ls"] one(1) [of ls] by simp }
  { case 2 show ?case using Cons.IH(2) [of "add_key k ls"] one(2) [of ls] by auto }
  { case 3 show ?case using Cons.IH(3) [of "add_key k ls"] one(3) [of ls] by simp }
qed simp_all

text \<open>
  C16. In a debug build, processing a graph read from a document gives one single batch with all its vertices, in
  the order of the document (of vertices with one identifier only the first), and queues their tasks in that
  order, whatever connections the document lists. The document is one whose title, labels, identifiers and tasks
  can be read; it has at least one vertex, none with the nil identifier and fewer than \<open>2 ^ 64\<close>, and the libraries'
  creators give their stages identifiers.
\<close>

theorem make_dag_one_batch:
  assumes "env_ok E" "\<not> ndebug E" "creators_ok D" "wf_store (heap s)"
    and "y_sub Y n DAG_KEY = Inr m" "y_defined Y m" "y_is_map Y m"
    and "optional_json Y m CONFIGURATION_KEY ''Could not parse dag configuration from '' = Inr j"
    and "y_sub Y m TITLE_KEY = Inr tn" "y_defined Y tn" "y_as_string Y tn = Inr title"
    and "y_sub Y m VERTICES_KEY = Inr v" "y_defined Y v" "y_is_sequence Y v" "y_as_vector Y v = Inr ns"
    and "rmap (vertex_key E Y) ns = Inr ks" "\<forall>n \<in> set ns. task_loads E Y D n"
    and "ks \<noteq> []" "0 \<notin> snd ` set ks" "length ks < 2 ^ 64" "length ks \<le> k"
  shows "\<exists>d t c vs h. make_dag E Y D n s = (Inr d, t) \<and>
    process_dag E k d out queue (heap t) = ((Inr True, [c], queue @ map v_task vs), h) \<and>
    map (\<lambda>v. (v_label v, v_uuid v)) c = fold add_key ks [] \<and>
    map (\<lambda>v. (v_label v, v_uuid v)) vs = fold add_key ks [] \<and>
    list_all2 (copy_of (heap t)) (graph_of d) c \<and> list_all2 (copy_of (heap t)) (graph_of d) vs"
proof -
  obtain d t where run: "make_dag E Y D n s = (Inr d, t)" and keys: "summary d (heap t) = fold add_key ks []"
    using make_dag_accepts [OF env_ok_libuuid [OF assms(1)] assms(4-17)] by blast
  have bounds: "length (summary d (heap t)) \<le> length ks" "set (summary d (heap t)) \<subseteq> set ks" "summary d (heap t) \<noteq> []"
    using fold_add_key_bounds(1,2) [of ks "[]"] fold_add_key_bounds(3) [OF disjI2, OF assms(18), of "[]"] unfolding keys by auto
  have len: "length (graph_of d) = length (summary d (heap t))" by (simp add: summary_def)
  have "0 \<notin> snd ` set (summary d (heap t))" using bounds(2) assms(19) by auto
  then have ids: "0 \<notin> uuid_of (heap t) ` set (graph_of d)" unfolding snd_summary .
  have small: "length (graph_of d) < 2 ^ 64" "vertex_count d \<le> k"
    using bounds(1) len assms(20,21) by (simp_all add: vertex_count_def)
  have ne: "graph_of d \<noteq> []" using bounds(3) by (auto simp: summary_def)
  from make_dag_batch [OF assms(1-4) run ids small(1) ne small(2), of out queue] obtain c and vs :: "DAGVertex list" and h where
    "process_dag E k d out queue (heap t) = ((Inr True, [c], queue @ map v_task vs), h)"
    "list_all2 (copy_of (heap t)) (graph_of d) c" "list_all2 (copy_of (heap t)) (graph_of d) vs" by blast
  with run copies_summary [of "heap t" d c] copies_summary [of "heap t" d vs] show ?thesis
    unfolding keys by (intro exI [of _ d] exI [of _ t] exI [of _ c] exI [of _ vs] exI [of _ h]) simp
qed

theorem make_dag_one_batch_witness:
  "\<exists>d t c (vs :: DAGVertex list) h. make_dag (sample_env False) sample_yaml sample_dll sample_document empty_deser = (Inr d, t) \<and>
     process_dag (sample_env False) 3 d [] [] (heap t) = ((Inr True, [c], map v_task vs), h) \<and>
     map (\<lambda>v. (v_label v, v_uuid v)) vs = [(''extract'', 1), (''load'', 2)]"
proof -
  have ok: "creators_ok sample_dll" "\<not> ndebug (sample_env False)" by (simp_all add: creators_ok_def sample_dll_def)
  obtain d t c and vs :: "DAGVertex list" and h where
    p: "make_dag (sample_env False) sample_yaml sample_dll sample_document empty_deser = (Inr d, t)"
      "process_dag (sample_env False) 3 d [] [] (heap t) = ((Inr True, [c], [] @ map v_task vs), h)"
      "map (\<lambda>v. (v_label v, v_uuid v)) vs = fold add_key [(''extract'', 1), (''load'', 2), (''again'', 1)] []"
    using make_dag_one_batch [OF sample_env_ok ok(2,1) sample_document_facts(2-), of 3 "[]" "[]"] by auto
  then show ?thesis by (auto simp: add_key_def)
qed

section \<open>Comparing graphs\<close>

text \<open>
  C13. \<open>operator==\<close> on two well-formed graphs decides exactly this: they have the same number of vertices, vertices
  at the same position agree in status, identifier, label and in the numbers of incoming and outgoing arcs,
  and the configurations are equal. Which vertices the arcs connect does not matter, nor does the title. Nothing
  in the store changes. With vertices on the left and none on the right the comparison reads past the end
  of an empty vector.
\<close>

theorem DAG_eq_decides:
  assumes "env_ok E" "wf_dag d1 s" "wf_dag d2 s" "config_of d1 = Some j1" "config_of d2 = Some j2"
  shows "if graph_of d1 = [] \<or> graph_of d2 \<noteq> []
    then \<exists>t. DAG_eq E d1 d2 s = (Inr (same_profiles s d1 d2 \<and> json_equal E j1 j2), t) \<and> same_cells s t
    else fst (DAG_eq E d1 d2 s) = Inl OutOfRange"
  using DAG_eq_ok [OF assms] DAG_eq_empty_right [OF assms(1-3)] by auto

theorem DAG_eq_decides_witness:
  "arcs cross_store (graph_of straight_dag) = {(2, 4), (3, 5)} \<and> arcs cross_store (graph_of crossed_dag) = {(6, 9), (7, 8)} \<and>
   (\<exists>t. DAG_eq (sample_env False) straight_dag crossed_dag cross_store = (Inr True, t) \<and> same_cells cross_store t)"
proof -
  have "same_profiles cross_store straight_dag crossed_dag"
    by (simp add: same_profiles_def straight_dag_def crossed_dag_def same_profile_def uuid_of_def vert_cross sample_vertex_def
        arcs_cross Image_def)
  moreover have "json_equal (sample_env False) JNull JNull" by (simp add: sample_env_def libuuid.extend_def env.fields_def sample_libuuid_def)
  ultimately show ?thesis
    using DAG_eq_decides [OF sample_env_ok wf_cross, of JNull JNull False] by (simp add: straight_dag_def crossed_dag_def arcs_cross)
qed

end
