(* ===== verification/Programs.thy ===== *)
theory Programs
  imports Workflow_Service Yaml_Claims
begin

text \<open>
  The two programs (\<open>bin/dag_serializer_main.cpp\<close>, \<open>bin/service_main.cpp\<close>). Boost.Program_options, the loading of a
  YAML file and the texts of exceptions are the record \<open>program_env\<close>; the parsed command line is the list of the
  options that were given with their values. A run gives how the program ends and what \<open>main\<close> itself
  wrote to \<open>std::cout\<close> and \<open>std::cerr\<close>; the log records of the library are not part of it.
\<close>

record option_description =
  od_name :: string
  od_required :: bool
  od_text :: string

type_synonym variables_map = "(string \<times> string) list"

record 'n program_env =
  pe_parse :: "option_description list \<Rightarrow> string list \<Rightarrow> variables_map res" \<comment> \<open>\<open>parse_command_line\<close> and \<open>store\<close>\<close>
  pe_notify :: "option_description list \<Rightarrow> variables_map \<Rightarrow> unit res" \<comment> \<open>\<open>notify\<close>\<close>
  pe_value :: "variables_map \<Rightarrow> string \<Rightarrow> string res" \<comment> \<open>\<open>vm[name].as<std::string>()\<close>\<close>
  pe_text :: "option_description list \<Rightarrow> string" \<comment> \<open>\<open>stream << desc\<close>\<close>
  pe_load_file :: "string \<Rightarrow> 'n res" \<comment> \<open>\<open>YAML::LoadFile\<close>\<close>
  pe_what :: "cpp_error \<Rightarrow> string" \<comment> \<open>\<open>what()\<close>\<close>

text \<open>A program exits, ends by an exception nobody catches or by another failure, or has not ended.\<close>

datatype outcome = Exit nat | Uncaught cpp_error | Running

record program_run =
  pr_outcome :: outcome
  pr_cout :: string
  pr_cerr :: string

definition std_exception :: "cpp_error \<Rightarrow> bool" where
  "std_exception e \<longleftrightarrow> e \<notin> {NullDeref, OutOfRange, AssertFailed, StdTerminate, OutOfFuel}"

definition EXIT_SUCCESS :: nat where "EXIT_SUCCESS = 0"

definition EXIT_FAILURE :: nat where "EXIT_FAILURE = 1"

section \<open>Options\<close>

definition dag_serializer_options :: "option_description list res" where
  "dag_serializer_options =
     rbind full_sample_output (\<lambda>sample.
     let help_string = [CHR 0x09] @ ''--dag_yaml should point to a '' @ ''file with contents similar to:'' @ endl @ sample
     in Inr [\<lparr>od_name = ''dag_yaml'', od_required = True, od_text = ''Absolute path to dag.yml (dag.yaml) file.''\<rparr>,
             \<lparr>od_name = ''help'', od_required = False, od_text = help_string\<rparr>])"

definition service_options :: "option_description list" where
  "service_options =
     [\<lparr>od_name = ''server_yaml'', od_required = True, od_text = ''Absolute path to server.yml file.''\<rparr>,
      \<lparr>od_name = ''help'', od_required = False, od_text = ''Help menu.''\<rparr>]"

text \<open>
  What Boost documents: \<open>notify\<close> throws exactly if a required option is missing, and the value of an option that was
  given is what was given.
\<close>

definition program_env_ok :: "'n program_env \<Rightarrow> bool" where
  "program_env_ok P \<longleftrightarrow>
     (\<forall>desc vm. pe_notify P desc vm = Inr () \<longleftrightarrow> (\<forall>od \<in> set desc. od_required od \<longrightarrow> map_of vm (od_name od) \<noteq> None)) \<and>
     (\<forall>vm name v. map_of vm name = Some v \<longrightarrow> pe_value P vm name = Inr v)"

section \<open>dag\_serializer\<close>

text \<open>
  The body of the \<open>try\<close> block: what it writes to \<open>std::cout\<close> grows until an exception ends it; the graph dies at
  its end. Only the program's own output is collected, here and in \<open>dag_serializer_main\<close>: the deserializer and the
  graph also report their steps there, through the loggers they register.
\<close>

definition dag_serializer_try ::
    "'n program_env \<Rightarrow> ('z) env_scheme \<Rightarrow> 'n yaml_api \<Rightarrow> dll_api \<Rightarrow> variables_map \<Rightarrow> deser_state \<Rightarrow> (unit res \<times> string) \<times> deser_state" where
  "dag_serializer_try P E Y D vm s =
     (let out1 = ''Loading YAML file...'' @ endl in
      case rbind (pe_value P vm ''dag_yaml'') (pe_load_file P) of
        Inl e \<Rightarrow> ((Inl e, out1), s)
      | Inr yaml_node \<Rightarrow>
          (let out2 = out1 @ ''Loaded YAML file.'' @ endl in
           case decode_dag E Y D yaml_node s of
             (Inl e, s1) \<Rightarrow> ((Inl e, out2), s1)
           | (Inr _, s1) \<Rightarrow> ((Inr (), out2 @ ''Deserialized YAML file.'' @ endl), s1\<lparr>heap := free_from (brk (heap s)) (heap s1)\<rparr>)))"

definition finish_main :: "'n program_env \<Rightarrow> option_description list \<Rightarrow> variables_map \<Rightarrow> nat \<Rightarrow> outcome" where
  "finish_main P desc vm ret = (case pe_notify P desc vm of Inl e \<Rightarrow> Uncaught e | Inr _ \<Rightarrow> Exit ret)"

definition error_line :: "'n program_env \<Rightarrow> cpp_error \<Rightarrow> string" where
  "error_line P e = ''Error: '' @ pe_what P e @ endl"

definition dag_serializer_main ::
    "'n program_env \<Rightarrow> ('z) env_scheme \<Rightarrow> 'n yaml_api \<Rightarrow> dll_api \<Rightarrow> string list \<Rightarrow> deser_state \<Rightarrow> program_run \<times> deser_state" where
  "dag_serializer_main P E Y D argv s =
     (case rbind dag_serializer_options (\<lambda>desc. rbind (pe_parse P desc argv) (\<lambda>vm. Inr (desc, vm))) of
        Inl e \<Rightarrow> (\<lparr>pr_outcome = Uncaught e, pr_cout = [], pr_cerr = []\<rparr>, s)
      | Inr (desc, vm) \<Rightarrow>
          (let ret = EXIT_FAILURE in
           if map_of vm ''help'' \<noteq> None
           then (\<lparr>pr_outcome = Exit EXIT_SUCCESS, pr_cout = pe_text P desc @ endl, pr_cerr = []\<rparr>, s)
           else (case dag_serializer_try P E Y D vm s of
               ((Inr _, out), s1) \<Rightarrow> (\<lparr>pr_outcome = finish_main P desc vm ret, pr_cout = out, pr_cerr = []\<rparr>, s1)
             | ((Inl e, out), s1) \<Rightarrow>
                 (if std_exception e
                  then (\<lparr>pr_outcome = finish_main P desc vm EXIT_FAILURE, pr_cout = out, pr_cerr = error_line P e\<rparr>, s1)
                  else (\<lparr>pr_outcome = Uncaught e, pr_cout = out, pr_cerr = []\<rparr>, s1)))))"

section \<open>service\<close>

text \<open>
  \<open>yaml_node.as<ConnectionInfo>()\<close> throws when \<open>decode\<close> returns \<open>false\<close>. The constructor of the service returns when
  \<open>io_context::run\<close> does, that is when no operation is outstanding: \<open>serve\<close> gives the state in which network and
  user leave the service.
\<close>

definition connection_info_of :: "'n yaml_num_api \<Rightarrow> 'n \<Rightarrow> ConnectionInfo res" where
  "connection_info_of Y node =
     rbind (decode_connection_info Y node \<lparr>ci_address = [], ci_port = 0, ci_doc_root = [], ci_threads = 0, ci_pem = []\<rparr>)
       (\<lambda>(ok, ci). if ok then Inr ci else Inl (ThrowYamlException ''bad conversion''))"

datatype service_end = Threw cpp_error | Exited int | Serving | Returned

definition run_service :: "service_env \<Rightarrow> (server \<Rightarrow> server) \<Rightarrow> ConnectionInfo \<Rightarrow> service_end" where
  "run_service V serve ci =
     (case WorkflowService_new V ci server_new of
        (Inl e, _) \<Rightarrow> Threw e
      | (Inr _, s) \<Rightarrow>
          (let t = serve s in
           case sv_error t of
             Some e \<Rightarrow> Threw e
           | None \<Rightarrow>
               (case sv_exit t of
                  Some signum \<Rightarrow> Exited signum
                | None \<Rightarrow> if sv_pending t \<noteq> [] \<or> sv_signal_wait t then Serving else Returned)))"

definition service_try ::
    "'n program_env \<Rightarrow> 'n yaml_num_api \<Rightarrow> service_env \<Rightarrow> (server \<Rightarrow> server) \<Rightarrow> variables_map \<Rightarrow> service_end \<times> string" where
  "service_try P Y V serve vm =
     (let out1 = ''Loading YAML file...'' @ endl in
      case rbind (pe_value P vm ''server_yaml'') (pe_load_file P) of
        Inl e \<Rightarrow> (Threw e, out1)
      | Inr yaml_node \<Rightarrow>
          (let out2 = out1 @ ''Loaded YAML file.'' @ endl in
           case connection_info_of Y yaml_node of
             Inl e \<Rightarrow> (Threw e, out2)
           | Inr ci \<Rightarrow> (run_service V serve ci, out2 @ ''Deserialized YAML file.'' @ endl)))"

definition service_main ::
    "'n program_env \<Rightarrow> 'n yaml_num_api \<Rightarrow> service_env \<Rightarrow> (server \<Rightarrow> server) \<Rightarrow> string list \<Rightarrow> program_run" where
  "service_main P Y V serve argv =
     (case rbind (pe_parse P service_options argv) (\<lambda>vm. rbind (pe_notify P service_options vm) (\<lambda>_. Inr vm)) of
        Inl e \<Rightarrow> \<lparr>pr_outcome = Uncaught e, pr_cout = [], pr_cerr = []\<rparr>
      | Inr vm \<Rightarrow>
          (let ret = EXIT_FAILURE in
           if map_of vm ''help'' \<noteq> None
           then \<lparr>pr_outcome = Exit EXIT_SUCCESS, pr_cout = pe_text P service_options @ endl, pr_cerr = []\<rparr>
           else (case service_try P Y V serve vm of
               (Returned, out) \<Rightarrow> \<lparr>pr_outcome = Exit ret, pr_cout = out, pr_cerr = []\<rparr>
             | (Exited signum, out) \<Rightarrow> \<lparr>pr_outcome = Exit (nat signum), pr_cout = out, pr_cerr = []\<rparr>
             | (Serving, out) \<Rightarrow> \<lparr>pr_outcome = Running, pr_cout = out, pr_cerr = []\<rparr>
             | (Threw e, out) \<Rightarrow>
                 (if std_exception e then \<lparr>pr_outcome = Exit EXIT_FAILURE, pr_cout = out, pr_cerr = error_line P e\<rparr>
                  else \<lparr>pr_outcome = Uncaught e, pr_cout = out, pr_cerr = []\<rparr>))))"

section \<open>Lemmas\<close>

lemma dag_serializer_options_names:
  "\<exists>desc. dag_serializer_options = Inr desc \<and> map od_name (filter od_required desc) = [''dag_yaml'']"
proof -
  have "dag_str r \<noteq> []" "connections_str r \<noteq> []" for r
    by (simp_all add: dag_str_def connections_str_def ln_def Let_def)
  then obtain t where t: "full_sample_output = Inr t" by (auto simp: full_sample_output_def sample_dag_output_def Let_def)
  show ?thesis unfolding dag_serializer_options_def t rbind_simps Let_def by (intro exI conjI, rule refl) simp
qed

text \<open>The service never returns: it throws, goes on, or is interrupted.\<close>

lemma run_service_ends:
  assumes "\<And>s. (service_step V)\<^sup>*\<^sup>* s (serve s)"
  shows "(\<exists>e. run_service V serve ci = Threw e) \<or> run_service V serve ci \<in> {Serving, Exited 2}"
proof (cases "WorkflowService_new V ci server_new")
  case (Pair r s)
  show ?thesis
  proof (cases r)
    case (Inr p)
    with Pair have "service_ok (serve s)"
      using service_reachable [of V ci p s "serve s"] assms by (simp add: service_inv_def)
    with Pair Inr show ?thesis
      by (auto simp: run_service_def service_ok_def Let_def SIGINT_def split: option.split if_splits)
  qed (simp add: Pair run_service_def)
qed

text \<open>Neither program ever reports success except for \<open>--help\<close>, and the service cannot be asked for help alone.\<close>

lemma service_main_exit:
  assumes "program_env_ok P" and "\<And>s. (service_step V)\<^sup>*\<^sup>* s (serve s)"
  shows "pr_outcome (service_main P Y V serve argv) = Exit EXIT_SUCCESS \<longleftrightarrow>
     (\<exists>vm. pe_parse P service_options argv = Inr vm \<and> map_of vm ''help'' \<noteq> None \<and> map_of vm ''server_yaml'' \<noteq> None)"
proof -
  have notified: "pe_notify P service_options vm = Inr () \<longleftrightarrow> map_of vm ''server_yaml'' \<noteq> None" for vm
    using assms(1) by (simp add: program_env_ok_def service_options_def)
  have exited: "n = 2" if "run_service V serve ci = Exited n" for ci n
    using run_service_ends [OF assms(2), of ci] that by auto
  have signal: "n = 2" if "service_try P Y V serve vm = (Exited n, out)" for vm n out
    using that by (auto simp: service_try_def Let_def dest: exited split: sum.splits)
  show ?thesis
  proof (cases "pe_parse P service_options argv")
    case (Inr vm)
    with notified [of vm] show ?thesis
      by (cases "pe_notify P service_options vm")
        (auto simp: service_main_def EXIT_SUCCESS_def EXIT_FAILURE_def Let_def
          split: service_end.splits prod.splits if_splits dest: signal)
  qed (simp add: service_main_def)
qed

lemma dag_serializer_main_exit:
  "pr_outcome (fst (dag_serializer_main P E Y D argv s)) = Exit EXIT_SUCCESS \<longleftrightarrow>
     (\<exists>desc vm. dag_serializer_options = Inr desc \<and> pe_parse P desc argv = Inr vm \<and> map_of vm ''help'' \<noteq> None)"
proof -
  obtain desc where desc: "dag_serializer_options = Inr desc" using dag_serializer_options_names by blast
  show ?thesis
    unfolding dag_serializer_main_def desc rbind_simps
    by (cases "pe_parse P desc argv")
      (auto simp: finish_main_def EXIT_SUCCESS_def EXIT_FAILURE_def Let_def split: sum.splits prod.splits if_splits)
qed

section \<open>What a successful run reports\<close>

lemma decode_dag_runs: "make_dag E Y D n s = (Inr d, t) \<Longrightarrow> decode_dag E Y D n s = (Inr (True, d), t)"
  by (simp add: decode_dag_def ebind_def)

definition sample_program_env :: "ynode program_env" where
  "sample_program_env = \<lparr>pe_parse = (\<lambda>desc argv. Inr [(''dag_yaml'', hd argv)]),
     pe_notify = (\<lambda>desc vm. if list_all (\<lambda>od. od_required od \<longrightarrow> map_of vm (od_name od) \<noteq> None) desc then Inr ()
        else Inl (ThrowLogicError ''required option'')),
     pe_value = (\<lambda>vm name. case map_of vm name of None \<Rightarrow> Inl (ThrowLogicError ''bad_any_cast'') | Some f \<Rightarrow> Inr f), pe_text = (\<lambda>_. ''Allowed options''),
     pe_load_file = (\<lambda>f. if f = ''dag.yml'' then Inr sample_document else Inl (ThrowYamlException ''bad file'')),
     pe_what = (\<lambda>_. ''error'')\<rparr>"

lemma sample_program_env_ok: "program_env_ok sample_program_env"
  by (auto simp: program_env_ok_def sample_program_env_def list_all_iff)

text \<open>
  C24. \<open>dag_serializer\<close> on a file whose document the deserializer accepts announces on \<open>std::cout\<close> that the file was
  loaded and deserialized, writes nothing to \<open>std::cerr\<close>, leaves no vertex behind, and returns \<open>EXIT_FAILURE\<close>: the
  program has no path on which a document makes it report success. The two streams are what \<open>main\<close> writes, without
  the log records of the deserializer.
\<close>

theorem dag_serializer_reports_failure:
  assumes "program_env_ok P" "dag_serializer_options = Inr desc" "pe_parse P desc argv = Inr vm" "map_of vm ''help'' = None"
    and "map_of vm ''dag_yaml'' = Some file" "pe_load_file P file = Inr node" "make_dag E Y D node s = (Inr d, t)"
  shows "\<exists>s'. dag_serializer_main P E Y D argv s =
    (\<lparr>pr_outcome = Exit EXIT_FAILURE,
      pr_cout = ''Loading YAML file...'' @ endl @ ''Loaded YAML file.'' @ endl @ ''Deserialized YAML file.'' @ endl,
      pr_cerr = []\<rparr>, s') \<and> (\<forall>a \<ge> brk (heap s). vert (heap s') a = None)"
proof -
  have "map od_name (filter od_required desc) = [''dag_yaml'']"
    using dag_serializer_options_names unfolding assms(2) by simp
  then have "od_name ` {od \<in> set desc. od_required od} = {''dag_yaml''}" by (metis empty_set list.set_map list.simps(15) set_filter)
  then have "od \<in> set desc \<Longrightarrow> od_required od \<Longrightarrow> od_name od = ''dag_yaml''" for od by blast
  then have "pe_notify P desc vm = Inr ()" using assms(1,5) by (auto simp: program_env_ok_def)
  moreover have "pe_value P vm ''dag_yaml'' = Inr file" using assms(1,5) by (simp add: program_env_ok_def)
  ultimately show ?thesis
    using assms(3-6) decode_dag_runs [OF assms(7)]
    unfolding dag_serializer_main_def assms(2) rbind_simps
    by (simp add: dag_serializer_try_def finish_main_def Let_def)
qed

theorem dag_serializer_reports_failure_witness:
  "pr_outcome (fst (dag_serializer_main sample_program_env (sample_env False) sample_yaml sample_dll [''dag.yml''] empty_deser)) =
     Exit EXIT_FAILURE"
proof -
  obtain desc where desc: "dag_serializer_options = Inr desc" using dag_serializer_options_names by blast
  obtain d t where run: "make_dag (sample_env False) sample_yaml sample_dll sample_document empty_deser = (Inr d, t)"
    using sample_document_accepted by blast
  have "pe_parse sample_program_env desc [''dag.yml''] = Inr [(''dag_yaml'', ''dag.yml'')]"
      "pe_load_file sample_program_env ''dag.yml'' = Inr sample_document"
    by (simp_all add: sample_program_env_def)
  from dag_serializer_reports_failure [OF sample_program_env_ok desc this(1) _ _ this(2) run] show ?thesis by auto
qed

end
