(* ===== verification/Unit_Tests.thy ===== *)
theory Unit_Tests
  imports Dag_Process Task_Scheduler Sample_Graph
begin

text \<open>
  Expectations of the repository's own tests (\<open>test/test_dag_algorithms.cxx\<close>, \<open>test_dag_edge.cxx\<close>,
  \<open>test_concurrent_task_queue.cxx\<close>, \<open>test_task_scheduler.cxx\<close>) as lemmas about the model. The graphs of
  \<open>test_dag_algorithms.cxx\<close> are given by their labels and arcs; \<open>drawn_store\<close> is the state in which every vertex has
  one owner and the counters are exact, as \<open>DAG::connect\<close> leaves it.
\<close>

section \<open>Graphs by labels and arcs\<close>

type_synonym drawing = "(string \<times> addr list) list"

definition drawn_vertex :: "drawing \<Rightarrow> addr \<Rightarrow> DAGVertex" where
  "drawn_vertex G a = sample_vertex (of_nat (Suc a)) (fst (G ! a)) (map (sample_edge (of_nat (Suc a))) (snd (G ! a)))
     (of_nat (length (filter (\<lambda>b. a \<in> set (snd (G ! b))) [0..<length G]))) None"

definition drawn_store :: "drawing \<Rightarrow> store" where
  "drawn_store G = \<lparr>cells = (\<lambda>a. if a < length G then Some \<lparr>use_count = 1, obj = drawn_vertex G a\<rparr> else None),
     brk = length G, draws = Suc (length G)\<rparr>"

definition drawn_dag :: "drawing \<Rightarrow> DAG" where
  "drawn_dag G = \<lparr>graph_of = [0..<length G], title_of = '''', config_of = Some JNull\<rparr>"

text \<open>No vertex has two edges to the same target, and all targets exist.\<close>

definition drawing_ok :: "drawing \<Rightarrow> bool" where
  "drawing_ok G \<longleftrightarrow> length G < 2 ^ 63 \<and> list_all (\<lambda>(l, bs). distinct bs \<and> list_all (\<lambda>b. b < length G) bs) G"

definition forward :: "drawing \<Rightarrow> bool" where
  "forward G \<longleftrightarrow> list_all (\<lambda>a. list_all (\<lambda>b. a < b) (snd (G ! a))) [0..<length G]"

lemma vert_drawn: "vert (drawn_store G) a = (if a < length G then Some (drawn_vertex G a) else None)"
  by (simp add: vert_def drawn_store_def)

lemma succs_drawn: "a < length G \<Longrightarrow> succs (drawn_store G) a = map Some (snd (G ! a))"
  by (simp add: succs_def vert_drawn drawn_vertex_def sample_vertex_def sample_edge_def comp_def)

lemma targets_drawn: "a < length G \<Longrightarrow> targets (drawn_store G) a = snd (G ! a)"
  by (simp add: targets_def succs_drawn List.map_filter_def comp_def)

lemma arcs_drawn: "arcs (drawn_store G) [0..<length G] = {(a, b). a < length G \<and> b \<in> set (snd (G ! a))}"
  by (auto simp: arcs_def succs_drawn)

lemma uuid_of_drawn: "a < length G \<Longrightarrow> uuid_of (drawn_store G) a = of_nat (Suc a)"
  by (simp add: uuid_of_def vert_drawn drawn_vertex_def sample_vertex_def)

lemma wf_drawn_graph:
  assumes "drawing_ok G"
  shows "wf_store (drawn_store G)" "wf_graph (drawn_store G) [0..<length G]"
proof -
  have small: "length G < 2 ^ 63" using assms by (simp add: drawing_ok_def)
  show "wf_store (drawn_store G)" by (simp add: wf_store_def vert_drawn) (simp add: drawn_store_def)
  have "distinct (map (uuid_of (drawn_store G)) [0..<length G])"
  proof (subst distinct_map, intro conjI inj_onI)
    fix a b assume ab: "a \<in> set [0..<length G]" "b \<in> set [0..<length G]"
      and eq: "uuid_of (drawn_store G) a = uuid_of (drawn_store G) b"
    then have "unat (of_nat (Suc a) :: uuid_t) = unat (of_nat (Suc b) :: uuid_t)" by (simp add: uuid_of_drawn del: of_nat_Suc)
    then show "a = b" using ab small by (simp add: unsigned_of_nat take_bit_nat_eq_self del: of_nat_Suc)
  qed simp
  moreover have "wf_vertex (drawn_store G) [0..<length G] a" if a: "a < length G" for a
  proof -
    have G: "distinct (snd (G ! a))" "set (snd (G ! a)) \<subseteq> {0..<length G}"
      using assms nth_mem [OF a] by (auto simp: drawing_ok_def list_all_iff)
    have "preds (drawn_store G) [0..<length G] a = set (filter (\<lambda>b. a \<in> set (snd (G ! b))) [0..<length G])"
      by (auto simp: preds_arcs arcs_drawn)
    then have "card (preds (drawn_store G) [0..<length G] a) = length (filter (\<lambda>b. a \<in> set (snd (G ! b))) [0..<length G])"
      by (simp only: distinct_card distinct_filter distinct_upt)
    with a G show ?thesis
      by (simp add: wf_vertex_def vert_drawn succs_drawn distinct_map)
        (auto simp: drawn_vertex_def sample_vertex_def vertex_ok_def)
  qed
  ultimately show "wf_graph (drawn_store G) [0..<length G]"
    using small by (simp add: wf_graph_def)
qed

lemma wf_drawn_dag:
  assumes "drawing_ok G" "forward G"
  shows "wf_dag (drawn_dag G) (drawn_store G)"
proof -
  have "acyclic (arcs (drawn_store G) [0..<length G])"
    by (rule acyclicI_order [where f = "\<lambda>a. - int a"]) (use assms(2) in \<open>auto simp: arcs_drawn forward_def list_all_iff\<close>)
  moreover have "owners (drawn_store G) a = 1 \<and> uuid_of (drawn_store G) a \<noteq> 0" if a: "a < length G" for a
  proof -
    have "unat (of_nat (Suc a) :: uuid_t) = Suc a"
      using a assms(1) by (simp add: drawing_ok_def unsigned_of_nat take_bit_nat_eq_self del: of_nat_Suc)
    then have "(of_nat (Suc a) :: uuid_t) \<noteq> 0" by (metis nat.simps(3) unat_0)
    with a show ?thesis by (simp add: uuid_of_drawn del: of_nat_Suc) (simp add: owners_def drawn_store_def)
  qed
  ultimately show ?thesis using wf_drawn_graph [OF assms(1)] by (simp add: wf_dag_def drawn_dag_def)
qed

section \<open>test\_dag\_algorithms.cxx\<close>

definition test_graph :: drawing where
  "test_graph = [(''a'', [1, 2, 4]), (''b'', [3, 5]), (''c'', [3]), (''d'', []), (''e'', [5, 6]), (''f'', [6, 7, 8, 9]),
     (''g'', [7]), (''h'', []), (''i'', []), (''j'', [])]"

definition test_chain :: drawing where
  "test_chain = [(''a'', [1]), (''b'', [2]), (''c'', [3]), (''d'', [4]), (''e'', [5]), (''f'', [6]), (''g'', [7]),
     (''h'', [8]), (''i'', [9]), (''j'', [])]"

text \<open>The arc \<open>h -> a\<close> is added on the vertices themselves.\<close>

definition test_cycle :: drawing where
  "test_cycle = test_graph[7 := (''h'', [0])]"

lemmas test_drawings = test_graph_def test_chain_def test_cycle_def

lemma upt_10: "[0..<10] = [0, 1, 2, 3, 4, 5, 6, 7, 8, 9 :: nat]"
  by (simp add: upt_rec)

lemma length_test_drawings [simp]: "length test_graph = 10" "length test_chain = 10" "length test_cycle = 10"
  by (simp_all add: test_drawings)

lemma test_drawings_ok: "drawing_ok test_graph" "drawing_ok test_chain" "drawing_ok test_cycle" "forward test_graph" "forward test_chain"
  by (simp_all add: drawing_ok_def forward_def upt_10) (simp_all add: test_drawings)

lemma kahn_cong:
  assumes S: "\<And>a. a \<in> set g \<Longrightarrow> S a = S' a \<and> set (S' a) \<subseteq> set g"
  shows "set Q \<subseteq> set g \<Longrightarrow> kahn S g n L Q = kahn S' g n L Q"
proof (induction n arbitrary: L Q)
  case 0
  then show ?case by (cases Q) simp_all
next
  case (Suc n)
  show ?case
  proof (cases Q)
    case (Cons c R)
    with Suc.prems have c: "S c = S' c" "set (S' c) \<subseteq> set g" using S by auto
    have "all_placed S g (L @ [c]) = all_placed S' g (L @ [c])"
      using S by (auto simp: fun_eq_iff all_placed_def list_all_iff)
    moreover have "set (R @ filter (all_placed S' g (L @ [c])) (S' c)) \<subseteq> set g" using Suc.prems Cons c by auto
    ultimately show ?thesis using Suc.IH Cons c by simp
  qed simp
qed

lemma all_placed_drawn: "all_placed (targets (drawn_store G)) [0..<length G] L = all_placed (\<lambda>a. snd (G ! a)) [0..<length G] L"
  by (auto simp: fun_eq_iff all_placed_def list_all_iff targets_drawn)

lemma kahn_order_drawn:
  assumes "drawing_ok G"
  shows "kahn_order (drawn_store G) [0..<length G] = kahn (\<lambda>a. snd (G ! a)) [0..<length G] (length G) []
    (filter (all_placed (\<lambda>a. snd (G ! a)) [0..<length G] []) [0..<length G])"
proof -
  let ?g = "[0..<length G]"
  have S: "targets (drawn_store G) a = snd (G ! a) \<and> set (snd (G ! a)) \<subseteq> set ?g" if a: "a \<in> set ?g" for a
  proof -
    from a have "a < length G" by simp
    moreover from nth_mem [OF this] assms have "set (snd (G ! a)) \<subseteq> {0..<length G}"
      by (auto simp: drawing_ok_def list_all_iff)
    ultimately show ?thesis by (simp add: targets_drawn)
  qed
  show ?thesis unfolding kahn_order_def length_upt all_placed_drawn by (subst kahn_cong [OF S]) auto
qed

lemma kahn_order_tests:
  "kahn_order (drawn_store test_graph) [0..<10] = [0, 1, 2, 4, 3, 5, 6, 8, 9, 7]"
  "kahn_order (drawn_store test_chain) [0..<10] = [0..<10]"
proof -
  have "kahn (\<lambda>a. snd (test_graph ! a)) [0..<10] 10 [] (filter (all_placed (\<lambda>a. snd (test_graph ! a)) [0..<10] []) [0..<10]) =
      [0, 1, 2, 4, 3, 5, 6, 8, 9, 7]"
    by code_simp
  moreover have "kahn (\<lambda>a. snd (test_chain ! a)) [0..<10] 10 [] (filter (all_placed (\<lambda>a. snd (test_chain ! a)) [0..<10] []) [0..<10]) =
      [0..<10]"
    by code_simp
  ultimately show "kahn_order (drawn_store test_graph) [0..<10] = [0, 1, 2, 4, 3, 5, 6, 8, 9, 7]"
      "kahn_order (drawn_store test_chain) [0..<10] = [0..<10]"
    using kahn_order_drawn [OF test_drawings_ok(1)] kahn_order_drawn [OF test_drawings_ok(2)] by simp_all
qed

lemma drawn_labels:
  assumes "list_all2 (\<lambda>a v. same_vertex (the (vert (drawn_store G) a)) v) as vs" "set as \<subseteq> {0..<length G}"
  shows "map v_label vs = map (\<lambda>a. fst (G ! a)) as"
  using assms
  by (induction rule: list_all2_induct) (auto simp: vert_drawn same_vertex_def drawn_vertex_def sample_vertex_def)

lemma drawn_sort:
  assumes "env_ok E" "drawing_ok G" "forward G"
  shows "\<exists>vs t. dag_topological_sort E (drawn_dag G) (drawn_store G) = (Inr (False, vs), t) \<and>
    map v_label vs = map (\<lambda>a. fst (G ! a)) (kahn_order (drawn_store G) [0..<length G])"
proof -
  note wf = wf_dagD(2,3) [OF wf_drawn_dag [OF assms(2,3)]]
  obtain vs t where "dag_topological_sort E (drawn_dag G) (drawn_store G) = (Inr (\<not> acyclic (arcs (drawn_store G) (graph_of (drawn_dag G))), vs), t)"
      "set (kahn_order (drawn_store G) (graph_of (drawn_dag G))) \<subseteq> set (graph_of (drawn_dag G))"
      "list_all2 (\<lambda>a v. same_vertex (the (vert (drawn_store G) a)) v \<and> v_edges v = [] \<and> v_in v = 0)
        (kahn_order (drawn_store G) (graph_of (drawn_dag G))) vs"
    by (rule dag_topological_sort_kahn [OF assms(1) wf(1)])
  moreover have "map v_label vs = map (\<lambda>a. fst (G ! a)) (kahn_order (drawn_store G) (graph_of (drawn_dag G)))"
    by (rule drawn_labels [OF list_all2_mono [OF calculation(3)]]) (use calculation(2) in \<open>auto simp: drawn_dag_def\<close>)
  ultimately show ?thesis using wf(2) by (auto simp: drawn_dag_def)
qed

text \<open>\<open>dag_vertices_with_no_incomming_edges\<close>, \<open>dag_topological_sort\<close> and \<open>dag_topological_sort_non_linear\<close>.\<close>

lemma test_no_incomming_edges: "dag_vertices_with_no_incomming_edges (drawn_dag test_graph) (drawn_store test_graph) = [0]"
proof -
  have "wf_graph (drawn_store test_graph) (graph_of (drawn_dag test_graph))"
    using wf_drawn_graph(2) [OF test_drawings_ok(1)] by (simp add: drawn_dag_def)
  from no_incomming_all_placed [OF this]
  have "dag_vertices_with_no_incomming_edges (drawn_dag test_graph) (drawn_store test_graph) =
      filter (all_placed (\<lambda>a. snd (test_graph ! a)) [0..<length test_graph] []) [0..<length test_graph]"
    by (simp only: drawn_dag_def DAG.simps all_placed_drawn)
  also have "\<dots> = [0]" by code_simp
  finally show ?thesis .
qed

lemma test_labels:
  "map (\<lambda>a. fst (test_chain ! a)) [0..<10] = [''a'', ''b'', ''c'', ''d'', ''e'', ''f'', ''g'', ''h'', ''i'', ''j'']"
  "map (\<lambda>a. fst (test_graph ! a)) [0, 1, 2, 4, 3, 5, 6, 8, 9, 7] = [''a'', ''b'', ''c'', ''e'', ''d'', ''f'', ''g'', ''i'', ''j'', ''h'']"
  unfolding upt_10 by (simp_all add: test_drawings)

lemma test_sort_chain:
  assumes "env_ok E"
  shows "\<exists>vs t. dag_topological_sort E (drawn_dag test_chain) (drawn_store test_chain) = (Inr (False, vs), t) \<and>
    map v_label vs = [''a'', ''b'', ''c'', ''d'', ''e'', ''f'', ''g'', ''h'', ''i'', ''j'']"
  using drawn_sort [OF assms test_drawings_ok(2,5), unfolded length_test_drawings kahn_order_tests test_labels] .

lemma test_sort_non_linear:
  assumes "env_ok E"
  shows "\<exists>vs t. dag_topological_sort E (drawn_dag test_graph) (drawn_store test_graph) = (Inr (False, vs), t) \<and>
    map v_label vs = [''a'', ''b'', ''c'', ''e'', ''d'', ''f'', ''g'', ''i'', ''j'', ''h'']"
  using drawn_sort [OF assms test_drawings_ok(1,4), unfolded length_test_drawings kahn_order_tests test_labels] .

text \<open>\<open>process_dag\<close> and \<open>process_dag_cyclic\<close>.\<close>

lemma layered_unique: "layered r g Bs \<Longrightarrow> layered r g Cs \<Longrightarrow> Bs = Cs"
proof (induction Bs arbitrary: g Cs)
  case Nil
  then show ?case by (cases Cs) (auto simp: layered.simps(2) sources_def)
next
  case (Cons B Bs)
  then show ?case by (cases Cs) (auto simp: layered.simps(2) sources_def)
qed

definition drawn_sources :: "drawing \<Rightarrow> addr list \<Rightarrow> addr list" where
  "drawn_sources G g = filter (\<lambda>b. list_all (\<lambda>a. b \<notin> set (snd (G ! a))) g) g"

lemma sources_drawn:
  "list_all (\<lambda>a. a < length G) g \<Longrightarrow> sources (arcs (drawn_store G) [0..<length G]) g = drawn_sources G g"
  by (auto simp: sources_def drawn_sources_def arcs_drawn list_all_iff intro!: filter_cong)

lemma test_sources:
  "drawn_sources test_graph [0..<10] = [0]"
  "drawn_sources test_graph [1, 2, 3, 4, 5, 6, 7, 8, 9] = [1, 2, 4]"
  "drawn_sources test_graph [3, 5, 6, 7, 8, 9] = [3, 5]"
  "drawn_sources test_graph [6, 7, 8, 9] = [6, 8, 9]"
  "drawn_sources test_graph [7] = [7]"
  by code_simp+

lemma test_layers:
  "layered (arcs (drawn_store test_graph) [0..<10]) [0..<10] [[0], [1, 2, 4], [3, 5], [6, 8, 9], [7]]"
  using sources_drawn [of test_graph, unfolded length_test_drawings] test_sources
  by (simp add: layered.simps(2) upt_10)

lemma test_process_dag:
  assumes "env_ok E" "\<not> ndebug E"
  shows "\<exists>cs vs t. process_dag E 10 (drawn_dag test_graph) [] [] (drawn_store test_graph) = ((Inr True, cs, vs), t) \<and>
    map (map v_label) cs = [[''a''], [''b'', ''c'', ''e''], [''d'', ''f''], [''g'', ''i'', ''j''], [''h'']] \<and> length vs = 10"
proof -
  have g: "graph_of (drawn_dag test_graph) = [0..<10]" by (simp add: drawn_dag_def)
  obtain Bs cs and vs :: "DAGVertex list" and t where
    p: "process_dag E 10 (drawn_dag test_graph) [] [] (drawn_store test_graph) = ((Inr True, cs, map v_task vs), t)"
      "layered (arcs (drawn_store test_graph) [0..<10]) [0..<10] Bs"
      "list_all2 (list_all2 (copy_of (drawn_store test_graph))) Bs cs" "list_all2 (copy_of (drawn_store test_graph)) (concat Bs) vs"
    using process_dag_ok [OF assms wf_drawn_dag [OF test_drawings_ok(1,4)], of 10 "[]" "[]"] g by (auto simp: vertex_count_def)
  have Bs: "Bs = [[0], [1, 2, 4], [3, 5], [6, 8, 9], [7]]" by (rule layered_unique [OF p(2) test_layers])
  have "copy_of (drawn_store test_graph) a v \<Longrightarrow> a < 10 \<Longrightarrow> v_label v = fst (test_graph ! a)" for a v
    using drawn_labels [of test_graph "[a]" "[v]"] by (simp add: copy_of_def)
  with p(3) have "map (map v_label) cs = map (map (\<lambda>a. fst (test_graph ! a))) Bs"
    unfolding Bs by (auto simp: list_all2_Cons1)
  moreover have "length vs = 10" using list_all2_lengthD [OF p(4)] by (simp add: Bs)
  ultimately show ?thesis using p(1) unfolding Bs by (simp add: test_drawings)
qed

lemma test_process_dag_cyclic:
  assumes "env_ok E"
  shows "\<exists>t. process_dag E n (drawn_dag test_cycle) [] [] (drawn_store test_cycle) = ((Inr False, [], []), t)"
proof -
  let ?r = "arcs (drawn_store test_cycle) [0..<10]"
  have r: "?r = {(a, b). a < 10 \<and> b \<in> set (snd (test_cycle ! a))}" using arcs_drawn [of test_cycle] by simp
  have "(0, 4) \<in> ?r" "(4, 6) \<in> ?r" "(6, 7) \<in> ?r" "(7, 0) \<in> ?r" by (simp_all add: r) (simp_all add: test_drawings)
  then have "(0, 0) \<in> ?r\<^sup>+" by (meson trancl.r_into_trancl trancl_trans)
  then have "\<not> acyclic ?r" by (auto simp: acyclic_def)
  with process_dag_cyclic [OF assms wf_drawn_graph(1) [OF test_drawings_ok(3)], of "drawn_dag test_cycle" JNull n "[]" "[]"]
    wf_drawn_graph(2) [OF test_drawings_ok(3)] show ?thesis
    by (auto simp: drawn_dag_def)
qed

section \<open>test\_dag\_edge.cxx\<close>

text \<open>\<open>connect_to_null\<close>, on a vertex that was just made.\<close>

lemma test_connect_to_null:
  assumes "DAGVertex_label L ''to'' s = (v, s1)" "make_shared v s1 = (v1, s2)" "DAGEdge_default L s2 = (e, s3)"
    and "connect_to (Some v1) e s3 = ((r1, e1), s4)" "connect_to None e1 s4 = ((r2, e2), s5)"
  shows "r1 \<and> lock s4 (e_connection e1) = Some v1 \<and> incomming_edge_count (the (vert s4 v1)) = 1 \<and> owners s4 v1 = 1 \<and>
    \<not> r2 \<and> lock s5 (e_connection e2) = None \<and> incomming_edge_count (the (vert s5 v1)) = 0"
  using assms
  by (auto simp: DAGVertex_label_def DAGVertex_label_task_def DAGVertex_label_task_uuid_def draw_uuid_def make_shared_def
      DAGEdge_default_def connect_to_def lock_def expired_def vert_def upd_vertex_def owners_def incomming_edge_count_def
      add_incomming_edge_def sub_incomming_edge_def Let_def)

text \<open>\<open>equality_operators_with_connection\<close>: two edges with the same identifier, to a vertex and to its clone.\<close>

lemma test_equality_with_connection:
  assumes "vert s a = Some v" "vert s b = Some w" "a \<noteq> b" "owners s a = 1" "owners s b = 1" "e_connection e = None"
    and "connect_to (Some a) e s = ((r1, e1), s1)" "connect_to (Some b) (DAGEdge_clone e) s1 = ((r2, e2), s2)"
  shows "edge_eq L s2 e1 e2 \<and> edge_eq L s2 e2 e1 \<and> \<not> edge_ne L s2 e1 e2 \<and> \<not> edge_ne L s2 e2 e1"
  using assms
  by (auto simp: connect_to_def DAGEdge_clone_def edge_ne_def edge_eq_def lock_def expired_def vert_def upd_vertex_def
      owners_def UUID_clone_def Let_def)

section \<open>test\_concurrent\_task\_queue.cxx\<close>

text \<open>\<open>test_remove_task_from_queue_remaining_ok\<close>\<close>

lemma test_remove_task_remaining:
  assumes "libuuid_ok L" "t_uuid t \<noteq> t_uuid r"
  shows "remove_task_from_queue L (t_uuid t) None (queue_push (Some r) (queue_push (Some t) ConcurrentTaskQueue_new)) = Inr (Some t, [Some r])"
    and "try_pop None [Some r] = (True, Some r, [])"
  using assms
  by (simp_all add: remove_task_from_queue_def queue_push_def ConcurrentTaskQueue_new_def queue_empty_def as_string_eq_iff try_pop_def)

section \<open>test\_task\_scheduler.cxx\<close>

text \<open>\<open>default_ctor\<close>, \<open>startup\<close>, \<open>kill_task\<close>\<close>

lemma test_scheduler_new:
  "is_paused TaskScheduler_new" "is_shutdown TaskScheduler_new" "fst (kill_task L t TaskScheduler_new) = Inr True"
  by (simp_all add: is_paused_def is_shutdown_def TaskScheduler_new_def kill_task_def kill_task_uuid_def
      remove_task_from_queue_def queue_empty_def ConcurrentTaskQueue_new_def)

lemma test_scheduler_startup:
  assumes "11 \<le> n"
  shows "\<not> is_paused (run_scheduler [] n)" "\<not> is_shutdown (run_scheduler [] n)"
    "is_paused (sched_shutdown (run_scheduler [] n))" "is_shutdown (sched_shutdown (run_scheduler [] n))"
proof -
  have "\<not> is_paused (run_scheduler [] n) \<and> \<not> is_shutdown (run_scheduler [] n)"
    using startup_alone [of "TaskScheduler_new\<lparr>sch_queue := []\<rparr>" n] assms
    by (auto simp: run_scheduler_def TaskScheduler_new_def pool_size_def TaskThread_new_def is_paused_def is_shutdown_def)
  then show "\<not> is_paused (run_scheduler [] n)" "\<not> is_shutdown (run_scheduler [] n)" by blast+
qed (simp_all add: sched_shutdown_def sched_client_defs is_paused_def is_shutdown_def)

end
