(* ===== verification/Spec2Isabelle.thy ===== *)
theory Spec2Isabelle
  imports Sample_Graph Scheduler_Claims Yaml_Claims Stop_Watch Service_Claims Pipeline_Claims Programs Unit_Tests
begin

text \<open>
  \<^bold>\<open>dag\_scheduler\<close>: a C++17 library (\<open>src/lib\<close>, headers in \<open>src/include/dag_scheduler\<close>, a stage
  library in \<open>src/stages_lib\<close>, two programs in \<open>src/bin\<close>) that builds directed acyclic graphs of tasks,
  hands their tasks to a scheduler in dependency order and runs them on a pool of threads; graphs are read from
  YAML documents, and a small web service is meant to receive them.

  \<^bold>\<open>Parts and theories.\<close>

  \<^item> \<open>Dag_Prelude\<close>: failures of C++ code (\<open>cpp_error\<close>), computations that may fail (\<open>res\<close>) and that also
    change a state (\<open>exec\<close>), the rules for their loops, generic lemmas, and the locales
    \<open>step_invariant\<close> (an invariant of a state machine) and \<open>insert_once\<close> (a table that keeps its first entry).
  \<^item> \<open>Uuid\<close>: \<open>uuid.cxx\<close>. libuuid is the record \<open>libuuid\<close>; \<open>libuuid_ok\<close> is what its documentation promises,
    \<open>sample_libuuid\<close> an implementation of it. The locale \<open>id_spec\<close> is what the other classes use of identifiers.
  \<^item> \<open>Task_Stage\<close>, \<open>Tasks\<close>: \<open>task_stage.cxx\<close>, \<open>base_task_stage.cxx\<close>, \<open>print_stage.cxx\<close>, \<open>task.cxx\<close>,
    \<open>task_callback_plugin.cxx\<close>: all constructors, moves, clones, comparisons, printing, the iteration over the
    stages and the completion callbacks.
  \<^item> \<open>Dag_Vertex\<close>: \<open>dag_vertex.cxx\<close>, \<open>dag_edge.cxx\<close> and the store: a map from addresses to vertices with their
    number of owners, in which edges are weak pointers.
  \<^item> \<open>Graph_Inv\<close>: the invariant \<open>wf_graph\<close> and the set of arcs of a graph.
  \<^item> \<open>Dag\<close>, \<open>Dag_Clone\<close>, \<open>Dag_Ops\<close>, \<open>Dag_Safety\<close>, \<open>Dag_Remove\<close>, \<open>Dag_Api\<close>, \<open>Dag_Steps\<close>, \<open>Dag_Print\<close>:
    \<open>dag.cxx\<close>. \<open>Dag\<close> and \<open>Dag_Ops\<close> have the operations, the others their lemmas: the copy is isomorphic and
    fresh, the cycle check is exact, \<open>connect\<close> adds one arc or throws, removal. The locale \<open>guarded_arcs\<close> is
    the contract of \<open>connect\<close> on which the operations on labels rest. \<open>Dag_Steps\<close> is the graph as a state
    machine, whose reachable states are well formed and acyclic.
  \<^item> \<open>Dag_Sort\<close>, \<open>Dag_Process\<close>: \<open>dag_algorithms.cxx\<close>, the topological sort and the processing in layers. The
    sort is shown to compute \<open>kahn_order\<close>, Kahn's algorithm on a fixed successor function.
  \<^item> \<open>Dag_Equal\<close>: the comparison of graphs (\<open>operator==\<close>), characterised by the profiles of the vertices.
  \<^item> \<open>Task_Queue\<close>, \<open>Task_Thread\<close>, \<open>Task_Scheduler\<close>: \<open>concurrent_task_queue.cxx\<close>,
    \<open>interruptible_task_thread.cxx\<close>, \<open>task_scheduler.cxx\<close>. Members that hold the mutex from beginning to end are
    one step; the scheduler's loop and the start of a thread are step relations with a program counter in which
    every access to a flag is a step. The start of a thread is not a part of the scheduler's steps: there the
    call of \<open>set_task_and_run\<close> returns. The thread function logs through an argument: \<open>thread_log\<close> is the logger with
    the sinks the thread's constructor registered, \<open>no_log\<close> leaves the records out where only the stages matter.
    The locale \<open>fifo\<close> is the contract of the queue. \<open>Queue_Waiting\<close> has the queue with the threads that wait in it,
    \<open>Scheduler_Claims\<close> the properties.
  \<^item> \<open>Dag_Yaml\<close>, \<open>Yaml_Claims\<close>: \<open>dag_serialization.cxx\<close>, \<open>dynamic_library_registry.cxx\<close>. The specification of
    a document is the list of the keys of its vertices (\<open>vertex_key\<close>, \<open>add_key\<close>); the deserializer refines it.
    \<open>Yaml_Types\<close> shows that what it returns is a well-formed graph if no vertex has the nil identifier.
  \<^item> \<open>Stage_Library\<close>: the symbols the repository's own libraries export (\<open>print_stage.cxx\<close>,
    \<open>task_callback_plugin.cxx\<close>, \<open>task.cxx\<close>) and how the registry finds them.
  \<^item> \<open>Pipeline\<close>, \<open>Document_Run\<close>, \<open>Pipeline_Claims\<close>: the composition of the components. A document is
    deserialized, the graph processed, the queue given to the scheduler and the first task run on a thread, down
    to the lines and the log records that thread writes.
  \<^item> \<open>Logging\<close>, \<open>Stop_Watch\<close>: \<open>logging.cxx\<close>, \<open>logging.h\<close>, \<open>logged_class.hpp\<close>, \<open>stop_watch.cxx\<close>.
  \<^item> \<open>Http_Service\<close>, \<open>Workflow_Service\<close>, \<open>Service_Claims\<close>: \<open>service_helpers.cxx\<close>, \<open>endpoints.cxx\<close>,
    \<open>workflow_service.cxx\<close>, \<open>https_session.cxx\<close>. The service is a state machine over its outstanding asynchronous
    operations. The router and the sinks of the logger interpret \<open>insert_once\<close>.
  \<^item> \<open>Programs\<close>: \<open>dag_serializer_main.cpp\<close> and \<open>service_main.cpp\<close>: their options, what they call, what they
    print and what they return.
  \<^item> \<open>Unit_Tests\<close>: expectations of the repository's tests, as lemmas about the model: all of
    \<open>test_dag_algorithms.cxx\<close>, some of the tests of edges, queue and scheduler.
  \<^item> \<open>Sample_Graph\<close> and the samples in the theories with properties: concrete values at which the hypotheses of
    the properties hold.

  \<^bold>\<open>How the parts interact.\<close> A \<open>DAG\<close> owns \<open>DAGVertex\<close> objects, each with a \<open>Task\<close> of \<open>TaskStage\<close>s.
  \<open>DAG::connect\<close> clones the graph, adds the arc to the clone and sorts it. \<open>process_dag\<close> takes a clone apart and
  pushes clones of the tasks to the scheduler's \<open>ConcurrentTaskQueue\<close>; \<open>TaskScheduler::startup\<close> pops them and
  gives each to an \<open>InterruptibleTaskThread\<close>. The deserializer calls the constructors of \<open>Task\<close> and
  \<open>DAGVertex\<close> and \<open>add_vertex\<close>. The model composes the same definitions in the same way.

  \<^bold>\<open>Properties.\<close> In this theory: C1 to C4 and C19 to C22 are about graphs and their operations, C5 about the
  sort, C6, C7, C10 and C14 about \<open>process_dag\<close>, C12 about copies, C23 about printing, C30
  about insertion and lookup, C31 about copies of tasks. Those of queue, threads and scheduler are in \<open>Scheduler_Claims\<close>: C11, C18 and C25
  to C29. The properties of the composition are in
  \<open>Pipeline_Claims\<close>: C8 (from the document to what the thread writes), C9 (from the graph to the thread), C13 (the
  comparison of graphs), C15 and C16 (the graph of a document). C17, C32 and C33 are in \<open>Yaml_Claims\<close>, C24 in
  \<open>Programs\<close>, C34 in \<open>Logging\<close>, C35 in \<open>Stop_Watch\<close>, C36 to C40 in \<open>Service_Claims\<close>. Several state what the
  code does where that is not what it was meant to do (for example \<open>process_dag_release_diverges\<close>,
  \<open>processed_graph_runs_one_task\<close>, \<open>service_stops_accepting\<close>). Theorems without a number are facts of the same
  standing that the numbered ones do not need.

  \<^bold>\<open>Numbers and fuel.\<close> \<open>size_t\<close> is a 64-bit word; an invariant keeps graphs below $2^{64}$ vertices, as any
  \<open>std::vector\<close> is, so counters do not wrap. The loop of the sort has
  fuel \<open>sort_fuel\<close>, the vertices and edges of the graph, which \<open>topological_sort_correct\<close> shows to be enough;
  \<open>process_dag\<close> takes the number of its rounds, and the number of vertices is enough (\<open>process_dag_layers\<close>).
  The undisturbed run of the scheduler (\<open>run_scheduler\<close>) takes the number of its steps, of which $4 n + 11$ are enough
  on a queue of $n$ pointers (\<open>startup_runs_first_task\<close>). Printing takes the length of a path, for which the number of vertices is enough on an acyclic graph
  (\<open>DAG_print_returns\<close>); running out for every amount of fuel is how non-termination is stated.

  \<^bold>\<open>Parameters.\<close> libuuid, rapidjson's writer and equality, stages and plugins of users, \<open>NDEBUG\<close> and the value
  of an uninitialised flag (record \<open>env\<close>, documented behaviour \<open>env_ok\<close>); yaml-cpp (\<open>yaml_api\<close>);
  Boost.DLL (\<open>dll_api\<close>); the file system (\<open>file_api\<close>, \<open>path_api\<close>); calls on the acceptor, what OpenSSL answers
  to the two certificate files, parsing of addresses and Beast's \<open>need_eof\<close> (\<open>service_env\<close>); Boost's handling of
  the command line and the loading of YAML files (\<open>program_env\<close>, documented behaviour \<open>program_env_ok\<close>);
  the clock.

  \<^bold>\<open>Not modelled.\<close> The log messages of the deserializer, the graph, the scheduler's loop, tasks and the service (those of the
  thread that runs a task are modelled, as are the logger, its sinks and the layout of its lines; Boost.Log's default sink, which writes while no sink is registered, is not), the bodies of TLS streams and buffers, the contents of certificates, the \<open>what()\<close> of the exception classes (an exception is its constructor in \<open>cpp_error\<close>),
  accessors that return a member (they are the selectors of the records), destructors without an effect on the
  store, and most of the tests.
\<close>

section \<open>Instances for the witnesses\<close>

definition empty_store :: store where
  "empty_store = \<lparr>cells = (\<lambda>_. None), brk = 0, draws = 0\<rparr>"

lemma sample_reach: "(0, 2) \<in> (arcs sample_store sample_graph)\<^sup>*"
  unfolding arcs_sample by (rule rtrancl_trans [OF r_into_rtrancl r_into_rtrancl, of _ 1]) auto

lemma arcs_sample_list: "arcs sample_store [0, Suc 0, 2] = {(0, Suc 0), (Suc 0, 2)}"
  using arcs_sample by (simp add: sample_graph_def)

lemmas sample_facts = sample_env_ok wf_sample_dag wf_sample_store wf_sample_graph

lemma closes_cycle_iff: "acyclic r \<Longrightarrow> (\<not> acyclic (insert (a, b) r)) = ((b, a) \<in> r\<^sup>*)"
  by (simp add: acyclic_insert)

section \<open>The graph stays acyclic\<close>

text \<open>
  C1. Whatever sequence of the following operations is applied to a newly constructed graph, including calls that
  throw, the graph is well formed: adding a vertex that has no edges yet, \<open>connect\<close> in all its variants,
  \<open>add_and_connect\<close>, cycle checks between vertices of the graph, removal of a vertex that nothing points to
  (by reference or by identifier), cloning, reset. Not among them are the removal of a vertex that something
  points to, which C20 shows to break the invariant, and so \<open>remove_all_vertex_with_label\<close>; assignment of
  graphs; and adding vertices that already have edges. Well formed means: identifiers are unique and not
  null, every edge leads to a live vertex of the graph, no vertex has two edges to the same target,
  every counter of incoming edges is exact, and there is no cycle.
\<close>

theorem dag_reachable_wf:
  assumes "env_ok E" "wf_store s0" "(dag_step E)\<^sup>*\<^sup>* (DAG_title_config title j, s0) (d, s)"
  shows "wf_dag d s"
  using dag_machine.reachable_inv [OF assms(1) _ assms(3)] assms(2) by (auto simp: dag_init_def)

theorem dag_reachable_wf_witness:
  "\<exists>d s. (dag_step (sample_env False))\<^sup>*\<^sup>* (DAG_title_config ''g'' JNull, empty_store) (d, s) \<and>
     graph_of d = [0] \<and> wf_dag d s"
proof -
  let ?v = "sample_vertex 1 ''v'' [] 0 None" and ?d = "DAG_title_config ''g'' JNull"
  have st: "wf_store empty_store" by (simp add: wf_store_def vert_def empty_store_def)
  then have "wf_dag ?d empty_store" by (intro dag_init_wf [of "sample_env False"]) (auto simp: dag_init_def)
  from add_vertex_ok [OF sample_env_ok this, of ?v False]
  have "add_vertex (sample_env False) ?d ?v empty_store =
      ((True, ?d\<lparr>graph_of := [0]\<rparr>, snd (DAGVertex_move ?v)), alloc ?v empty_store)"
    by (simp add: fresh_vertex_def sample_vertex_def vertex_ok_def DAG_title_config_def empty_store_def)
  then have step: "(dag_step (sample_env False))\<^sup>*\<^sup>* (?d, empty_store) (?d\<lparr>graph_of := [0]\<rparr>, alloc ?v empty_store)"
    by (intro r_into_rtranclp step_add) (simp_all add: fresh_vertex_def sample_vertex_def vertex_ok_def DAG_title_config_def)
  from dag_reachable_wf [OF sample_env_ok st step] step show ?thesis by force
qed

text \<open>
  C2. \<open>connection_would_make_cyclic(v1, v2)\<close>, on two vertices of a well-formed graph, returns \<open>true\<close>
  exactly if \<open>v1\<close> can be reached from \<open>v2\<close>, and leaves every vertex of the store as it was.
\<close>

theorem would_make_cyclic_iff:
  assumes "env_ok E" "wf_dag d s" "a \<in> set (graph_of d)" "b \<in> set (graph_of d)"
    and "vert s a = Some v1" "vert s b = Some v2"
  shows "\<exists>t. connection_would_make_cyclic E d v1 v2 s = (Inr ((b, a) \<in> (arcs s (graph_of d))\<^sup>*), t) \<and> same_cells s t"
proof -
  note w = wf_dagD [OF assms(2)]
  obtain j where j: "config_of d = Some j" using w(4) by blast
  have "vertex_ok v1" using wf_graphE [OF w(2) assms(3)] assms(5) by (metis option.inject)
  moreover have "vertex_ok v2" using wf_graphE [OF w(2) assms(4)] assms(6) by (metis option.inject)
  ultimately show ?thesis
    using would_make_cyclic_ok [OF assms(1) w(1,2) j assms(3,4), of v1 v2] assms(5,6)
    by (simp add: uuid_of_def w(3))
qed

theorem would_make_cyclic_iff_witness:
  "\<exists>t. connection_would_make_cyclic (sample_env False) sample_dag (the (vert sample_store 2))
     (the (vert sample_store 0)) sample_store = (Inr True, t) \<and> same_cells sample_store t"
  using would_make_cyclic_iff [OF sample_env_ok wf_sample_dag, of 2 0 "the (vert sample_store 2)" "the (vert sample_store 0)" False]
    sample_reach by simp

text \<open>
  C3. \<open>connect(v1, v2)\<close> on two vertices of the graph that does not close a cycle returns \<open>true\<close> and adds
  exactly the arc from the first to the second; only these two vertices change, and only the edges
  of the one and the counter of the other. The invariant is kept.
\<close>

theorem connect_adds_arc:
  assumes "env_ok E" "wf_dag d s" "a \<in> set (graph_of d)" "b \<in> set (graph_of d)"
    and "v_uuid v1 = uuid_of s a" "v_uuid v2 = uuid_of s b"
    and "(b, a) \<notin> (arcs s (graph_of d))\<^sup>*"
  shows "\<exists>t. DAG_connect E d v1 v2 s = (Inr True, t) \<and> wf_dag d t \<and>
    arcs t (graph_of d) = insert (a, b) (arcs s (graph_of d)) \<and> touches_only {a, b} s t"
  using DAG_connect_ok [OF assms(1-6)] closes_cycle_iff [OF wf_dagD(3) [OF assms(2)]] assms(7) by blast

theorem connect_adds_arc_witness:
  "\<exists>t. DAG_connect (sample_env False) sample_dag (the (vert sample_store 0)) (the (vert sample_store 2)) sample_store =
     (Inr True, t) \<and> wf_dag sample_dag t \<and> arcs t sample_graph = {(0, 2), (0, 1), (1, 2)} \<and>
     touches_only {0, 2} sample_store t"
proof -
  have "(2, 0) \<notin> (arcs sample_store sample_graph)\<^sup>*"
  proof
    assume "(2, 0) \<in> (arcs sample_store sample_graph)\<^sup>*"
    then show False by (cases rule: converse_rtranclE) (simp_all add: arcs_sample)
  qed
  then show ?thesis
    using connect_adds_arc [OF sample_env_ok wf_sample_dag, of 0 2 "the (vert sample_store 0)" "the (vert sample_store 2)" False]
    by (simp add: uuid_of_def arcs_sample)
qed

text \<open>
  C4. \<open>connect(v1, v2)\<close> that would close a cycle throws \<open>DAGException\<close>, and no vertex has changed.
\<close>

theorem connect_refuses_cycle:
  assumes "env_ok E" "wf_dag d s" "a \<in> set (graph_of d)" "b \<in> set (graph_of d)"
    and "v_uuid v1 = uuid_of s a" "v_uuid v2 = uuid_of s b"
    and "(b, a) \<in> (arcs s (graph_of d))\<^sup>*"
  shows "\<exists>t. DAG_connect E d v1 v2 s = (Inl ThrowDAGException, t) \<and> same_cells s t"
  using DAG_connect_cycle [OF assms(1-6)] closes_cycle_iff [OF wf_dagD(3) [OF assms(2)]] assms(7) by blast

theorem connect_refuses_cycle_witness:
  "\<exists>t. DAG_connect (sample_env False) sample_dag (the (vert sample_store 2)) (the (vert sample_store 0)) sample_store =
     (Inl ThrowDAGException, t) \<and> same_cells sample_store t"
  by (rule connect_refuses_cycle [of _ _ _ 2 0]) (use sample_reach in \<open>auto simp: sample_facts uuid_of_def\<close>)

section \<open>Sorting and processing\<close>

text \<open>
  C5. \<open>dag_topological_sort\<close> on a well-formed graph (cyclic or not) returns, and returns \<open>true\<close> exactly
  if the graph has a cycle. The output is the clones of the vertices in the order of the reference algorithm
  (\<open>kahn_order\<close>, which has no counters and changes nothing): breadth first from the vertices without predecessors,
  the targets of a vertex in the order of its edges. In this order the vertices are distinct and every one comes
  after all its predecessors; without a cycle every vertex of the graph is there.
\<close>

theorem topological_sort_correct:
  assumes "env_ok E" "wf_graph s (graph_of g)"
  shows "\<exists>vs t. dag_topological_sort E g s = (Inr (\<not> acyclic (arcs s (graph_of g)), vs), t) \<and>
    list_all2 (\<lambda>a v. same_vertex (the (vert s a)) v) (kahn_order s (graph_of g)) vs \<and>
    distinct (kahn_order s (graph_of g)) \<and> topological (arcs s (graph_of g)) (kahn_order s (graph_of g)) \<and>
    (if acyclic (arcs s (graph_of g)) then set (kahn_order s (graph_of g)) = set (graph_of g)
     else set (kahn_order s (graph_of g)) \<subset> set (graph_of g))"
proof -
  let ?L = "kahn_order s (graph_of g)"
  obtain vs t where L: "dag_topological_sort E g s = (Inr (\<not> acyclic (arcs s (graph_of g)), vs), t)"
    "distinct ?L" "set ?L \<subseteq> set (graph_of g)" "topological (arcs s (graph_of g)) ?L"
    "length ?L = length (graph_of g) \<longleftrightarrow> acyclic (arcs s (graph_of g))"
    "list_all2 (\<lambda>a v. same_vertex (the (vert s a)) v \<and> v_edges v = [] \<and> v_in v = 0) ?L vs"
    by (rule dag_topological_sort_kahn [OF assms])
  have "set ?L = set (graph_of g) \<longleftrightarrow> acyclic (arcs s (graph_of g))"
    using L(2,3,5) wf_graph_distinct [OF assms(2)] by (metis card_subset_eq distinct_card finite_set)
  with L list_all2_mono [OF L(6)] show ?thesis by (intro exI [of _ vs] exI [of _ t]) auto
qed

lemma targets_sample:
  "targets sample_store 0 = [1]" "targets sample_store (Suc 0) = [2]" "targets sample_store 2 = []"
  by (simp_all add: targets_def List.map_filter_simps)

theorem topological_sort_correct_witness:
  "\<exists>vs t. dag_topological_sort (sample_env True) sample_dag sample_store = (Inr (False, vs), t) \<and>
     list_all2 (\<lambda>a v. same_vertex (the (vert sample_store a)) v) [0, 1, 2] vs"
proof -
  have "kahn_order sample_store sample_graph = [0, 1, 2]"
    by (simp add: kahn_order_def all_placed_def targets_sample sample_graph_def numeral_3_eq_3)
  with topological_sort_correct [of "sample_env True" sample_store sample_dag] show ?thesis
    by (auto simp: acyclic_sample sample_facts)
qed

text \<open>
  C6. In a debug build, \<open>process_dag\<close> on a well-formed graph returns \<open>true\<close>. The batches of \<open>out\<close> are
  exactly the layers of the graph: each is the vertices whose predecessors are all in earlier
  batches, in the order of the graph, and none is empty. The tasks of the vertices are appended to the
  scheduler's queue in the same order, and the graph itself is untouched.
\<close>

theorem process_dag_layers:
  assumes "env_ok E" "\<not> ndebug E" "wf_dag d s" "vertex_count d \<le> n"
  shows "\<exists>Bs cs vs t. process_dag E n d out queue s = ((Inr True, cs, queue @ map v_task vs), t) \<and>
    same_cells s t \<and> layered (arcs s (graph_of d)) (graph_of d) Bs \<and>
    list_all2 (list_all2 (copy_of s)) Bs cs \<and> list_all2 (copy_of s) (concat Bs) vs"
  using assms by (rule process_dag_ok)

theorem process_dag_layers_witness:
  "\<exists>Bs cs vs t. process_dag (sample_env False) 3 sample_dag [] [] sample_store = ((Inr True, cs, map v_task vs), t) \<and>
    same_cells sample_store t \<and> layered {(0, 1), (1, 2)} [0, 1, 2] Bs \<and>
    list_all2 (list_all2 (copy_of sample_store)) Bs cs \<and> list_all2 (copy_of sample_store) (concat Bs) vs"
  using process_dag_layers [OF sample_env_ok _ wf_sample_dag, of False 3 "[]" "[]"]
  by (simp add: vertex_count_def sample_graph_def arcs_sample_list)

text \<open>
  C7. The tasks \<open>process_dag\<close> queues respect the graph: there is an order of the vertices, each exactly
  once, in which the source of every arc comes before its target, and the queue receives the tasks
  (or null pointers) of the vertices in that order.
\<close>

theorem process_dag_respects_arcs:
  assumes "env_ok E" "\<not> ndebug E" "wf_dag d s" "vertex_count d \<le> n"
  shows "\<exists>(vs :: DAGVertex list) order cs t. process_dag E n d out queue s = ((Inr True, cs, queue @ map v_task vs), t) \<and>
    distinct order \<and> set order = set (graph_of d) \<and>
    (\<forall>(a, b) \<in> arcs s (graph_of d). index_of order a < index_of order b) \<and>
    map (map_option t_uuid \<circ> v_task) vs = map (\<lambda>a. map_option t_uuid (v_task (the (vert s a)))) order"
proof -
  from process_dag_ok [OF assms] obtain Bs cs vs t where
    p: "process_dag E n d out queue s = ((Inr True, cs, queue @ map v_task vs), t)"
      "layered (arcs s (graph_of d)) (graph_of d) Bs" "list_all2 (copy_of s) (concat Bs) vs" by blast
  note wf = wf_dagD(2) [OF assms(3)]
  have dist: "distinct (concat Bs)" using layered_distinct [OF p(2) wf_graph_distinct [OF wf]] .
  have "index_of (concat Bs) a < index_of (concat Bs) b" if ab: "(a, b) \<in> arcs s (graph_of d)" for a b
    using layered_index [OF p(2) dist ab] arcs_in_graph [OF wf] ab by auto
  then have "\<forall>(a, b) \<in> arcs s (graph_of d). index_of (concat Bs) a < index_of (concat Bs) b" by blast
  moreover have "map (map_option t_uuid \<circ> v_task) vs = map (\<lambda>a. map_option t_uuid (v_task (the (vert s a)))) (concat Bs)"
    using p(3) by (induction rule: list_all2_induct)
      (auto simp: copy_of_def same_vertex_def same_task_def option_rel_Some1 split: option.split elim: option.rel_cases)
  ultimately show ?thesis using p(1) dist layered_set [OF p(2)] by blast
qed

theorem process_dag_respects_arcs_witness:
  "\<exists>(vs :: DAGVertex list) order cs t. process_dag (sample_env False) 3 sample_dag [] [] sample_store = ((Inr True, cs, map v_task vs), t) \<and>
    distinct order \<and> set order = {0, 1, 2} \<and>
    (\<forall>(a, b) \<in> {(0, 1), (1, 2)}. index_of order a < index_of order b) \<and>
    map (map_option t_uuid \<circ> v_task) vs = map (\<lambda>a. map_option t_uuid (v_task (the (vert sample_store a)))) order"
  using process_dag_respects_arcs [OF sample_env_ok _ wf_sample_dag, of False 3 "[]" "[]"]
  by (simp add: vertex_count_def sample_graph_def arcs_sample_list)

text \<open>
  C10. \<open>process_dag\<close> on a graph with a cycle (which only \<open>DAGVertex::connect\<close> on the graph's own vertices can make)
  returns \<open>false\<close> in every build, queues nothing and leaves \<open>out\<close> and the graph as they were.
\<close>

theorem process_dag_refuses_cycle:
  assumes "env_ok E" "wf_store s" "wf_graph s (graph_of d)" "config_of d \<noteq> None" "\<not> acyclic (arcs s (graph_of d))"
  shows "\<exists>t. process_dag E n d out queue s = ((Inr False, out, queue), t) \<and> same_cells s t"
  using process_dag_cyclic [OF assms(1-3)] assms(4,5) by blast

theorem process_dag_refuses_cycle_witness:
  "\<exists>t. process_dag (sample_env True) 0 \<lparr>graph_of = [0, 1], title_of = ''loop'', config_of = Some JNull\<rparr> [] [None] cycle_store =
     ((Inr False, [], [None]), t) \<and> same_cells cycle_store t"
proof -
  have "wf_store cycle_store" by (auto simp: wf_store_def vert_def cycle_store_def split: if_splits)
  moreover have "(0, 0) \<in> (arcs cycle_store [0, 1])\<^sup>+"
    unfolding arcs_cycle by (rule trancl_trans [OF r_into_trancl r_into_trancl, of _ 1]) auto
  then have "\<not> acyclic (arcs cycle_store [0, 1])" unfolding acyclic_def by blast
  ultimately show ?thesis
    using process_dag_refuses_cycle [of "sample_env True" cycle_store "\<lparr>graph_of = [0, 1], title_of = ''loop'', config_of = Some JNull\<rparr>"]
      wf_cycle_graph by (simp add: sample_env_ok)
qed

text \<open>
  C14. In a release build (\<open>NDEBUG\<close>) \<open>process_dag\<close> does not return on any non-empty well-formed graph:
  the removal of the vertices stands inside an \<open>assert\<close>, so the first batch is taken again and again.
\<close>

theorem process_dag_release_diverges:
  assumes "env_ok E" "ndebug E" "wf_dag d s" "graph_of d \<noteq> []"
  shows "\<forall>n. \<exists>cs q t. process_dag E n d out queue s = ((Inl OutOfFuel, cs, q), t)"
  using process_dag_release [OF assms] by blast

theorem process_dag_release_diverges_witness:
  "\<forall>n. \<exists>cs q t. process_dag (sample_env True) n sample_dag [] [] sample_store = ((Inl OutOfFuel, cs, q), t)"
  by (rule process_dag_release_diverges) (simp_all add: sample_facts sample_graph_def)

section \<open>Copying, adding, removing\<close>

text \<open>
  C12. \<open>DAG::clone\<close> of a well-formed graph succeeds. The clone lives at fresh addresses, in the order of
  the original; its arcs are the original arcs under the bijection of positions; every vertex keeps
  identifier, label, status and task; and no cell of the original changes.
\<close>

theorem DAG_clone_isomorphic:
  assumes "env_ok E" "wf_store s" "wf_graph s (graph_of d)" "config_of d = Some j"
  shows "\<exists>d' t. DAG_clone E d s = (Inr d', t) \<and> copied s d t d'"
  unfolding DAG_clone_def using assms by (rule DAG_copy_ok)

theorem DAG_clone_isomorphic_witness:
  "\<exists>d' t. DAG_clone (sample_env False) sample_dag sample_store = (Inr d', t) \<and> copied sample_store sample_dag t d'"
  by (rule DAG_clone_isomorphic) (simp_all add: sample_facts, simp add: sample_dag_def)

text \<open>
  \<open>add_vertex\<close> of a vertex with a new identifier returns \<open>true\<close> and appends it to the graph, at a
  fresh address, with no change to the arcs; the vertex it was moved from is left invalid.
\<close>

theorem add_vertex_inserts:
  assumes "env_ok E" "wf_dag d s" "fresh_vertex v" "Suc (length (graph_of d)) < 2 ^ 64"
    and "v_uuid v \<notin> uuid_of s ` set (graph_of d)"
  shows "\<exists>d' left t. add_vertex E d v s = ((True, d', left), t) \<and> graph_of d' = graph_of d @ [brk s] \<and>
    vert t (brk s) = Some v \<and> (\<forall>a \<in> set (graph_of d). vert t a = vert s a) \<and>
    arcs t (graph_of d') = arcs s (graph_of d) \<and> wf_dag d' t \<and> v_status left = INVALID"
proof -
  have "vert (alloc v s) a = vert s a" if "a \<in> set (graph_of d)" for a
    using wf_dagD(7) [OF assms(2) that] by (simp add: vert_alloc)
  then show ?thesis
    using add_vertex_ok [OF assms] wf_dag_alloc [OF assms(2,3,5,4)]
    by (simp add: vert_alloc DAGVertex_move_def UUID_move_def)
qed

theorem add_vertex_inserts_witness:
  "\<exists>d' left t. add_vertex (sample_env False) sample_dag (sample_vertex 9 ''report'' [] 0 None) sample_store = ((True, d', left), t) \<and>
    graph_of d' = [0, 1, 2, 3] \<and> wf_dag d' t"
proof -
  have "9 \<notin> uuid_of sample_store ` set sample_graph"
    by (auto simp: sample_graph_def uuid_of_def sample_vertex_def)
  then show ?thesis
    using add_vertex_inserts [OF sample_env_ok wf_sample_dag, of "sample_vertex 9 ''report'' [] 0 None" False]
    by (auto simp: fresh_vertex_def vertex_ok_def sample_vertex_def sample_graph_def sample_store_def)
qed

text \<open>\<open>add_vertex\<close> of a vertex whose identifier is in the graph returns \<open>false\<close> and changes nothing.\<close>

theorem add_vertex_rejects_duplicate:
  assumes "env_ok E" "wf_dag d s" "v_uuid v \<in> uuid_of s ` set (graph_of d)"
  shows "add_vertex E d v s = ((False, d, v), s)"
  using assms by (rule add_vertex_twice)

theorem add_vertex_rejects_duplicate_witness:
  "add_vertex (sample_env False) sample_dag (sample_vertex 2 ''again'' [] 0 None) sample_store =
     ((False, sample_dag, sample_vertex 2 ''again'' [] 0 None), sample_store)"
proof (rule add_vertex_rejects_duplicate)
  have "uuid_of sample_store (Suc 0) = 2" by (simp add: uuid_of_def sample_vertex_def)
  then show "v_uuid (sample_vertex 2 ''again'' [] 0 None) \<in> uuid_of sample_store ` set (graph_of sample_dag)"
    by (simp add: sample_vertex_def image_iff) (metis sample_in_graph(2))
qed (simp_all add: sample_facts)

text \<open>
  \<open>add_and_connect\<close> on two new or known vertices returns \<open>true\<close> or throws \<open>DAGException\<close>, never
  \<open>false\<close>, and the graph it leaves is well formed in both cases.
\<close>

theorem add_and_connect_total:
  assumes "env_ok E" "wf_dag d s" "fresh_vertex v1" "fresh_vertex v2" "length (graph_of d) + 2 < 2 ^ 64"
  shows "\<exists>r d' t. add_and_connect E d v1 v2 s = ((r, d'), t) \<and> r \<in> {Inr True, Inl ThrowDAGException} \<and> wf_dag d' t"
proof -
  obtain r d' t where "add_and_connect E d v1 v2 s = ((r, d'), t)" by (metis prod.exhaust)
  with add_and_connect_cases [OF assms this] show ?thesis by blast
qed

theorem add_and_connect_total_witness:
  "\<exists>r d' t. add_and_connect (sample_env True) sample_dag (sample_vertex 9 ''a'' [] 0 None) (sample_vertex 1 ''b'' [] 0 None)
     sample_store = ((r, d'), t) \<and> r \<in> {Inr True, Inl ThrowDAGException} \<and> wf_dag d' t"
  by (rule add_and_connect_total)
    (simp_all add: sample_facts fresh_vertex_def vertex_ok_def sample_vertex_def sample_graph_def)

text \<open>
  C19. \<open>remove_vertex\<close> of a vertex nothing points to, called with a reference that the caller's shared pointer
  keeps valid, returns \<open>true\<close>; the vertex is destroyed, exactly its
  outgoing arcs disappear, the counters of their targets are adjusted, and the graph is well formed.
\<close>

theorem remove_vertex_source:
  assumes "env_ok E" "wf_dag d s" "a \<in> set (graph_of d)" "preds s (graph_of d) a = {}"
  shows "\<exists>d' t. remove_vertex E d (ByAddr a) s = ((True, d'), t) \<and> wf_dag d' t \<and>
    graph_of d' = filter (\<lambda>x. x \<noteq> a) (graph_of d) \<and> vert t a = None \<and>
    arcs t (graph_of d') = arcs s (graph_of d) - {a} \<times> UNIV"
  using remove_vertex_here [OF env_ok_libuuid [OF assms(1)] wf_dagD(2) [OF assms(2)] assms(3)]
    remove_source_wf [OF assms(2-4)]
    vert_removed [OF wf_dagD(2) [OF assms(2)] assms(3) wf_dagD(5) [OF assms(2,3)], of a]
  by (simp add: without_def)

theorem remove_vertex_source_witness:
  "\<exists>d' t. remove_vertex (sample_env False) sample_dag (ByAddr 0) sample_store = ((True, d'), t) \<and> wf_dag d' t \<and>
     graph_of d' = [1, 2] \<and> vert t 0 = None \<and> arcs t (graph_of d') = {(1, 2)}"
proof -
  have "arcs sample_store sample_graph - {0} \<times> UNIV = {(Suc 0, 2)}" by (auto simp: arcs_sample)
  moreover have "filter (\<lambda>x. x \<noteq> 0) sample_graph = [Suc 0, 2]" by (simp add: sample_graph_def)
  ultimately show ?thesis
    using remove_vertex_source [OF sample_env_ok wf_sample_dag, of 0 False] by simp
qed

text \<open>
  C20. \<open>remove_vertex\<close> of a vertex \<open>a\<close> that another vertex \<open>c\<close> points to leaves the edge in \<open>c\<close>: it is expired,
  and the graph is not well formed any more.
\<close>

theorem remove_vertex_leaves_dangling:
  assumes "env_ok E" "wf_dag d s" "(c, a) \<in> arcs s (graph_of d)"
  shows "\<exists>d' t. remove_vertex E d (ByAddr a) s = ((True, d'), t) \<and> c \<in> set (graph_of d') \<and>
    Some a \<in> set (succs t c) \<and> expired t (Some a) \<and> \<not> wf_graph t (graph_of d')"
proof -
  have a: "a \<in> set (graph_of d)" using arcs_in_graph [OF wf_dagD(2) [OF assms(2)]] assms(3) by blast
  show ?thesis
    using remove_vertex_here [OF env_ok_libuuid [OF assms(1)] wf_dagD(2) [OF assms(2)] a] remove_dangling [OF assms(2,3)]
    by blast
qed

theorem remove_vertex_leaves_dangling_witness:
  "\<exists>d' t. remove_vertex (sample_env False) sample_dag (ByAddr 1) sample_store = ((True, d'), t) \<and> 0 \<in> set (graph_of d') \<and>
     Some 1 \<in> set (succs t 0) \<and> expired t (Some 1) \<and> \<not> wf_graph t (graph_of d')"
  by (rule remove_vertex_leaves_dangling) (simp_all add: sample_facts arcs_sample)

section \<open>Connecting by label, questions about arcs\<close>

text \<open>
  C21. \<open>connect_all_by_label(l1, l2)\<close> returns \<open>true\<close> and adds exactly the arcs from every vertex with the
  first label to every vertex with the second, if these arcs together do not close a cycle.
\<close>

theorem connect_all_by_label_adds:
  assumes "env_ok E" "wf_dag d s" "acyclic (arcs s (graph_of d) \<union> set (label_pairs d l1 l2 s))"
  shows "\<exists>t. connect_all_by_label E d l1 l2 s = (Inr True, t) \<and> wf_dag d t \<and>
    arcs t (graph_of d) = arcs s (graph_of d) \<union> set (label_pairs d l1 l2 s)"
  using assms by (rule connect_all_by_label_ok)

theorem connect_all_by_label_adds_witness:
  "\<exists>t. connect_all_by_label (sample_env False) sample_dag ''extract'' ''load'' sample_store = (Inr True, t) \<and>
     wf_dag sample_dag t \<and> arcs t sample_graph = {(0, 1), (1, 2), (0, 2)}"
proof -
  have lp: "set (label_pairs sample_dag ''extract'' ''load'' sample_store) = {(0, 2)}"
    by (simp add: label_pairs_def find_all_verticies_with_label_def sample_graph_def sample_vertex_def)
  have "acyclic {(0 :: addr, 1), (1, 2), (0, 2)}"
    by (rule acyclicI_order [where f = "\<lambda>a. - int a"]) auto
  then show ?thesis
    using connect_all_by_label_adds [OF sample_env_ok wf_sample_dag, of "''extract''" "''load''" False]
    by (simp add: lp arcs_sample insert_commute)
qed

text \<open>
  If the arcs together close a cycle, \<open>connect_all_by_label\<close> throws \<open>DAGException\<close>; the arcs added
  before the throw stay, and the graph is well formed.
\<close>

theorem connect_all_by_label_cycle:
  assumes "env_ok E" "wf_dag d s" "\<not> acyclic (arcs s (graph_of d) \<union> set (label_pairs d l1 l2 s))"
  shows "\<exists>t. connect_all_by_label E d l1 l2 s = (Inl ThrowDAGException, t) \<and> wf_dag d t \<and>
    arcs s (graph_of d) \<subseteq> arcs t (graph_of d)"
  using assms by (rule connect_all_by_label_throws)

theorem connect_all_by_label_cycle_witness:
  "\<exists>t. connect_all_by_label (sample_env False) sample_dag ''transform'' ''extract'' sample_store = (Inl ThrowDAGException, t) \<and>
     wf_dag sample_dag t"
proof -
  have lp: "set (label_pairs sample_dag ''transform'' ''extract'' sample_store) = {(1, 0)}"
    by (simp add: label_pairs_def find_all_verticies_with_label_def sample_graph_def sample_vertex_def)
  have "\<not> acyclic (arcs sample_store sample_graph \<union> {(1, 0)})"
    by (auto simp: acyclic_insert arcs_sample acyclic_sample)
  then show ?thesis
    using connect_all_by_label_cycle [OF sample_env_ok wf_sample_dag, of "''transform''" "''extract''" False]
    by (auto simp: lp)
qed

text \<open>
  C22. \<open>connection_would_make_cyclic_by_label\<close> returns \<open>true\<close> exactly if \<^emph>\<open>none\<close> of the arcs between the
  two labels would close a cycle: the opposite of what its name and documentation say.
\<close>

theorem would_make_cyclic_by_label_inverted:
  assumes "env_ok E" "wf_dag d s"
  shows "\<exists>t. connection_would_make_cyclic_by_label E d l1 l2 s =
    (Inr (\<not> (\<exists>(a, b) \<in> set (label_pairs d l1 l2 s). (b, a) \<in> (arcs s (graph_of d))\<^sup>*)), t) \<and> same_cells s t"
proof -
  have "(\<forall>p \<in> set (label_pairs d l1 l2 s). acyclic (insert p (arcs s (graph_of d)))) \<longleftrightarrow>
      \<not> (\<exists>(a, b) \<in> set (label_pairs d l1 l2 s). (b, a) \<in> (arcs s (graph_of d))\<^sup>*)"
    using wf_dagD(3) [OF assms(2)] by (auto simp: acyclic_insert)
  with would_make_cyclic_by_label_ok [OF assms, of l1 l2] show ?thesis by simp
qed

theorem would_make_cyclic_by_label_inverted_witness:
  "\<exists>t. connection_would_make_cyclic_by_label (sample_env False) sample_dag ''load'' ''extract'' sample_store =
     (Inr False, t) \<and> same_cells sample_store t"
proof -
  have "set (label_pairs sample_dag ''load'' ''extract'' sample_store) = {(2, 0)}"
    by (simp add: label_pairs_def find_all_verticies_with_label_def sample_graph_def sample_vertex_def)
  then show ?thesis
    using would_make_cyclic_by_label_inverted [OF sample_env_ok wf_sample_dag, of False "''load''" "''extract''"] sample_reach
    by simp
qed

text \<open>
  \<open>connection_would_make_cyclic\<close> with a vertex that is not in the graph dereferences a null pointer:
  it looks the vertex up by the identifier of the object it has just moved from.
\<close>

theorem would_make_cyclic_unknown_vertex:
  assumes "env_ok E" "wf_dag d s" "length (graph_of d) + 2 < 2 ^ 64" "fresh_vertex v1" "fresh_vertex v2"
    and "v_uuid v1 \<notin> uuid_of s ` set (graph_of d) \<or>
      (v_uuid v2 \<notin> uuid_of s ` set (graph_of d) \<and> v_uuid v1 \<noteq> v_uuid v2)"
  shows "\<exists>t. connection_would_make_cyclic E d v1 v2 s = (Inl NullDeref, t)"
  using assms by (rule would_make_cyclic_missing)

theorem would_make_cyclic_unknown_vertex_witness:
  "\<exists>t. connection_would_make_cyclic (sample_env False) sample_dag (sample_vertex 9 ''a'' [] 0 None)
     (sample_vertex 1 ''b'' [] 0 None) sample_store = (Inl NullDeref, t)"
  by (rule would_make_cyclic_unknown_vertex)
    (auto simp: sample_facts fresh_vertex_def vertex_ok_def sample_vertex_def sample_graph_def uuid_of_def)

text \<open>\<open>are_connected(v1, v2)\<close> on two vertices of the graph answers whether there is an arc from the first to the second.\<close>

theorem are_connected_iff_arc:
  assumes "env_ok E" "wf_dag d s" "a \<in> set (graph_of d)" "b \<in> set (graph_of d)"
    and "v_uuid v1 = uuid_of s a" "v_uuid v2 = uuid_of s b"
  shows "are_connected E d v1 v2 s = Inr ((a, b) \<in> arcs s (graph_of d))"
  using assms by (rule are_connected_ok)

theorem are_connected_iff_arc_witness:
  "are_connected (sample_env False) sample_dag (the (vert sample_store 0)) (the (vert sample_store 1)) sample_store = Inr True"
  using are_connected_iff_arc [OF sample_env_ok wf_sample_dag, of 0 1 "the (vert sample_store 0)" "the (vert sample_store 1)" False]
  by (simp add: uuid_of_def arcs_sample)

text \<open>
  \<open>all_are_connected_by_label(l1, l2)\<close> answers whether both labels occur and every vertex with the
  first has an arc to every vertex with the second.
\<close>

theorem all_are_connected_by_label_iff:
  assumes "env_ok E" "wf_dag d s"
  shows "all_are_connected_by_label E d l1 l2 s =
    Inr (label_pairs d l1 l2 s \<noteq> [] \<and> set (label_pairs d l1 l2 s) \<subseteq> arcs s (graph_of d))"
  using assms by (rule all_are_connected_ok)

theorem all_are_connected_by_label_iff_witness:
  "all_are_connected_by_label (sample_env False) sample_dag ''extract'' ''transform'' sample_store = Inr True"
  using all_are_connected_by_label_iff [OF sample_env_ok wf_sample_dag, of False "''extract''" "''transform''"]
  by (simp add: label_pairs_def find_all_verticies_with_label_def sample_graph_def sample_vertex_def arcs_sample_list)

section \<open>Printing\<close>

text \<open>C23. Printing a well-formed graph returns: the paths it follows are no longer than the graph.\<close>

theorem DAG_print_returns:
  assumes "wf_dag d s"
  shows "\<exists>text. DAG_print E (vertex_count d) d s = Some text"
proof -
  note w = wf_dagD [OF assms]
  have "vertex_print E (vertex_count d) s (the (vert s a)) \<noteq> None" if "a \<in> set (graph_of d)" for a
    unfolding vertex_count_def by (rule vertex_print_returns [OF w(2,3) that card_reach_le [OF w(2) that]])
  then have "None \<notin> set (map (\<lambda>a. map_option (\<lambda>t. t @ endl) (vertex_print E (vertex_count d) s (the (vert s a)))) (graph_of d))"
    by force
  then show ?thesis unfolding DAG_print_def concat_options_Some [symmetric] by auto
qed

theorem DAG_print_returns_witness:
  "\<exists>text. DAG_print (sample_env False) (vertex_count sample_dag) sample_dag sample_store = Some text"
  using DAG_print_returns [OF wf_sample_dag] .

text \<open>Printing a vertex that lies on a cycle never returns.\<close>

theorem vertex_print_diverges:
  assumes "wf_graph s g" "(a, a) \<in> (arcs s g)\<^sup>+"
  shows "\<forall>n. vertex_print E n s (the (vert s a)) = None"
  using vertex_print_cycle [OF assms] by blast

theorem vertex_print_diverges_witness:
  "\<forall>n. vertex_print (sample_env False) n cycle_store (sample_vertex 1 ''a'' [sample_edge 3 1] 1 None) = None"
proof -
  have "(0, 0) \<in> (arcs cycle_store [0, 1])\<^sup>+"
    unfolding arcs_cycle by (rule trancl_trans [OF r_into_trancl r_into_trancl, of _ 1]) auto
  from vertex_print_diverges [OF wf_cycle_graph this] show ?thesis by simp
qed

section \<open>Identifiers and tasks\<close>

text \<open>
  C30. Insertion and lookup. \<open>add_vertex\<close> of a vertex whose identifier is in the graph returns \<open>false\<close> and changes
  neither the graph nor the vertex. Otherwise it returns \<open>true\<close> and appends the vertex, at a fresh address, with no
  change to the other vertices and the arcs, and leaves the argument invalid; from then on the lookup of its
  identifier finds it, and every other lookup gives what it gave before.
\<close>

theorem add_vertex_lookup:
  assumes "env_ok E" "wf_dag d s" "fresh_vertex v" "Suc (length (graph_of d)) < 2 ^ 64"
  shows "if v_uuid v \<in> uuid_of s ` set (graph_of d) then add_vertex E d v s = ((False, d, v), s)
    else \<exists>d' left t. add_vertex E d v s = ((True, d', left), t) \<and> graph_of d' = graph_of d @ [brk s] \<and>
      vert t (brk s) = Some v \<and> (\<forall>a \<in> set (graph_of d). vert t a = vert s a) \<and>
      arcs t (graph_of d') = arcs s (graph_of d) \<and> wf_dag d' t \<and> v_status left = INVALID \<and>
      (\<forall>u. find_vertex_by_uuid E d' u t = (if u = v_uuid v then Some (brk s) else find_vertex_by_uuid E d u s))"
proof (cases "v_uuid v \<in> uuid_of s ` set (graph_of d)")
  case True
  with add_vertex_twice [OF assms(1,2)] show ?thesis by simp
next
  case False
  from add_vertex_inserts [OF assms False] obtain d' left t where
    new: "add_vertex E d v s = ((True, d', left), t)" "graph_of d' = graph_of d @ [brk s]"
      "vert t (brk s) = Some v" "\<forall>a \<in> set (graph_of d). vert t a = vert s a"
      "arcs t (graph_of d') = arcs s (graph_of d)" "wf_dag d' t" "v_status left = INVALID" by blast
  have "find_vertex_by_uuid E d' u t = (if u = v_uuid v then Some (brk s) else find_vertex_by_uuid E d u s)" for u
    by (rule find_by_uuid_snoc [OF env_ok_libuuid [OF assms(1)] new(2-4) False])
  with new False show ?thesis by auto
qed

theorem add_vertex_lookup_witness:
  "\<exists>d' left t. add_vertex (sample_env False) sample_dag (sample_vertex 9 ''report'' [] 0 None) sample_store = ((True, d', left), t) \<and>
     find_vertex_by_uuid (sample_env False) d' 9 t = Some 3 \<and>
     find_vertex_by_uuid (sample_env False) d' 2 t = find_vertex_by_uuid (sample_env False) sample_dag 2 sample_store"
proof -
  have "9 \<notin> uuid_of sample_store ` set sample_graph"
    by (auto simp: sample_graph_def uuid_of_def sample_vertex_def)
  then show ?thesis
    using add_vertex_lookup [OF sample_env_ok wf_sample_dag, of "sample_vertex 9 ''report'' [] 0 None" False]
    by (auto simp: fresh_vertex_def vertex_ok_def sample_vertex_def sample_graph_def sample_store_def)
qed

text \<open>
  C31. \<open>Task::clone\<close> of a task whose stages can be cloned. If the task has the null identifier it throws
  \<open>std::runtime_error\<close>. Otherwise it returns a task with the same identifier and label, with the results of the
  virtual \<open>clone\<close> of its stages in the same order (a \<open>PrintStage\<close> up to its flag; for a stage of a user's class
  what that class returns), with copies of both documents and, on completion, with the clone of its plugin or, if it
  has none, its callback. The clone is neither iterating nor killed, and can be cloned again.
\<close>

theorem Task_clone_faithful:
  assumes "env_ok E" "list_all stage_ok (t_stages t)"
  shows "if t_uuid t = 0 then \<exists>msg. Task_clone E t = Inl (ThrowRuntimeError msg)
    else \<exists>t'. Task_clone E t = Inr t' \<and> task_ok t' \<and> t_uuid t' = t_uuid t \<and> t_label t' = t_label t \<and>
      list_all2 (cloned_stage E) (t_stages t) (t_stages t') \<and>
      t_plugin t' = map_option (plugin_clone E) (t_plugin t) \<and>
      t_callback t' = (if t_plugin t = None then t_callback t else None) \<and>
      t_json_config t' = Some (copy_document (t_json_config t)) \<and>
      t_json_inputs t' = Some (copy_document (t_json_inputs t)) \<and> \<not> t_iterating t' \<and> \<not> t_kill t'"
proof (cases "t_uuid t = 0")
  case True
  with Task_clone_null_uuid [OF assms(1) _ assms(2)] show ?thesis by simp
next
  case False
  with assms(2) have "task_ok t" by (simp add: task_ok_def)
  with False Task_clone_exact [OF assms(1)] show ?thesis by simp
qed

theorem Task_clone_faithful_witness:
  "\<exists>t'. Task_clone (sample_env False) (sample_task 5 ''t'' [stage 6 ''a'', (stage 7 ''b'')\<lparr>s_class := UserStage 3\<rparr>]) = Inr t' \<and>
     t_uuid t' = 5 \<and> map s_label (t_stages t') = [''a'', ''b'']"
proof -
  let ?t = "sample_task 5 ''t'' [stage 6 ''a'', (stage 7 ''b'')\<lparr>s_class := UserStage 3\<rparr>]"
  have "list_all stage_ok (t_stages ?t)" by (simp add: stage_ok_def sample_task_def stage_def)
  from Task_clone_faithful [OF sample_env_ok this, of False] obtain t' where
    t': "Task_clone (sample_env False) ?t = Inr t'" "t_uuid t' = 5" "list_all2 (cloned_stage (sample_env False)) (t_stages ?t) (t_stages t')"
    by (auto simp: sample_task_def)
  have "user_stage_clone (sample_env False) x = Inr (x\<lparr>s_class := UserStage 0\<rparr>)" for x
    by (simp add: sample_env_def env.defs libuuid.defs)
  then have label: "cloned_stage (sample_env False) x y \<Longrightarrow> s_label y = s_label x" for x y
    by (auto simp: cloned_stage_def split: stage_class.splits)
  have "list_all2 (cloned_stage (sample_env False)) xs ys \<Longrightarrow> map s_label ys = map s_label xs" for xs ys
    by (induction rule: list_all2_induct) (simp_all add: label)
  from this [OF t'(3)] have "map s_label (t_stages t') = [''a'', ''b'']" by (simp add: sample_task_def stage_def)
  with t'(1,2) show ?thesis by (intro exI conjI)
qed

text \<open>
  Moving a task (construction or assignment) does not move its completion callbacks: the new
  task has none, an assigned task keeps the ones it had.
\<close>

theorem Task_move_drops_callbacks:
  assumes "\<not> t_iterating t" "\<not> t_iterating u"
  shows "(\<exists>m. Task_move E t = Inr m \<and> Task_complete b m = [] \<and> t_stages m = t_stages t \<and> t_uuid m = t_uuid t) \<and>
    (\<exists>m. Task_move_assign E u t = Inr m \<and> Task_complete b m = Task_complete b u \<and> t_stages m = t_stages t)"
  using assms
  by (auto simp: Task_move_def Task_move_assign_def UUID_clone_def Task_complete_def callback_is_set_def
      callback_plugin_is_set_def)

theorem Task_move_drops_callbacks_witness:
  "\<exists>m. Task_move (sample_env False) ((sample_task 1 ''t'' [])\<lparr>t_callback := Some 4\<rparr>) = Inr m \<and> Task_complete True m = []"
  using Task_move_drops_callbacks [of "(sample_task 1 ''t'' [])\<lparr>t_callback := Some 4\<rparr>" "sample_task 2 ''u'' []" "sample_env False" True]
  by (auto simp: sample_task_def)

end
